(* ===== verification/TQ_Prelude.thy ===== *)
theory TQ_Prelude
  imports Main "HOL-Library.Char_ord" "HOL-Library.List_Lexorder" "HOL-Library.Product_Lexorder"
    "HOL-Library.AList" "HOL-Library.Word"
begin

text \<open>
  Shared vocabulary of the development: the theorem collections the component
  theories fill, the facts on lists, association lists and prefixes they use, decimal
  notation (what \<open>strconv\<close> and the Redis server read and print) and the rounding of
  an integer to the nearest double, which Lua's \<open>tonumber\<close> and Go's \<open>float64\<close> apply.
\<close>

named_theorems key_simps \<comment> \<open>the Redis keys of one queue are pairwise different\<close>
named_theorems cmd_simps \<comment> \<open>the effect of one Redis command on the keyspace\<close>
named_theorems view_simps \<comment> \<open>what a keyspace update does to the view of a queue\<close>

subsection \<open>Lists\<close>

text \<open>A separator that occurs in neither prefix splits a string in one way only.\<close>

lemma append_sep_inject:
  assumes "x \<notin> set a" and "x \<notin> set b"
  shows "a @ x # c = b @ x # d \<longleftrightarrow> a = b \<and> c = d"
  using assms
proof (induction a arbitrary: b)
  case Nil
  then show ?case by (cases b) auto
next
  case (Cons y ys)
  then show ?case by (cases b) auto
qed

lemma filter_neq_removeAll: "filter (\<lambda>y. y \<noteq> x) xs = removeAll x xs"
  by (induction xs) auto

lemma count_list_removeAll_0 [simp]: "count_list (removeAll x xs) x = 0"
  by (induction xs) auto

lemma distinct_butlast_last:
  assumes "distinct xs" and "xs \<noteq> []"
  shows "last xs \<notin> set (butlast xs)"
  using assms by (metis append_butlast_last_id distinct_append disjoint_insert(2) list.set(2) not_Cons_self2)

lemma set_butlast_distinct:
  assumes "distinct xs" and "xs \<noteq> []"
  shows "set (butlast xs) = set xs - {last xs}"
proof -
  have "set xs = set (butlast xs @ [last xs])"
    using assms(2) by simp
  then show ?thesis
    using distinct_butlast_last [OF assms] by auto
qed

lemma set_eq_insert_last:
  "xs \<noteq> [] \<Longrightarrow> set xs = insert (last xs) (set (butlast xs))"
  by (metis Un_insert_right append_butlast_last_id list.set(1) list.set(2) set_append
      sup_bot.right_neutral)

subsection \<open>Decimal notation\<close>

definition digit_char :: "nat \<Rightarrow> char" where
  "digit_char d = char_of (48 + d)"

fun show_nat :: "nat \<Rightarrow> string" where
  "show_nat n = (if n < 10 then [digit_char n] else show_nat (n div 10) @ [digit_char (n mod 10)])"

declare show_nat.simps [simp del]

definition show_int :: "int \<Rightarrow> string" where
  "show_int i = (if i < 0 then CHR ''-'' # show_nat (nat (- i)) else show_nat (nat i))"

definition digit_val :: "char \<Rightarrow> nat option" where
  "digit_val c = (let n = of_char c :: nat in if 48 \<le> n \<and> n \<le> 57 then Some (n - 48) else None)"

fun read_digits :: "nat \<Rightarrow> string \<Rightarrow> nat option" where
  "read_digits acc [] = Some acc"
| "read_digits acc (c # cs) =
     (case digit_val c of None \<Rightarrow> None | Some d \<Rightarrow> read_digits (10 * acc + d) cs)"

definition read_int_raw :: "string \<Rightarrow> int option" where
  "read_int_raw s =
     (case s of
        [] \<Rightarrow> None
      | c # cs \<Rightarrow>
          if c = CHR ''-''
          then (if cs = [] then None else map_option (\<lambda>n. - int n) (read_digits 0 cs))
          else map_option int (read_digits 0 s))"

text \<open>The canonical reading: only the text that \<open>show_int\<close> prints is a number.\<close>

definition read_int :: "string \<Rightarrow> int option" where
  "read_int s =
     (case read_int_raw s of
        None \<Rightarrow> None
      | Some i \<Rightarrow> if show_int i = s then Some i else None)"

lemma digit_val_digit_char [simp]: "d < 10 \<Longrightarrow> digit_val (digit_char d) = Some d"
  by (simp add: digit_val_def digit_char_def Let_def)

lemma digit_char_neq_minus [simp]: "d < 10 \<Longrightarrow> digit_char d \<noteq> CHR ''-''"
proof
  assume "d < 10" and "digit_char d = CHR ''-''"
  then have "digit_val (CHR ''-'') = Some d"
    by (metis digit_val_digit_char)
  then show False by (simp add: digit_val_def)
qed

lemma read_digits_append:
  "read_digits acc (xs @ ys) =
     (case read_digits acc xs of None \<Rightarrow> None | Some n \<Rightarrow> read_digits n ys)"
  by (induction xs arbitrary: acc) (auto split: option.splits)

lemma show_nat_nonempty [simp]: "show_nat n \<noteq> []"
  by (subst show_nat.simps) simp

lemma read_digits_show_nat [simp]: "read_digits 0 (show_nat n) = Some n"
proof (induction n rule: show_nat.induct)
  case (1 n)
  show ?case
  proof (cases "n < 10")
    case True
    then show ?thesis by (subst show_nat.simps) simp
  next
    case False
    with "1.IH" have "read_digits 0 (show_nat (n div 10)) = Some (n div 10)"
      by simp
    with False show ?thesis
      by (subst show_nat.simps) (simp add: read_digits_append)
  qed
qed

lemma hd_show_nat_neq_minus: "show_nat n = c # cs \<Longrightarrow> c \<noteq> CHR ''-''"
proof (induction n arbitrary: cs rule: show_nat.induct)
  case (1 n)
  show ?case
  proof (cases "n < 10")
    case True
    with "1.prems" show ?thesis by (subst (asm) show_nat.simps) auto
  next
    case False
    with "1.prems" have "show_nat (n div 10) @ [digit_char (n mod 10)] = c # cs"
      by (subst (asm) show_nat.simps) simp
    then obtain cs' where "show_nat (n div 10) = c # cs'"
      by (cases "show_nat (n div 10)") auto
    with False "1.IH" show ?thesis by simp
  qed
qed

lemma read_int_raw_show_int: "read_int_raw (show_int i) = Some i"
proof (cases "i < 0")
  case True
  then show ?thesis by (simp add: read_int_raw_def show_int_def)
next
  case False
  then obtain c cs where c: "show_nat (nat i) = c # cs"
    by (cases "show_nat (nat i)") auto
  then have "c \<noteq> CHR ''-''" by (rule hd_show_nat_neq_minus)
  moreover have "read_digits 0 (c # cs) = Some (nat i)"
    using read_digits_show_nat [of "nat i"] c by simp
  ultimately show ?thesis
    using False c by (simp add: read_int_raw_def show_int_def del: read_digits.simps)
qed

lemma read_int_show_int [simp]: "read_int (show_int i) = Some i"
  by (simp add: read_int_def read_int_raw_show_int)

lemma read_int_SomeD: "read_int s = Some i \<Longrightarrow> s = show_int i"
  by (auto simp: read_int_def split: option.splits if_splits)

lemma show_int_inject [simp]: "show_int i = show_int j \<longleftrightarrow> i = j"
  by (metis read_int_show_int option.inject)

lemma show_int_nonempty [simp]: "show_int i \<noteq> []"
  by (simp add: show_int_def)

subsection \<open>Doubles\<close>

text \<open>
  The double nearest to an integer, ties to even: integers up to \<open>2\<^sup>5\<^sup>3\<close> are kept, larger
  ones lose their low bits. Overflow to infinity is out of the range used here.
\<close>

function bitlen :: "int \<Rightarrow> nat" where
  "bitlen n = (if n \<le> 0 then 0 else Suc (bitlen (n div 2)))"
  by pat_completeness auto
termination
  by (relation "measure nat") auto

declare bitlen.simps [simp del]

definition round_half_even :: "int \<Rightarrow> int \<Rightarrow> int" where
  "round_half_even n m =
     (let q = n div m; r = n mod m in
      if 2 * r < m then q else if m < 2 * r then q + 1 else if even q then q else q + 1)"

definition to_double :: "int \<Rightarrow> int" where
  "to_double i =
     (let n = \<bar>i\<bar>; b = bitlen n in
      if b \<le> 53 then i else sgn i * (round_half_even n (2 ^ (b - 53)) * 2 ^ (b - 53)))"

definition max_int64 :: int where
  "max_int64 = 9223372036854775807"

end
