(* ===== verification/Errors.thy ===== *)
theory Errors
  imports TQ_Prelude
begin

text \<open>
  \<open>internal/errors/errors.go\<close> and the error values of the other packages.

  A Go error is a value of the interface \<open>error\<close>; the model is the datatype \<open>gerror\<close> with
  one constructor per dynamic type the program creates. Package-level variables made with
  \<open>errors.New\<close> are compared by identity: they are the constructor \<open>Sentinel\<close>. Any other
  \<open>errors.New\<close> or \<open>fmt.Errorf\<close> makes a fresh value, equal to no sentinel: \<open>Plain\<close>.
  \<open>Foreign\<close> holds the errors of the Redis client library.
\<close>

subsection \<open>Codes and error values\<close>

datatype Code = Unspecified | NotFound | FailedPrecondition | Internal | AlreadyExists | Unknown

fun Code_String :: "Code \<Rightarrow> string" where
  "Code_String Unspecified = ''ERROR_CODE_UNSPECIFIED''"
| "Code_String NotFound = ''NOT_FOUND''"
| "Code_String FailedPrecondition = ''FAILED_PRECONDITION''"
| "Code_String Internal = ''INTERNAL_ERROR''"
| "Code_String AlreadyExists = ''ALREADY_EXISTS''"
| "Code_String Unknown = ''UNKNOWN''"

datatype sentinel =
    ErrNoProcessableTask
  | ErrDuplicateTask
  | ErrTaskIdConflict
  | Client_ErrDuplicateTask
  | Client_ErrTaskIDConflict
  | ErrLeaseExpired
  | SkipRetry
  | ErrServerClosed
  | Context_Canceled
  | Context_DeadlineExceeded

fun sentinel_text :: "sentinel \<Rightarrow> string" where
  "sentinel_text ErrNoProcessableTask = ''no tasks are ready for processing''"
| "sentinel_text ErrDuplicateTask = ''task already exists''"
| "sentinel_text ErrTaskIdConflict = ''task id conflicts with another task''"
| "sentinel_text Client_ErrDuplicateTask = ''task already exists''"
| "sentinel_text Client_ErrTaskIDConflict = ''task ID conflicts with another task''"
| "sentinel_text ErrLeaseExpired = ''titanqueue: task lease expired''"
| "sentinel_text SkipRetry = ''skip retry for the task''"
| "sentinel_text ErrServerClosed = ''titanqueue: Server closed''"
| "sentinel_text Context_Canceled = ''context canceled''"
| "sentinel_text Context_DeadlineExceeded = ''context deadline exceeded''"

datatype gerror =
    Sentinel sentinel
  | Plain string
  | Wrapf string gerror                              \<comment> \<open>\<open>fmt.Errorf\<close> with a \<open>%w\<close>: prefix and cause\<close>
  | EErr (e_code: Code) (e_op: string) (e_err: "gerror option")  \<comment> \<open>\<open>*errors.Error\<close>\<close>
  | TaskNotFoundError string string
  | QueueNotFoundError string
  | QueueNotEmptyError string
  | TaskAlreadyArchivedError string string
  | RedisCommandError string gerror
  | PanicError string
  | Foreign string

fun to_upper :: "char \<Rightarrow> char" where
  "to_upper c = (let n = of_char c :: nat in if 97 \<le> n \<and> n \<le> 122 then char_of (n - 32) else c)"

text \<open>\<open>%q\<close> of a string without characters that need escaping.\<close>

definition quoted :: "string \<Rightarrow> string" where
  "quoted s = [CHR 0x22] @ s @ [CHR 0x22]"

definition join_colon :: "string \<Rightarrow> string \<Rightarrow> string" where
  "join_colon b s = (if b = [] then s else b @ '': '' @ s)"

fun Error :: "gerror \<Rightarrow> string" where
  "Error (Sentinel s) = sentinel_text s"
| "Error (Plain s) = s"
| "Error (Wrapf p e) = p @ Error e"
| "Error (EErr c op oe) =
     (let b = (if c \<noteq> Unspecified then Code_String c else [])
      in case oe of None \<Rightarrow> b | Some e \<Rightarrow> join_colon b (Error e))"
| "Error (TaskNotFoundError q i) = ''cannot find task with id='' @ i @ '' in queue '' @ quoted q"
| "Error (QueueNotFoundError q) = ''queue '' @ quoted q @ '' does not exist''"
| "Error (QueueNotEmptyError q) = ''queue '' @ quoted q @ '' is not empty''"
| "Error (TaskAlreadyArchivedError q i) =
     ''task is already archived: id='' @ i @ '', queue='' @ q"
| "Error (RedisCommandError c e) =
     ''redis command error: '' @ map to_upper c @ '' failed: '' @ Error e"
| "Error (PanicError m) = ''panic error cause by: '' @ m"
| "Error (Foreign s) = s"

definition DebugString :: "Code \<Rightarrow> string \<Rightarrow> gerror option \<Rightarrow> string" where
  "DebugString c op oe =
     (let b1 = op;
          b2 = (if c \<noteq> Unspecified then join_colon b1 (Code_String c) else b1)
      in case oe of None \<Rightarrow> b2 | Some e \<Rightarrow> join_colon b2 (Error e))"

subsection \<open>Construction and inspection\<close>

text \<open>
  \<open>E(args ...)\<close>: the arguments are folded left to right into one \<open>*Error\<close>; the last
  argument of each kind wins. An argument of any other type makes \<open>E\<close> return a plain
  error, and a call without arguments panics (\<open>None\<close>).
\<close>

datatype earg = AOp string | ACode Code | AErr gerror | AStr string | AOther

fun E_step :: "gerror \<Rightarrow> earg \<Rightarrow> gerror" where
  "E_step (EErr c op e) (AOp o') = EErr c o' e"
| "E_step (EErr c op e) (ACode c') = EErr c' op e"
| "E_step (EErr c op e) (AErr x) = EErr c op (Some x)"
| "E_step (EErr c op e) (AStr s) = EErr c op (Some (Plain s))"
| "E_step e _ = e"

fun E_loop :: "gerror \<Rightarrow> earg list \<Rightarrow> gerror" where
  "E_loop e [] = e"
| "E_loop e (AOther # as) = Plain ''unknown type in error call''"
| "E_loop e (a # as) = E_loop (E_step e a) as"

definition E :: "earg list \<Rightarrow> gerror option" where
  "E args = (if args = [] then None else Some (E_loop (EErr Unspecified [] None) args))"

text \<open>The three-argument call \<open>E(op, code, err)\<close> that every method of the broker makes.\<close>

abbreviation EOpCode :: "string \<Rightarrow> Code \<Rightarrow> gerror \<Rightarrow> gerror" where
  "EOpCode op c e \<equiv> EErr c op (Some e)"

lemma E_op_code_err: "E [AOp op, ACode c, AErr e] = Some (EOpCode op c e)"
  by (simp add: E_def)

lemma E_op_code_str: "E [AOp op, ACode c, AStr s] = Some (EOpCode op c (Plain s))"
  by (simp add: E_def)

fun CanonicalCode :: "gerror option \<Rightarrow> Code" where
  "CanonicalCode (Some (EErr c op e)) = (if c = Unspecified then CanonicalCode e else c)"
| "CanonicalCode _ = Unspecified"

fun Unwrap :: "gerror \<Rightarrow> gerror option" where
  "Unwrap (Wrapf p e) = Some e"
| "Unwrap (EErr c op e) = e"
| "Unwrap (RedisCommandError c e) = Some e"
| "Unwrap _ = None"

text \<open>\<open>errors.Is(err, target)\<close> for a sentinel target and \<open>errors.As\<close> for the error types.\<close>

fun Is :: "gerror \<Rightarrow> sentinel \<Rightarrow> bool" where
  "Is (Sentinel s) t \<longleftrightarrow> s = t"
| "Is (Wrapf p e) t \<longleftrightarrow> Is e t"
| "Is (EErr c op (Some e)) t \<longleftrightarrow> Is e t"
| "Is (RedisCommandError c e) t \<longleftrightarrow> Is e t"
| "Is _ t \<longleftrightarrow> False"

fun chain :: "gerror \<Rightarrow> gerror list" where
  "chain (Wrapf p e) = Wrapf p e # chain e"
| "chain (EErr c op (Some e)) = EErr c op (Some e) # chain e"
| "chain (RedisCommandError c e) = RedisCommandError c e # chain e"
| "chain e = [e]"

definition IsTaskNotFound :: "gerror \<Rightarrow> bool" where
  "IsTaskNotFound e \<longleftrightarrow> list_ex (\<lambda>x. case x of TaskNotFoundError _ _ \<Rightarrow> True | _ \<Rightarrow> False) (chain e)"

definition IsQueueNotFound :: "gerror \<Rightarrow> bool" where
  "IsQueueNotFound e \<longleftrightarrow> list_ex (\<lambda>x. case x of QueueNotFoundError _ \<Rightarrow> True | _ \<Rightarrow> False) (chain e)"

definition IsQueueNotEmpty :: "gerror \<Rightarrow> bool" where
  "IsQueueNotEmpty e \<longleftrightarrow> list_ex (\<lambda>x. case x of QueueNotEmptyError _ \<Rightarrow> True | _ \<Rightarrow> False) (chain e)"

definition IsTaskAlreadyArchived :: "gerror \<Rightarrow> bool" where
  "IsTaskAlreadyArchived e \<longleftrightarrow>
     list_ex (\<lambda>x. case x of TaskAlreadyArchivedError _ _ \<Rightarrow> True | _ \<Rightarrow> False) (chain e)"

definition IsRedisCommandError :: "gerror \<Rightarrow> bool" where
  "IsRedisCommandError e \<longleftrightarrow>
     list_ex (\<lambda>x. case x of RedisCommandError _ _ \<Rightarrow> True | _ \<Rightarrow> False) (chain e)"

definition IsPanicError :: "gerror \<Rightarrow> bool" where
  "IsPanicError e \<longleftrightarrow> list_ex (\<lambda>x. case x of PanicError _ \<Rightarrow> True | _ \<Rightarrow> False) (chain e)"

subsection \<open>Facts\<close>

lemma Is_iff_chain: "Is e t \<longleftrightarrow> Sentinel t \<in> set (chain e)"
  by (induction e t rule: Is.induct) auto

lemma chain_Unwrap:
  "chain e = e # (case Unwrap e of None \<Rightarrow> [] | Some e' \<Rightarrow> chain e')"
  by (cases e rule: chain.cases) auto

text \<open>The last code, operation and error among the arguments win.\<close>

fun last_code :: "Code \<Rightarrow> earg list \<Rightarrow> Code" where
  "last_code c [] = c"
| "last_code c (ACode c' # as) = last_code c' as"
| "last_code c (_ # as) = last_code c as"

lemma E_loop_code:
  "AOther \<notin> set as \<Longrightarrow> \<exists>op' oe'. E_loop (EErr c op oe) as = EErr (last_code c as) op' oe'"
proof (induction as arbitrary: c op oe)
  case (Cons a as)
  then show ?case by (cases a) auto
qed simp

end
