(* ===== verification/GoTime.thy ===== *)
theory GoTime
  imports TQ_Prelude
begin

text \<open>
  The text of a \<open>time.Time\<close> in JSON, which \<open>ServerInfo\<close> and \<open>WorkerInfo\<close> of
  \<open>internal/base/base.go\<close> contain: RFC 3339 with nanoseconds, as package \<open>time\<close> of the
  standard library writes and reads it. A time is the number of nanoseconds since the Unix
  epoch; the offset of the local time zone at an instant is an argument. The reader is the
  inverse of the writer on every time whose offset is a whole number of minutes.
\<close>

subsection \<open>The calendar\<close>

definition leap_year :: "int \<Rightarrow> bool" where
  "leap_year y \<longleftrightarrow> y mod 4 = 0 \<and> (y mod 100 \<noteq> 0 \<or> y mod 400 = 0)"

definition month_lengths :: "bool \<Rightarrow> int list" where
  "month_lengths leap = [31, if leap then 29 else 28, 31, 30, 31, 30, 31, 31, 30, 31, 30, 31]"

definition days_before :: "bool \<Rightarrow> nat \<Rightarrow> int" where
  "days_before leap m = sum_list (take (m - 1) (month_lengths leap))"

text \<open>The days from 1 January of the year 1 to the first day of a year.\<close>

definition days_before_year :: "int \<Rightarrow> int" where
  "days_before_year y = 365 * (y - 1) + (y - 1) div 4 - (y - 1) div 100 + (y - 1) div 400"

text \<open>1 January 1970 is day 719162 of that count.\<close>

definition days_of_date :: "int \<Rightarrow> nat \<Rightarrow> int \<Rightarrow> int" where
  "days_of_date y m d = days_before_year y + days_before (leap_year y) m + (d - 1) - 719162"

definition year_of_day :: "int \<Rightarrow> int \<times> int" where
  "year_of_day n =
     (let d400 = n mod 146097;
          n100 = min 3 (d400 div 36524);
          d100 = d400 - 36524 * n100;
          d4 = d100 mod 1461;
          n1 = min 3 (d4 div 365)
      in (400 * (n div 146097) + 100 * n100 + 4 * (d100 div 1461) + n1 + 1, d4 - 365 * n1))"

fun month_of_day :: "int list \<Rightarrow> nat \<Rightarrow> int \<Rightarrow> nat \<times> int" where
  "month_of_day [] m d = (m, d + 1)"
| "month_of_day (l # ls) m d = (if d < l then (m, d + 1) else month_of_day ls (Suc m) (d - l))"

definition date_of_days :: "int \<Rightarrow> int \<times> nat \<times> int" where
  "date_of_days z =
     (case year_of_day (z + 719162) of (y, yd) \<Rightarrow> (y, month_of_day (month_lengths (leap_year y)) 1 yd))"

lemma year_digits:
  fixes c q k e :: int
  assumes "0 \<le> c" "c < 4" "0 \<le> q" "q < 25" "0 \<le> k" "k < 4"
  shows "(400 * e + 100 * c + 4 * q + k) div 4 = 100 * e + 25 * c + q"
    and "(400 * e + 100 * c + 4 * q + k) div 100 = 4 * e + c"
    and "(400 * e + 100 * c + 4 * q + k) div 400 = e"
    and "leap_year (400 * e + 100 * c + 4 * q + k + 1) \<longleftrightarrow> k = 3 \<and> (q \<noteq> 24 \<or> c = 3)"
proof -
  show "(400 * e + 100 * c + 4 * q + k) div 4 = 100 * e + 25 * c + q"
    by (rule int_div_pos_eq [where r = k]) (use assms in simp_all)
  show "(400 * e + 100 * c + 4 * q + k) div 100 = 4 * e + c"
    by (rule int_div_pos_eq [where r = "4 * q + k"]) (use assms in simp_all)
  show "(400 * e + 100 * c + 4 * q + k) div 400 = e"
    by (rule int_div_pos_eq [where r = "100 * c + 4 * q + k"]) (use assms in simp_all)
  let ?y = "400 * e + 100 * c + 4 * q + k + 1"
  have m4: "?y mod 4 = (if k = 3 then 0 else k + 1)"
    by (cases "k = 3"; rule int_mod_pos_eq [where q = "if k = 3 then 100 * e + 25 * c + q + 1 else 100 * e + 25 * c + q"])
       (use assms in auto)
  have m100: "?y mod 100 = (if q = 24 then 0 else 4 * q + 4)" if "k = 3"
    by (rule int_mod_pos_eq [where q = "if q = 24 then 4 * e + c + 1 else 4 * e + c"])
       (use assms that in auto)
  have m400: "?y mod 400 = (if c = 3 then 0 else 100 * c + 100)" if "k = 3" "q = 24"
    by (rule int_mod_pos_eq [where q = "if c = 3 then e + 1 else e"]) (use assms that in auto)
  have "k \<noteq> 3 \<Longrightarrow> ?y mod 4 \<noteq> 0" using m4 assms by simp
  moreover have "k = 3 \<Longrightarrow> ?y mod 100 = 0 \<longleftrightarrow> q = 24" using m100 assms by simp
  moreover have "k = 3 \<Longrightarrow> q = 24 \<Longrightarrow> ?y mod 400 = 0 \<longleftrightarrow> c = 3" using m400 assms by simp
  moreover have "k = 3 \<Longrightarrow> ?y mod 4 = 0" using m4 by simp
  ultimately show "leap_year ?y \<longleftrightarrow> k = 3 \<and> (q \<noteq> 24 \<or> c = 3)"
    unfolding leap_year_def by metis
qed

lemma year_of_day:
  assumes "year_of_day n = (y, yd)"
  shows "days_before_year y + yd = n" and "0 \<le> yd" and "yd < (if leap_year y then 366 else 365)"
proof -
  define d400 where "d400 = n mod 146097"
  define c where "c = min 3 (d400 div 36524)"
  define d100 where "d100 = d400 - 36524 * c"
  define q where "q = d100 div 1461"
  define d4 where "d4 = d100 mod 1461"
  define k where "k = min 3 (d4 div 365)"
  define e where "e = n div 146097"
  have y: "y = 400 * e + 100 * c + 4 * q + k + 1" and yd: "yd = d4 - 365 * k"
    using assms by (simp_all add: year_of_day_def Let_def d400_def c_def d100_def q_def d4_def k_def e_def)
  have d400: "0 \<le> d400" "d400 < 146097" by (simp_all add: d400_def)
  have c: "0 \<le> c" "c < 4" "36524 * c \<le> d400" "c < 3 \<Longrightarrow> d400 < 36524 * (c + 1)"
    using d400 by (auto simp: c_def min_def)
  have d3: "c < 3 \<Longrightarrow> d100 < 36524" using c(4) by (simp add: d100_def algebra_simps)
  have "c < 3 \<or> c = 3" using c(2) by auto
  then have d100: "0 \<le> d100" "d100 < 36525"
    using d3 c(3) d400 by (auto simp: d100_def)
  have q: "0 \<le> q" "q < 25" "d100 = 1461 * q + d4" "0 \<le> d4" "d4 < 1461"
    using d100 by (auto simp: q_def d4_def)
  have d4: "q = 24 \<Longrightarrow> c < 3 \<Longrightarrow> d4 < 1460"
    using d3 q(3) by linarith
  have k: "0 \<le> k" "k < 4" "365 * k \<le> d4" "k < 3 \<Longrightarrow> d4 < 365 * (k + 1)"
    using q by (auto simp: k_def min_def)
  note dig = year_digits [OF c(1,2) q(1,2) k(1,2), of e]
  have "n = 146097 * e + d400" by (simp add: e_def d400_def)
  then show "days_before_year y + yd = n"
    using y yd q(3) by (simp add: days_before_year_def dig(1-3) d100_def)
  show "0 \<le> yd" using yd k by simp
  have "leap_year y \<longleftrightarrow> k = 3 \<and> (q \<noteq> 24 \<or> c = 3)" using dig(4) y by simp
  then show "yd < (if leap_year y then 366 else 365)"
    using k q(5) d4 c(2) yd by (cases "k = 3"; cases "q = 24"; cases "c = 3") auto
qed

lemma month_of_day:
  assumes "month_of_day ls m d = (m', d')" and "0 \<le> d" and "d < sum_list ls"
  shows "m \<le> m' \<and> m' < m + length ls \<and> 1 \<le> d' \<and> d' \<le> ls ! (m' - m)
    \<and> sum_list (take (m' - m) ls) + (d' - 1) = d"
  using assms
proof (induction ls m d rule: month_of_day.induct)
  case (2 l ls m d)
  show ?case
  proof (cases "d < l")
    case True
    with 2 show ?thesis by auto
  next
    case False
    with 2 have IH: "Suc m \<le> m' \<and> m' < Suc m + length ls \<and> 1 \<le> d' \<and> d' \<le> ls ! (m' - Suc m)
        \<and> sum_list (take (m' - Suc m) ls) + (d' - 1) = d - l"
      by auto
    then obtain k where "m' = Suc m + k" by (metis le_iff_add)
    with IH show ?thesis by auto
  qed
qed simp

lemma date_of_days:
  assumes "date_of_days z = (y, m, d)"
  shows "days_of_date y m d = z" and "1 \<le> m" "m \<le> 12" and "1 \<le> d"
    and "d \<le> month_lengths (leap_year y) ! (m - 1)"
proof -
  obtain yd where y: "year_of_day (z + 719162) = (y, yd)"
    and md: "month_of_day (month_lengths (leap_year y)) 1 yd = (m, d)"
    using assms by (auto simp: date_of_days_def split: prod.splits)
  note yf = year_of_day [OF y]
  have "sum_list (month_lengths (leap_year y)) = (if leap_year y then 366 else 365)"
    by (simp add: month_lengths_def)
  with month_of_day [OF md] yf(2,3)
  have ok: "1 \<le> m \<and> m < 1 + length (month_lengths (leap_year y)) \<and> 1 \<le> d
      \<and> d \<le> month_lengths (leap_year y) ! (m - 1) \<and> days_before (leap_year y) m + (d - 1) = yd"
    by (simp add: days_before_def)
  then show "days_of_date y m d = z"
    using yf(1) by (simp add: days_of_date_def)
  show "1 \<le> m" "m \<le> 12" "1 \<le> d" "d \<le> month_lengths (leap_year y) ! (m - 1)"
    using ok by (simp_all add: month_lengths_def)
qed

subsection \<open>Numbers of fixed width\<close>

text \<open>\<open>pad k n\<close> is the number with \<open>k\<close> digits, leading zeros included.\<close>

fun pad :: "nat \<Rightarrow> nat \<Rightarrow> string" where
  "pad 0 n = []"
| "pad (Suc k) n = pad k (n div 10) @ [digit_char (n mod 10)]"

definition take_num :: "nat \<Rightarrow> nat \<Rightarrow> nat \<Rightarrow> string \<Rightarrow> (nat \<times> string) option" where
  "take_num k lo hi s =
     (if length s < k then None
      else (case read_digits 0 (take k s) of
              None \<Rightarrow> None
            | Some n \<Rightarrow> if lo \<le> n \<and> n \<le> hi then Some (n, drop k s) else None))"

definition take_char :: "char \<Rightarrow> string \<Rightarrow> string option" where
  "take_char c s = (case s of [] \<Rightarrow> None | d # r \<Rightarrow> if d = c then Some r else None)"

lemma length_pad [simp]: "length (pad k n) = k"
  by (induction k n rule: pad.induct) simp_all

lemma read_pad: "n < 10 ^ k \<Longrightarrow> read_digits 0 (pad k n) = Some n"
proof (induction k n rule: pad.induct)
  case (2 k n)
  then show ?case by (simp add: read_digits_append)
qed simp

lemma take_num_pad [simp]:
  "n < 10 ^ k \<Longrightarrow> lo \<le> n \<Longrightarrow> n \<le> hi \<Longrightarrow> take_num k lo hi (pad k n @ r) = Some (n, r)"
  by (simp add: take_num_def read_pad)

lemma take_char_Cons [simp]: "take_char c (c # r) = Some r"
  by (simp add: take_char_def)

text \<open>The fraction of a second, without trailing zeros.\<close>

fun frac_digits :: "nat \<Rightarrow> nat \<Rightarrow> string" where
  "frac_digits 0 n = []"
| "frac_digits (Suc k) n =
     (if n = 0 then [] else digit_char (n div 10 ^ k) # frac_digits k (n mod 10 ^ k))"

text \<open>\<open>parseNanoseconds\<close> over the digits at the front; digits after the ninth do not count.\<close>

fun read_frac :: "nat \<Rightarrow> string \<Rightarrow> nat \<times> string" where
  "read_frac k [] = (0, [])"
| "read_frac k (c # cs) =
     (case digit_val c of
        None \<Rightarrow> (0, c # cs)
      | Some d \<Rightarrow>
          (case k of
             0 \<Rightarrow> read_frac 0 cs
           | Suc k' \<Rightarrow> (case read_frac k' cs of (n, r) \<Rightarrow> (d * 10 ^ k' + n, r))))"

lemma read_frac_digits:
  assumes "n < 10 ^ k" and "digit_val c = None"
  shows "read_frac k (frac_digits k n @ c # r) = (n, c # r)"
  using assms
proof (induction k n rule: frac_digits.induct)
  case (2 k n)
  show ?case
  proof (cases "n = 0")
    case True
    then show ?thesis using 2 by simp
  next
    case False
    have "n div 10 ^ k < 10" using 2(2) by (simp add: less_mult_imp_div_less mult.commute)
    then show ?thesis
      using False 2 div_mult_mod_eq [of n "10 ^ k"] by simp
  qed
qed simp

subsection \<open>RFC 3339\<close>

type_synonym zone = "int \<Rightarrow> int"

definition zone_text :: "int \<Rightarrow> string" where
  "zone_text off =
     (if off = 0 then ''Z''
      else (let m = nat (\<bar>off\<bar> div 60)
            in (if off < 0 then CHR ''-'' else CHR ''+'') # pad 2 (m div 60) @ CHR '':'' # pad 2 (m mod 60)))"

definition frac_text :: "nat \<Rightarrow> string" where
  "frac_text ns = (if ns = 0 then [] else CHR ''.'' # frac_digits 9 ns)"

text \<open>\<open>Time.MarshalJSON\<close>, without the quotes; \<open>Inl\<close> is the text of the error.\<close>

definition format_time :: "zone \<Rightarrow> int \<Rightarrow> string + string" where
  "format_time zone t =
     (let sec = t div 1000000000;
          off = zone sec;
          l = sec + off;
          sod = nat (l mod 86400)
      in case date_of_days (l div 86400) of (y, m, d) \<Rightarrow>
           if y < 0 \<or> 9999 < y then Inl ''year outside of range [0,9999]''
           else if 86400 \<le> \<bar>off\<bar> then Inl ''timezone hour outside of range [0,23]''
           else Inr (pad 4 (nat y) @ CHR ''-'' # pad 2 m @ CHR ''-'' # pad 2 (nat d) @ CHR ''T''
                     # pad 2 (sod div 3600) @ CHR '':'' # pad 2 (sod div 60 mod 60) @ CHR '':''
                     # pad 2 (sod mod 60) @ frac_text (nat (t mod 1000000000)) @ zone_text off))"

definition parse_frac :: "string \<Rightarrow> nat \<times> string" where
  "parse_frac s =
     (case s of
        c # d # r \<Rightarrow> if c = CHR ''.'' \<and> digit_val d \<noteq> None then read_frac 9 (d # r) else (0, s)
      | _ \<Rightarrow> (0, s))"

definition parse_zone :: "string \<Rightarrow> int option" where
  "parse_zone s =
     (if s = ''Z'' then Some 0
      else if length s \<noteq> 6 then None
      else (case take_num 2 0 23 (tl s) of
              None \<Rightarrow> None
            | Some (hr, s1) \<Rightarrow>
                (case take_char (CHR '':'') s1 of
                   None \<Rightarrow> None
                 | Some s2 \<Rightarrow>
                     (case take_num 2 0 59 s2 of
                        None \<Rightarrow> None
                      | Some (mi, _) \<Rightarrow>
                          if hd s = CHR ''+'' then Some (int ((hr * 60 + mi) * 60))
                          else if hd s = CHR ''-'' then Some (- int ((hr * 60 + mi) * 60))
                          else None))))"

text \<open>A number of fixed width and the separator after it.\<close>

definition take_part :: "nat \<Rightarrow> nat \<Rightarrow> nat \<Rightarrow> char \<Rightarrow> string \<Rightarrow> (nat \<times> string) option" where
  "take_part k lo hi c s =
     (case take_num k lo hi s of
        None \<Rightarrow> None
      | Some (n, s1) \<Rightarrow> map_option (\<lambda>s2. (n, s2)) (take_char c s1))"

definition parse_date :: "string \<Rightarrow> (int \<times> string) option" where
  "parse_date s =
     (case take_part 4 0 9999 (CHR ''-'') s of
        None \<Rightarrow> None
      | Some (y, s1) \<Rightarrow>
          (case take_part 2 1 12 (CHR ''-'') s1 of
             None \<Rightarrow> None
           | Some (m, s2) \<Rightarrow>
               (case take_part 2 1 (nat (month_lengths (leap_year (int y)) ! (m - 1))) (CHR ''T'') s2 of
                  None \<Rightarrow> None
                | Some (d, s3) \<Rightarrow> Some (days_of_date (int y) m (int d), s3))))"

definition parse_clock :: "string \<Rightarrow> (nat \<times> string) option" where
  "parse_clock s =
     (case take_part 2 0 23 (CHR '':'') s of
        None \<Rightarrow> None
      | Some (h, s1) \<Rightarrow>
          (case take_part 2 0 59 (CHR '':'') s1 of
             None \<Rightarrow> None
           | Some (mi, s2) \<Rightarrow>
               map_option (\<lambda>(sec, s3). (h * 3600 + mi * 60 + sec, s3)) (take_num 2 0 59 s2)))"

text \<open>\<open>parseStrictRFC3339\<close>\<close>

definition parse_time :: "string \<Rightarrow> int option" where
  "parse_time s =
     (case parse_date s of
        None \<Rightarrow> None
      | Some (day, s1) \<Rightarrow>
          (case parse_clock s1 of
             None \<Rightarrow> None
           | Some (sod, s2) \<Rightarrow>
               (case parse_frac s2 of (ns, s3) \<Rightarrow>
                  map_option (\<lambda>off. (day * 86400 + int sod - off) * 1000000000 + int ns) (parse_zone s3))))"

subsection \<open>Reading back\<close>

lemma take_part_pad [simp]:
  "n < 10 ^ k \<Longrightarrow> lo \<le> n \<Longrightarrow> n \<le> hi \<Longrightarrow> take_part k lo hi c (pad k n @ c # r) = Some (n, r)"
  by (simp add: take_part_def)

lemma parse_zone_text:
  assumes "off mod 60 = 0" and "\<bar>off\<bar> < 86400"
  shows "parse_zone (zone_text off) = Some off"
proof (cases "off = 0")
  case True
  then show ?thesis by (simp add: parse_zone_def zone_text_def)
next
  case False
  define m where "m = nat (\<bar>off\<bar> div 60)"
  have abs: "\<bar>off\<bar> mod 60 = 0" using assms(1) by (cases "off < 0") (auto simp: mod_eq_0_iff_dvd)
  then have m: "int m * 60 = \<bar>off\<bar>" using pos_imp_zdiv_nonneg_iff [of 60 "\<bar>off\<bar>"]
    by (simp add: m_def mod_eq_0_iff_dvd)
  then have "m < 1440" using assms(2) by linarith
  then have b: "m div 60 < 24" "m mod 60 < 60" by (simp_all add: less_mult_imp_div_less)
  have t: "take_num 2 0 59 (pad 2 (m mod 60)) = Some (m mod 60, [])"
    using take_num_pad [of "m mod 60" 2 0 59 "[]"] b by simp
  have z: "zone_text off = (if off < 0 then CHR ''-'' else CHR ''+'') # pad 2 (m div 60) @ CHR '':'' # pad 2 (m mod 60)"
    using False by (simp add: zone_text_def m_def Let_def)
  have "(m div 60 * 60 + m mod 60) * 60 = nat \<bar>off\<bar>" using m by simp
  then show ?thesis
    using b t False by (auto simp: parse_zone_def z)
qed

lemma zone_text_front: "\<exists>c r. zone_text off = c # r \<and> digit_val c = None \<and> c \<noteq> CHR ''.''"
  by (cases "off = 0"; cases "off < 0") (simp_all add: zone_text_def digit_val_def Let_def)

lemma frac_digits_front: "0 < n \<Longrightarrow> n < 10 ^ k \<Longrightarrow> \<exists>d r. frac_digits k n = d # r \<and> digit_val d \<noteq> None"
  by (cases k) (auto simp: less_mult_imp_div_less mult.commute)

lemma parse_frac_text:
  assumes "ns < 1000000000"
  shows "parse_frac (frac_text ns @ zone_text off) = (ns, zone_text off)"
proof -
  obtain c r where z: "zone_text off = c # r" "digit_val c = None" "c \<noteq> CHR ''.''"
    using zone_text_front by blast
  show ?thesis
  proof (cases "ns = 0")
    case True
    then show ?thesis using z by (cases r) (simp_all add: parse_frac_def frac_text_def)
  next
    case False
    have lt: "ns < 10 ^ 9" using assms by simp
    with False obtain d t where d: "frac_digits 9 ns = d # t" "digit_val d \<noteq> None"
      using frac_digits_front [of ns 9] by auto
    have "read_frac 9 (frac_digits 9 ns @ c # r) = (ns, c # r)"
      by (rule read_frac_digits [OF lt z(2)])
    then show ?thesis using False d z by (simp add: parse_frac_def frac_text_def)
  qed
qed

lemma take_clock:
  assumes "sod < 86400"
  shows "parse_clock (pad 2 (sod div 3600) @ CHR '':'' # pad 2 (sod div 60 mod 60) @ CHR '':''
    # pad 2 (sod mod 60) @ r) = Some (sod, r)"
proof -
  have h: "sod div 3600 < 24" "sod div 60 mod 60 < 60" "sod mod 60 < 60"
    using assms by (simp_all add: less_mult_imp_div_less)
  have "sod div 3600 = sod div 60 div 60" by (simp add: div_mult2_eq [symmetric])
  then have "sod div 3600 * 3600 + sod div 60 mod 60 * 60 + sod mod 60 = sod"
    using div_mult_mod_eq [of sod 60] div_mult_mod_eq [of "sod div 60" 60] by linarith
  then show ?thesis using h by (simp add: parse_clock_def)
qed

lemma take_date:
  assumes "date_of_days z = (y, m, d)" and "0 \<le> y" and "y \<le> 9999"
  shows "parse_date (pad 4 (nat y) @ CHR ''-'' # pad 2 m @ CHR ''-'' # pad 2 (nat d) @ CHR ''T'' # r) = Some (z, r)"
proof -
  note f = date_of_days [OF assms(1)]
  have "month_lengths (leap_year y) ! (m - 1) \<in> set (month_lengths (leap_year y))"
    using f(2,3) by (intro nth_mem) (auto simp: month_lengths_def)
  then have "d \<le> 31" using f(5) by (auto simp: month_lengths_def split: if_splits)
  then show ?thesis
    using f assms(2,3) by (simp add: parse_date_def)
qed

lemma parse_format_time:
  assumes "format_time zone t = Inr s" and "zone (t div 1000000000) mod 60 = 0"
  shows "parse_time s = Some t"
proof -
  define sec where "sec = t div 1000000000"
  define l where "l = sec + zone sec"
  define ns where "ns = nat (t mod 1000000000)"
  define sod where "sod = nat (l mod 86400)"
  obtain y m d where dt: "date_of_days (l div 86400) = (y, m, d)" by (metis prod_cases3)
  have y: "0 \<le> y" "y \<le> 9999" "\<bar>zone sec\<bar> < 86400"
    and s: "s = pad 4 (nat y) @ CHR ''-'' # pad 2 m @ CHR ''-'' # pad 2 (nat d) @ CHR ''T''
      # pad 2 (sod div 3600) @ CHR '':'' # pad 2 (sod div 60 mod 60) @ CHR '':''
      # pad 2 (sod mod 60) @ frac_text ns @ zone_text (zone sec)"
    using assms(1) dt by (auto simp: format_time_def Let_def sec_def l_def ns_def sod_def split: if_splits)
  have b: "ns < 1000000000" "sod < 86400" and i: "int ns = t mod 1000000000" "int sod = l mod 86400"
    by (simp_all add: ns_def sod_def nat_less_iff)
  have "parse_time s = Some ((l div 86400 * 86400 + int sod - zone sec) * 1000000000 + int ns)"
    using take_date [OF dt y(1,2)] take_clock [OF b(2)] parse_frac_text [OF b(1)]
      parse_zone_text [of "zone sec"] assms(2) y(3)
    by (simp add: parse_time_def s sec_def [symmetric])
  also have "(l div 86400 * 86400 + int sod - zone sec) * 1000000000 + int ns = t"
    using i by (simp add: l_def sec_def)
  finally show ?thesis .
qed

text \<open>The text is ASCII.\<close>

abbreviation ascii :: "string \<Rightarrow> bool" where
  "ascii s \<equiv> list_all (\<lambda>c. of_char c < (128::nat)) s"

lemma ascii_digit: "n < 10 \<Longrightarrow> of_char (digit_char n) < (128::nat)"
  by (simp add: digit_char_def)

lemma ascii_pad: "ascii (pad k n)"
  by (induction k n rule: pad.induct) (simp_all add: ascii_digit)

lemma ascii_frac_digits: "n < 10 ^ k \<Longrightarrow> ascii (frac_digits k n)"
  by (induction k n rule: frac_digits.induct)
     (simp_all add: ascii_digit less_mult_imp_div_less mult.commute)

lemma format_time_ascii:
  assumes "format_time zone t = Inr s"
  shows "ascii s"
proof -
  have f: "ascii (frac_text (nat (t mod 1000000000)))"
    using ascii_frac_digits [of "nat (t mod 1000000000)" 9] by (simp add: frac_text_def nat_less_iff)
  have z: "ascii (zone_text n)" for n
    by (simp add: zone_text_def Let_def ascii_pad)
  show ?thesis
    using assms f z by (auto simp: format_time_def Let_def ascii_pad split: if_splits prod.splits)
qed

end
