(* ===== verification/Base.thy ===== *)
theory Base
  imports Errors GoTime
begin

text \<open>
  \<open>internal/base/base.go\<close>, \<open>internal/timeutil/timeutil.go\<close> and
  \<open>internal/context/context.go\<close>: Redis keys, task states, the task message, the table of
  cancel functions, leases, clocks and the task metadata of a context.

  A \<open>time.Time\<close> is an integer: nanoseconds since the Unix epoch; a \<open>time.Duration\<close> is
  an integer number of nanoseconds. A nil byte slice is \<open>None\<close>.
\<close>

subsection \<open>Time\<close>

definition second_ns :: int where
  "second_ns = 1000000000"

definition unix :: "int \<Rightarrow> int" where
  "unix t = t div second_ns"

definition zero_time :: int where
  "zero_time = - 62135596800 * 1000000000"

text \<open>\<open>t.UTC().Format("2006-01-02")\<close>\<close>

fun pad_left :: "nat \<Rightarrow> string \<Rightarrow> string" where
  "pad_left n s = replicate (n - length s) (CHR ''0'') @ s"

definition format_date :: "int \<Rightarrow> string" where
  "format_date t =
     (case date_of_days (unix t div 86400) of
        (y, m, d) \<Rightarrow> pad_left 4 (show_int y) @ ''-'' @ pad_left 2 (show_nat m) @ ''-''
          @ pad_left 2 (show_int d))"

text \<open>The arithmetic of Go's 64-bit \<open>int\<close> and \<open>int64\<close>.\<close>

definition wrap64 :: "int \<Rightarrow> int" where
  "wrap64 i = (i + 2 ^ 63) mod 2 ^ 64 - 2 ^ 63"

lemma wrap64_id: "- (2 ^ 63) \<le> i \<Longrightarrow> i < 2 ^ 63 \<Longrightarrow> wrap64 i = i"
  by (simp add: wrap64_def)

subsection \<open>Constants and task states\<close>

definition DefaultQueueName :: string where
  "DefaultQueueName = ''default''"

definition AllServers :: string where
  "AllServers = ''asynq:servers''"

definition AllWorkers :: string where
  "AllWorkers = ''asynq:workers''"

definition AllQueues :: string where
  "AllQueues = ''asynq:queues''"

definition CancelChannel :: string where
  "CancelChannel = ''asynq:cancel''"

datatype TaskState =
    TaskStateActive
  | TaskStatePending
  | TaskStateScheduled
  | TaskStateRetry
  | TaskStateArchived
  | TaskStateCompleted

fun TaskState_String :: "TaskState \<Rightarrow> string" where
  "TaskState_String TaskStateActive = ''active''"
| "TaskState_String TaskStatePending = ''pending''"
| "TaskState_String TaskStateScheduled = ''scheduled''"
| "TaskState_String TaskStateRetry = ''retry''"
| "TaskState_String TaskStateArchived = ''archived''"
| "TaskState_String TaskStateCompleted = ''completed''"

definition TaskStateFromString :: "string \<Rightarrow> gerror + TaskState" where
  "TaskStateFromString s =
     (if s = ''active'' then Inr TaskStateActive
      else if s = ''pending'' then Inr TaskStatePending
      else if s = ''scheduled'' then Inr TaskStateScheduled
      else if s = ''retry'' then Inr TaskStateRetry
      else if s = ''archived'' then Inr TaskStateArchived
      else if s = ''completed'' then Inr TaskStateCompleted
      else Inl (EErr FailedPrecondition [] (Some (Plain (quoted s @ '' is not supported task state'')))))"

text \<open>The white space \<open>strings.TrimSpace\<close> drops, in UTF-8: the runes of \<open>unicode.IsSpace\<close>.\<close>

definition space_runes :: "string list" where
  "space_runes =
     [[CHR 0x09], [CHR 0x0A], [CHR 0x0B], [CHR 0x0C], [CHR 0x0D], [CHR 0x20],
      [CHR 0xC2, CHR 0x85], [CHR 0xC2, CHR 0xA0], [CHR 0xE1, CHR 0x9A, CHR 0x80]]
     @ map (\<lambda>c. [CHR 0xE2, CHR 0x80, char_of c])
         [0x80, 0x81, 0x82, 0x83, 0x84, 0x85, 0x86, 0x87, 0x88, 0x89, 0x8A, 0xA8, 0xA9, 0xAF :: nat]
     @ [[CHR 0xE2, CHR 0x81, CHR 0x9F], [CHR 0xE3, CHR 0x80, CHR 0x80]]"

definition rune_len :: "string list \<Rightarrow> string \<Rightarrow> nat" where
  "rune_len rs s = (case find (\<lambda>r. take (length r) s = r) rs of None \<Rightarrow> 0 | Some r \<Rightarrow> length r)"

function trim_left :: "string list \<Rightarrow> string \<Rightarrow> string" where
  "trim_left rs s = (if s = [] \<or> rune_len rs s = 0 then s else trim_left rs (drop (rune_len rs s) s))"
  by pat_completeness auto
termination by (relation "measure (length \<circ> snd)") auto

declare trim_left.simps [simp del]

definition TrimSpace :: "string \<Rightarrow> string" where
  "TrimSpace s = rev (trim_left (map rev space_runes) (rev (trim_left space_runes s)))"

lemma TrimSpace_plain:
  assumes "s \<noteq> []" and "rune_len space_runes s = 0" and "rune_len (map rev space_runes) (rev s) = 0"
  shows "TrimSpace s = s"
  using assms trim_left.simps [of space_runes s] trim_left.simps [of "map rev space_runes" "rev s"]
  by (simp add: TrimSpace_def)

definition ValidateQueueName :: "string \<Rightarrow> gerror option" where
  "ValidateQueueName qname =
     (if length (TrimSpace qname) = 0
      then Some (Plain ''queue name must contain one or more characters'') else None)"

subsection \<open>Keys\<close>

definition QueueKeyPrefix :: "string \<Rightarrow> string" where
  "QueueKeyPrefix qname = ''asynq:{'' @ qname @ ''}:''"

definition TaskKeyPrefix :: "string \<Rightarrow> string" where
  "TaskKeyPrefix qname = QueueKeyPrefix qname @ ''t:''"

definition TaskKey :: "string \<Rightarrow> string \<Rightarrow> string" where
  "TaskKey qname tid = TaskKeyPrefix qname @ tid"

definition PendingKey :: "string \<Rightarrow> string" where
  "PendingKey qname = QueueKeyPrefix qname @ ''pending''"

definition ActiveKey :: "string \<Rightarrow> string" where
  "ActiveKey qname = QueueKeyPrefix qname @ ''active''"

definition ScheduledKey :: "string \<Rightarrow> string" where
  "ScheduledKey qname = QueueKeyPrefix qname @ ''scheduled''"

definition RetryKey :: "string \<Rightarrow> string" where
  "RetryKey qname = QueueKeyPrefix qname @ ''retry''"

definition ArchivedKey :: "string \<Rightarrow> string" where
  "ArchivedKey qname = QueueKeyPrefix qname @ ''archived''"

definition LeaseKey :: "string \<Rightarrow> string" where
  "LeaseKey qname = QueueKeyPrefix qname @ ''lease''"

definition CompletedKey :: "string \<Rightarrow> string" where
  "CompletedKey qname = QueueKeyPrefix qname @ ''completed''"

definition PausedKey :: "string \<Rightarrow> string" where
  "PausedKey qname = QueueKeyPrefix qname @ ''paused''"

definition ProcessedTotalKey :: "string \<Rightarrow> string" where
  "ProcessedTotalKey qname = QueueKeyPrefix qname @ ''processed''"

definition FailedTotalKey :: "string \<Rightarrow> string" where
  "FailedTotalKey qname = QueueKeyPrefix qname @ ''failed''"

definition ProcessedKey :: "string \<Rightarrow> int \<Rightarrow> string" where
  "ProcessedKey qname t = QueueKeyPrefix qname @ ''processed:'' @ format_date t"

definition FailedKey :: "string \<Rightarrow> int \<Rightarrow> string" where
  "FailedKey qname t = QueueKeyPrefix qname @ ''failed:'' @ format_date t"

definition ServerInfoKey :: "string \<Rightarrow> int \<Rightarrow> string \<Rightarrow> string" where
  "ServerInfoKey hostname pid serverID =
     ''asynq:servers:{'' @ hostname @ '':'' @ show_int pid @ '':'' @ serverID @ ''}''"

definition WorkersKey :: "string \<Rightarrow> int \<Rightarrow> string \<Rightarrow> string" where
  "WorkersKey hostname pid serverID =
     ''asynq:workers:{'' @ hostname @ '':'' @ show_int pid @ '':'' @ serverID @ ''}''"

text \<open>\<open>md5hex\<close> stands for the hexadecimal MD5 checksum of \<open>crypto/md5\<close>.\<close>

definition UniqueKey :: "(string \<Rightarrow> string) \<Rightarrow> string \<Rightarrow> string \<Rightarrow> string option \<Rightarrow> string" where
  "UniqueKey md5hex qname tasktype payload =
     (case payload of
        None \<Rightarrow> QueueKeyPrefix qname @ ''unique:'' @ tasktype @ '':''
      | Some p \<Rightarrow> QueueKeyPrefix qname @ ''unique:'' @ tasktype @ '':'' @ md5hex p)"

subsection \<open>The task message\<close>

record TaskMessage =
  Type :: string
  Payload :: "string option"
  ID :: string
  Queue :: string
  Retry :: int
  Retried :: int
  ErrorMsg :: string
  LastFailedAt :: int
  Timeout :: int
  Deadline :: int
  msg_UniqueKey :: string
  Retention :: int
  CompletedAt :: int

record ServerInfo =
  si_Host :: string
  si_PID :: int
  si_ServerID :: string
  si_Concurrency :: int
  si_Queues :: "(string \<times> int) list"
  si_StrictPriority :: bool
  si_Status :: string
  si_Started :: int
  si_ActiveWorkerCount :: int

record WorkerInfo =
  wi_Host :: string
  wi_PID :: int
  wi_ServerID :: string
  wi_ID :: string
  wi_Type :: string
  wi_Payload :: "string option"
  wi_Queue :: string
  wi_Started :: int
  wi_Deadline :: int

subsection \<open>Cancelations\<close>

type_synonym 'f Cancelations = "string \<rightharpoonup> 'f"

definition NewCancelations :: "'f Cancelations" where
  "NewCancelations = Map.empty"

definition Cancelations_Add :: "string \<Rightarrow> 'f \<Rightarrow> 'f Cancelations \<Rightarrow> 'f Cancelations" where
  "Cancelations_Add tid fn c = c(tid \<mapsto> fn)"

definition Cancelations_Delete :: "string \<Rightarrow> 'f Cancelations \<Rightarrow> 'f Cancelations" where
  "Cancelations_Delete tid c = c(tid := None)"

definition Cancelations_Get :: "string \<Rightarrow> 'f Cancelations \<Rightarrow> 'f option" where
  "Cancelations_Get tid c = c tid"

subsection \<open>Leases\<close>

text \<open>
  The lease's channel is closed at most once (\<open>sync.Once\<close>): \<open>notified\<close> says that it is.
  The clock is an argument: the value \<open>Clock.Now()\<close> returns during the call.
\<close>

record Lease =
  expireAt :: int
  notified :: bool

definition NewLease :: "int \<Rightarrow> Lease" where
  "NewLease expirationTime = \<lparr>expireAt = expirationTime, notified = False\<rparr>"

definition IsValid :: "int \<Rightarrow> Lease \<Rightarrow> bool" where
  "IsValid now l \<longleftrightarrow> expireAt l > now \<or> expireAt l = now"

definition Lease_Reset :: "int \<Rightarrow> int \<Rightarrow> Lease \<Rightarrow> bool \<times> Lease" where
  "Lease_Reset now expirationTime l =
     (if \<not> IsValid now l then (False, l) else (True, l\<lparr>expireAt := expirationTime\<rparr>))"

definition NotifyExpiration :: "int \<Rightarrow> Lease \<Rightarrow> bool \<times> Lease" where
  "NotifyExpiration now l =
     (if IsValid now l then (False, l) else (True, l\<lparr>notified := True\<rparr>))"

definition Lease_Done :: "Lease \<Rightarrow> bool" where
  "Lease_Done l = notified l"

definition Lease_Deadline :: "Lease \<Rightarrow> int" where
  "Lease_Deadline l = expireAt l"

subsection \<open>The simulated clock\<close>

definition NewSimulatedClock :: "int \<Rightarrow> int" where
  "NewSimulatedClock t = t"

definition SimulatedClock_Now :: "int \<Rightarrow> int" where
  "SimulatedClock_Now c = c"

definition SimulatedClock_SetTime :: "int \<Rightarrow> int \<Rightarrow> int" where
  "SimulatedClock_SetTime t c = t"

definition SimulatedClock_AdvanceTime :: "int \<Rightarrow> int \<Rightarrow> int" where
  "SimulatedClock_AdvanceTime d c = c + d"

subsection \<open>Task metadata in a context\<close>

record taskMetadata =
  md_id :: string
  md_maxRetry :: int
  md_retryCount :: int
  md_qname :: string

record task_context =
  ctx_metadata :: "taskMetadata option"
  ctx_deadline :: "int option"

text \<open>
  \<open>context.WithDeadline\<close> keeps the parent's deadline when that is earlier.
\<close>

definition WithDeadline :: "int \<Rightarrow> task_context \<Rightarrow> task_context" where
  "WithDeadline d ctx =
     ctx\<lparr>ctx_deadline := Some (case ctx_deadline ctx of None \<Rightarrow> d | Some p \<Rightarrow> if p < d then p else d)\<rparr>"

definition context_New :: "task_context \<Rightarrow> TaskMessage \<Rightarrow> int \<Rightarrow> task_context" where
  "context_New base msg deadline =
     (let metadata = \<lparr>md_id = ID msg, md_maxRetry = Retry msg, md_retryCount = Retried msg,
                      md_qname = Queue msg\<rparr>
      in WithDeadline deadline (base\<lparr>ctx_metadata := Some metadata\<rparr>))"

definition GetTaskID :: "task_context \<Rightarrow> string option" where
  "GetTaskID ctx = map_option md_id (ctx_metadata ctx)"

definition GetRetryCount :: "task_context \<Rightarrow> int option" where
  "GetRetryCount ctx = map_option md_retryCount (ctx_metadata ctx)"

definition GetMaxRetry :: "task_context \<Rightarrow> int option" where
  "GetMaxRetry ctx = map_option md_maxRetry (ctx_metadata ctx)"

definition GetQueueName :: "task_context \<Rightarrow> string option" where
  "GetQueueName ctx = map_option md_qname (ctx_metadata ctx)"

end
