(* ===== verification/Keys.thy ===== *)
theory Keys
  imports Base
begin

text \<open>
  The Redis keys of \<open>internal/base/base.go\<close>, seen as a queue name and a kind: two keys of
  one queue are equal only when their kinds are, and keys of two queues never meet when the
  names hold no closing brace. A brace in a name breaks this: see \<open>brace_collision\<close>.
\<close>

datatype qkey =
    KPending
  | KActive
  | KScheduled
  | KRetry
  | KArchived
  | KCompleted
  | KLease
  | KPaused
  | KProcessed
  | KFailed
  | KTask string
  | KProcessedOn string
  | KFailedOn string
  | KUnique string

fun suffix_of :: "qkey \<Rightarrow> string" where
  "suffix_of KPending = ''pending''"
| "suffix_of KActive = ''active''"
| "suffix_of KScheduled = ''scheduled''"
| "suffix_of KRetry = ''retry''"
| "suffix_of KArchived = ''archived''"
| "suffix_of KCompleted = ''completed''"
| "suffix_of KLease = ''lease''"
| "suffix_of KPaused = ''paused''"
| "suffix_of KProcessed = ''processed''"
| "suffix_of KFailed = ''failed''"
| "suffix_of (KTask i) = ''t:'' @ i"
| "suffix_of (KProcessedOn d) = ''processed:'' @ d"
| "suffix_of (KFailedOn d) = ''failed:'' @ d"
| "suffix_of (KUnique u) = ''unique:'' @ u"

definition kname :: "string \<Rightarrow> qkey \<Rightarrow> string" where
  "kname q k = QueueKeyPrefix q @ suffix_of k"

lemma suffix_of_inject [simp]: "suffix_of a = suffix_of b \<longleftrightarrow> a = b"
  by (cases a; cases b) simp_all

lemma kname_inject [simp]: "kname q a = kname q b \<longleftrightarrow> a = b"
  by (simp add: kname_def)

lemma QueueKeyPrefix_append_inject:
  assumes "CHR ''}'' \<notin> set q" and "CHR ''}'' \<notin> set q'"
  shows "QueueKeyPrefix q @ x = QueueKeyPrefix q' @ y \<longleftrightarrow> q = q' \<and> x = y"
  using append_sep_inject [OF assms, of "CHR '':'' # x" "CHR '':'' # y"]
  by (simp add: QueueKeyPrefix_def)

lemma kname_inject2:
  assumes "CHR ''}'' \<notin> set q" and "CHR ''}'' \<notin> set q'"
  shows "kname q a = kname q' b \<longleftrightarrow> q = q' \<and> a = b"
  by (simp add: kname_def QueueKeyPrefix_append_inject [OF assms])

lemma key_kname [key_simps]:
  "PendingKey q = kname q KPending" "ActiveKey q = kname q KActive"
  "ScheduledKey q = kname q KScheduled" "RetryKey q = kname q KRetry"
  "ArchivedKey q = kname q KArchived" "LeaseKey q = kname q KLease"
  "CompletedKey q = kname q KCompleted" "PausedKey q = kname q KPaused"
  "ProcessedTotalKey q = kname q KProcessed" "FailedTotalKey q = kname q KFailed"
  "TaskKey q i = kname q (KTask i)" "ProcessedKey q t = kname q (KProcessedOn (format_date t))"
  "FailedKey q t = kname q (KFailedOn (format_date t))"
  by (simp_all add: kname_def PendingKey_def ActiveKey_def ScheduledKey_def RetryKey_def
      ArchivedKey_def LeaseKey_def CompletedKey_def PausedKey_def ProcessedTotalKey_def
      FailedTotalKey_def TaskKey_def TaskKeyPrefix_def ProcessedKey_def FailedKey_def)

lemma TaskKeyPrefix_kname [key_simps]: "TaskKeyPrefix q @ i = kname q (KTask i)"
  by (simp add: kname_def TaskKeyPrefix_def)

lemma UniqueKey_kname [key_simps]:
  "UniqueKey md5hex q ty p =
     kname q (KUnique (ty @ '':'' @ (case p of None \<Rightarrow> [] | Some b \<Rightarrow> md5hex b)))"
  by (simp add: UniqueKey_def kname_def split: option.split)

text \<open>The keys that belong to no queue.\<close>

definition shared_keys :: "string set" where
  "shared_keys = {AllQueues, AllServers, AllWorkers}
     \<union> {ServerInfoKey h pid sid | h pid sid. True} \<union> {WorkersKey h pid sid | h pid sid. True}"

lemma kname_not_shared: "kname q k \<notin> shared_keys"
  by (auto simp: shared_keys_def kname_def QueueKeyPrefix_def AllQueues_def AllServers_def AllWorkers_def
      ServerInfoKey_def WorkersKey_def)

lemma shared_keysI [simp]:
  "ServerInfoKey h pid sid \<in> shared_keys" "WorkersKey h pid sid \<in> shared_keys"
  "AllQueues \<in> shared_keys" "AllServers \<in> shared_keys" "AllWorkers \<in> shared_keys"
  by (auto simp: shared_keys_def) blast+

text \<open>
  The lock keys of two tasks differ when the type or the checksum differs, provided the
  checksums have one length (MD5 gives 32 characters) or both payloads are nil.
\<close>

lemma UniqueKey_inject:
  assumes len: "\<And>b c. length (md5hex b) = length (md5hex c)"
  shows "UniqueKey md5hex q ty (Some p) = UniqueKey md5hex q ty' (Some p') \<longleftrightarrow>
    ty = ty' \<and> md5hex p = md5hex p'"
  using len [of p p'] by (simp add: key_simps)

text \<open>\<open>ValidateQueueName\<close> lets a closing brace through.\<close>

lemma brace_collision:
  "TaskKey ''a'' ''b}:t:c'' = TaskKey ''a}:t:b'' ''c''" "ValidateQueueName ''a}:t:b'' = None"
  by (simp add: TaskKey_def TaskKeyPrefix_def QueueKeyPrefix_def) code_simp

end
