(* ===== verification/Redis.thy ===== *)
theory Redis
  imports TQ_Prelude
begin

text \<open>
  The Redis commands the program sends, as the Redis documentation describes them, and
  the programs (Lua scripts and single commands) built from them. The server is not part
  of the repository: nothing below models source code, and no entry of the source map
  points here. The theory states what the Go code and its scripts rely on:

  \<^item> \<open>keyspace\<close>: keys with values of the five types used, an optional expiry, and the
    server's clock in milliseconds;
  \<^item> \<open>exec_cmd\<close>: reply and effect of each command;
  \<^item> \<open>prog\<close>: a program that issues commands and looks at the replies; \<open>run\<close> executes
    it without interruption, which is what the server does with an \<open>EVAL\<close>;
  \<^item> \<open>cmd_writes\<close>, \<open>prog_writes\<close>: the keys a command or a program may change, with the
    frame lemma \<open>run_frame\<close>.
\<close>

subsection \<open>Sorted sets\<close>

text \<open>
  A sorted set lists its (score, member) pairs in ascending order, ties in the byte order
  of the members. The scores the program uses are Unix times in seconds, which doubles
  represent exactly.
\<close>

type_synonym zset = "(int \<times> string) list"

definition zmembers :: "zset \<Rightarrow> string list" where
  "zmembers z = map snd z"

definition zset_ok :: "zset \<Rightarrow> bool" where
  "zset_ok z \<longleftrightarrow> sorted z \<and> distinct (zmembers z)"

definition zrem :: "string \<Rightarrow> zset \<Rightarrow> zset" where
  "zrem m z = filter (\<lambda>p. snd p \<noteq> m) z"

definition zadd :: "int \<Rightarrow> string \<Rightarrow> zset \<Rightarrow> zset" where
  "zadd s m z = insort (s, m) (zrem m z)"

definition zscore :: "zset \<Rightarrow> string \<Rightarrow> int option" where
  "zscore z m = map_option fst (List.find (\<lambda>p. snd p = m) z)"

definition zrange_le :: "int \<Rightarrow> zset \<Rightarrow> string list" where
  "zrange_le mx z = map snd (filter (\<lambda>p. fst p \<le> mx) z)"

text \<open>\<open>ZRANGE key start stop\<close> by rank; a negative index counts from the end.\<close>

definition slice_idx :: "int \<Rightarrow> int \<Rightarrow> 'a list \<Rightarrow> 'a list" where
  "slice_idx start stop xs =
     (let n = int (length xs);
          i = (if start < 0 then max 0 (n + start) else start);
          j = (if stop < 0 then n + stop else min stop (n - 1))
      in if j < i \<or> n \<le> i then [] else take (nat (j - i + 1)) (drop (nat i) xs))"

definition zrange_idx :: "int \<Rightarrow> int \<Rightarrow> zset \<Rightarrow> string list" where
  "zrange_idx start stop z =
     (let n = int (length z);
          i = (if start < 0 then max 0 (n + start) else start);
          j = (if stop < 0 then n + stop else min stop (n - 1))
      in if j < i \<or> n \<le> i then [] else map snd (take (nat (j - i + 1)) (drop (nat i) z)))"

text \<open>\<open>LIMIT offset count\<close>: a negative count means all.\<close>

definition limit :: "(nat \<times> int) option \<Rightarrow> 'a list \<Rightarrow> 'a list" where
  "limit l xs =
     (case l of
        None \<Rightarrow> xs
      | Some (off, c) \<Rightarrow> if c < 0 then drop off xs else take (nat c) (drop off xs))"

lemma zmembers_Nil [simp]: "zmembers [] = []"
  by (simp add: zmembers_def)

lemma set_zmembers_zrem [simp]: "set (zmembers (zrem m z)) = set (zmembers z) - {m}"
  by (auto simp: zmembers_def zrem_def)

lemma set_zmembers_zadd [simp]: "set (zmembers (zadd s m z)) = insert m (set (zmembers z))"
  by (auto simp: zadd_def zmembers_def set_insort_key zrem_def)

lemma zset_ok_Nil [simp]: "zset_ok []"
  by (simp add: zset_ok_def)

lemma zset_ok_filter: "zset_ok z \<Longrightarrow> zset_ok (filter P z)"
  by (simp add: zset_ok_def zmembers_def sorted_wrt_filter distinct_map_filter)

lemma zset_ok_zrem [simp]: "zset_ok z \<Longrightarrow> zset_ok (zrem m z)"
  by (simp add: zrem_def zset_ok_filter)

lemma zset_ok_zadd [simp]:
  assumes "zset_ok z"
  shows "zset_ok (zadd s m z)"
proof -
  have ok: "zset_ok (zrem m z)" using assms by simp
  have "m \<notin> set (map snd (zrem m z))" by (auto simp: zrem_def)
  then have "distinct (map snd (insort (s, m) (zrem m z)))"
    using ok
    by (auto simp: zset_ok_def zmembers_def distinct_map set_insort_key distinct_insort inj_on_def
        image_iff)
  with ok show ?thesis
    by (simp add: zset_ok_def zadd_def zmembers_def sorted_insort)
qed

lemma zrem_absent [simp]: "m \<notin> set (zmembers z) \<Longrightarrow> zrem m z = z"
  by (auto simp: zrem_def zmembers_def filter_id_conv)

lemma set_zadd: "set (zadd s m z) = insert (s, m) {p \<in> set z. snd p \<noteq> m}"
  by (auto simp: zadd_def set_insort_key zrem_def)

lemma length_zrem_absent [simp]: "m \<notin> set (zmembers z) \<Longrightarrow> length (zrem m z) = length z"
  by simp

lemma length_zadd: "length (zadd s m z) = Suc (length (zrem m z))"
  by (simp add: zadd_def)

lemma set_zrange_le: "x \<in> set (zrange_le mx z) \<longleftrightarrow> (\<exists>s. s \<le> mx \<and> (s, x) \<in> set z)"
  by (force simp: zrange_le_def)

subsection \<open>The keyspace\<close>

datatype rval =
    RStr string
  | RList "string list"
  | RSet "string list"
  | RZSet zset
  | RHash "(string \<times> string) list"

type_synonym entry = "rval \<times> int option" \<comment> \<open>value, expiry in ms\<close>

record keyspace =
  ents :: "(string \<times> entry) list"
  srv_ms :: int

text \<open>A key whose expiry lies before the server's clock is not there.\<close>

definition live :: "int \<Rightarrow> entry \<Rightarrow> bool" where
  "live now e \<longleftrightarrow> (case snd e of None \<Rightarrow> True | Some t \<Rightarrow> now \<le> t)"

definition lookup :: "keyspace \<Rightarrow> string \<Rightarrow> entry option" where
  "lookup db k =
     (case map_of (ents db) k of
        None \<Rightarrow> None
      | Some e \<Rightarrow> if live (srv_ms db) e then Some e else None)"

definition put :: "string \<Rightarrow> entry \<Rightarrow> keyspace \<Rightarrow> keyspace" where
  "put k e db = db\<lparr>ents := AList.update k e (ents db)\<rparr>"

definition remove :: "string \<Rightarrow> keyspace \<Rightarrow> keyspace" where
  "remove k db = db\<lparr>ents := AList.delete k (ents db)\<rparr>"

lemma lookup_put:
  "lookup (put k e db) k' =
     (if k' = k then (if live (srv_ms db) e then Some e else None) else lookup db k')"
  by (simp add: lookup_def put_def update_conv' split: option.split)

lemma lookup_put_None [simp]:
  "lookup (put k (v, None) db) k' = (if k' = k then Some (v, None) else lookup db k')"
  by (simp add: lookup_put live_def)

lemma lookup_put_other [simp]: "k' \<noteq> k \<Longrightarrow> lookup (put k e db) k' = lookup db k'"
  by (simp add: lookup_put)

lemma lookup_remove [simp]: "lookup (remove k db) k' = (if k' = k then None else lookup db k')"
  by (simp add: lookup_def remove_def delete_conv' split: option.split)

lemma srv_ms_put [simp]: "srv_ms (put k e db) = srv_ms db"
  by (simp add: put_def)

lemma srv_ms_remove [simp]: "srv_ms (remove k db) = srv_ms db"
  by (simp add: remove_def)

lemma lookup_live: "lookup db k = Some e \<Longrightarrow> live (srv_ms db) e"
  by (auto simp: lookup_def split: option.splits if_splits)

text \<open>
  Collections are written back with the key's expiry kept; an empty collection removes
  the key.
\<close>

definition expiry_of :: "keyspace \<Rightarrow> string \<Rightarrow> int option" where
  "expiry_of db k = (case lookup db k of None \<Rightarrow> None | Some (_, t) \<Rightarrow> t)"

definition empty_coll :: "rval \<Rightarrow> bool" where
  "empty_coll v \<longleftrightarrow>
     (case v of RStr _ \<Rightarrow> False | RList xs \<Rightarrow> xs = [] | RSet xs \<Rightarrow> xs = []
              | RZSet z \<Rightarrow> z = [] | RHash h \<Rightarrow> h = [])"

definition store :: "string \<Rightarrow> rval \<Rightarrow> keyspace \<Rightarrow> keyspace" where
  "store k v db = (if empty_coll v then remove k db else put k (v, expiry_of db k) db)"

text \<open>Typed reads: \<open>None\<close> is a value of another type.\<close>

definition get_list :: "keyspace \<Rightarrow> string \<Rightarrow> string list option" where
  "get_list db k =
     (case lookup db k of None \<Rightarrow> Some [] | Some (RList xs, _) \<Rightarrow> Some xs | _ \<Rightarrow> None)"

definition get_zset :: "keyspace \<Rightarrow> string \<Rightarrow> zset option" where
  "get_zset db k =
     (case lookup db k of None \<Rightarrow> Some [] | Some (RZSet z, _) \<Rightarrow> Some z | _ \<Rightarrow> None)"

definition get_hash :: "keyspace \<Rightarrow> string \<Rightarrow> (string \<times> string) list option" where
  "get_hash db k =
     (case lookup db k of None \<Rightarrow> Some [] | Some (RHash h, _) \<Rightarrow> Some h | _ \<Rightarrow> None)"

definition get_set :: "keyspace \<Rightarrow> string \<Rightarrow> string list option" where
  "get_set db k =
     (case lookup db k of None \<Rightarrow> Some [] | Some (RSet s, _) \<Rightarrow> Some s | _ \<Rightarrow> None)"

subsection \<open>Commands\<close>

datatype cmd =
    PING
  | EXISTS string
  | DEL string
  | SET string string
  | SETNXEX string string int                     \<comment> \<open>\<open>SET key value NX EX seconds\<close>\<close>
  | SETEX string int string
  | GET string
  | INCR string
  | EXPIREAT string int
  | EXPIRE string int
  | LPUSH string string
  | RPUSH string string
  | LREM string string                            \<comment> \<open>\<open>LREM key 0 value\<close>\<close>
  | RPOPLPUSH string string
  | LLEN string
  | HSET string "(string \<times> string) list"
  | HDEL string string
  | HGET string string
  | ZADD string int string
  | ZADDXX string "(int \<times> string) list"           \<comment> \<open>\<open>ZADD key XX score member ...\<close>\<close>
  | ZREM string "string list"
  | ZRANGE string int int
  | ZRANGEBYSCORE string int "(nat \<times> int) option" \<comment> \<open>from \<open>-inf\<close>\<close>
  | ZCARD string
  | SADD string string
  | SMEMBERS string
  | LRANGE string int int
  | ZRANGEWITHSCORES string int int
  | KEYS string                                   \<comment> \<open>\<open>KEYS prefix*\<close>\<close>

datatype reply =
    RInt int
  | RBulk string
  | RNil
  | RStatus string
  | RArr "reply list"
  | RErr string

definition wrongtype :: reply where
  "wrongtype = RErr ''WRONGTYPE Operation against a key holding the wrong kind of value''"

definition bad_expire :: reply where
  "bad_expire = RErr ''ERR invalid expire time''"

definition bad_arity :: reply where
  "bad_arity = RErr ''ERR wrong number of arguments''"

definition on_list :: "keyspace \<Rightarrow> string \<Rightarrow> (string list \<Rightarrow> reply \<times> keyspace) \<Rightarrow> reply \<times> keyspace" where
  "on_list db k f = (case get_list db k of None \<Rightarrow> (wrongtype, db) | Some xs \<Rightarrow> f xs)"

definition on_zset :: "keyspace \<Rightarrow> string \<Rightarrow> (zset \<Rightarrow> reply \<times> keyspace) \<Rightarrow> reply \<times> keyspace" where
  "on_zset db k f = (case get_zset db k of None \<Rightarrow> (wrongtype, db) | Some z \<Rightarrow> f z)"

definition on_hash ::
  "keyspace \<Rightarrow> string \<Rightarrow> ((string \<times> string) list \<Rightarrow> reply \<times> keyspace) \<Rightarrow> reply \<times> keyspace" where
  "on_hash db k f = (case get_hash db k of None \<Rightarrow> (wrongtype, db) | Some h \<Rightarrow> f h)"

definition on_set :: "keyspace \<Rightarrow> string \<Rightarrow> (string list \<Rightarrow> reply \<times> keyspace) \<Rightarrow> reply \<times> keyspace" where
  "on_set db k f = (case get_set db k of None \<Rightarrow> (wrongtype, db) | Some s \<Rightarrow> f s)"

definition present :: "keyspace \<Rightarrow> string \<Rightarrow> bool" where
  "present db k \<longleftrightarrow> lookup db k \<noteq> None"

definition hset_all :: "(string \<times> string) list \<Rightarrow> (string \<times> string) list \<Rightarrow> (string \<times> string) list" where
  "hset_all ps h = fold (\<lambda>(f, v). AList.update f v) ps h"

definition zadd_xx :: "(int \<times> string) list \<Rightarrow> zset \<Rightarrow> zset" where
  "zadd_xx ps z = fold (\<lambda>(s, m) z. if m \<in> set (zmembers z) then zadd s m z else z) ps z"

definition zrem_all :: "string list \<Rightarrow> zset \<Rightarrow> zset" where
  "zrem_all ms z = filter (\<lambda>p. snd p \<notin> set ms) z"

definition set_expiry :: "string \<Rightarrow> int \<Rightarrow> keyspace \<Rightarrow> reply \<times> keyspace" where
  "set_expiry k t db =
     (case lookup db k of
        None \<Rightarrow> (RInt 0, db)
      | Some (v, _) \<Rightarrow> (RInt 1, if t \<le> srv_ms db then remove k db else put k (v, Some t) db))"

definition incr_cmd :: "string \<Rightarrow> keyspace \<Rightarrow> reply \<times> keyspace" where
  "incr_cmd k db =
     (case lookup db k of
        None \<Rightarrow> (RInt 1, put k (RStr (show_int 1), None) db)
      | Some (RStr s, t) \<Rightarrow>
          (case read_int s of
             None \<Rightarrow> (RErr ''ERR value is not an integer or out of range'', db)
           | Some n \<Rightarrow>
               if n = max_int64 then (RErr ''ERR increment or decrement would overflow'', db)
               else (RInt (n + 1), put k (RStr (show_int (n + 1)), t) db))
      | Some _ \<Rightarrow> (wrongtype, db))"

fun exec_cmd :: "cmd \<Rightarrow> keyspace \<Rightarrow> reply \<times> keyspace" where
  "exec_cmd PING db = (RStatus ''PONG'', db)"
| "exec_cmd (EXISTS k) db = (RInt (if present db k then 1 else 0), db)"
| "exec_cmd (DEL k) db = (RInt (if present db k then 1 else 0), remove k db)"
| "exec_cmd (SET k v) db = (RStatus ''OK'', put k (RStr v, None) db)"
| "exec_cmd (SETNXEX k v s) db =
     (if s \<le> 0 then (bad_expire, db)
      else if present db k then (RNil, db)
      else (RStatus ''OK'', put k (RStr v, Some (srv_ms db + 1000 * s)) db))"
| "exec_cmd (SETEX k s v) db =
     (if s \<le> 0 then (bad_expire, db)
      else (RStatus ''OK'', put k (RStr v, Some (srv_ms db + 1000 * s)) db))"
| "exec_cmd (GET k) db =
     (case lookup db k of
        None \<Rightarrow> (RNil, db) | Some (RStr s, _) \<Rightarrow> (RBulk s, db) | Some _ \<Rightarrow> (wrongtype, db))"
| "exec_cmd (INCR k) db = incr_cmd k db"
| "exec_cmd (EXPIREAT k ts) db = set_expiry k (1000 * ts) db"
| "exec_cmd (EXPIRE k s) db = set_expiry k (srv_ms db + 1000 * s) db"
| "exec_cmd (LPUSH k v) db =
     on_list db k (\<lambda>xs. (RInt (int (length xs) + 1), store k (RList (v # xs)) db))"
| "exec_cmd (RPUSH k v) db =
     on_list db k (\<lambda>xs. (RInt (int (length xs) + 1), store k (RList (xs @ [v])) db))"
| "exec_cmd (LREM k v) db =
     on_list db k (\<lambda>xs. (RInt (int (count_list xs v)),
       if v \<in> set xs then store k (RList (removeAll v xs)) db else db))"
| "exec_cmd (RPOPLPUSH a b) db =
     on_list db a (\<lambda>xs.
       if xs = [] then (RNil, db)
       else on_list db b (\<lambda>_.
         (let db1 = store a (RList (butlast xs)) db
          in case get_list db1 b of
               None \<Rightarrow> (wrongtype, db)
             | Some ys \<Rightarrow> (RBulk (last xs), store b (RList (last xs # ys)) db1))))"
| "exec_cmd (LLEN k) db = on_list db k (\<lambda>xs. (RInt (int (length xs)), db))"
| "exec_cmd (HSET k ps) db =
     (if ps = [] then (bad_arity, db)
      else on_hash db k (\<lambda>h.
        (RInt (int (length (hset_all ps h)) - int (length h)), store k (RHash (hset_all ps h)) db)))"
| "exec_cmd (HDEL k f) db =
     on_hash db k (\<lambda>h.
       if map_of h f = None then (RInt 0, db)
       else (RInt 1, store k (RHash (AList.delete f h)) db))"
| "exec_cmd (HGET k f) db =
     on_hash db k (\<lambda>h. (case map_of h f of None \<Rightarrow> RNil | Some v \<Rightarrow> RBulk v, db))"
| "exec_cmd (ZADD k s m) db =
     on_zset db k (\<lambda>z. (RInt (if m \<in> set (zmembers z) then 0 else 1),
       store k (RZSet (zadd s m z)) db))"
| "exec_cmd (ZADDXX k ps) db =
     (if ps = [] then (bad_arity, db)
      else on_zset db k (\<lambda>z. (RInt 0, if z = [] then db else store k (RZSet (zadd_xx ps z)) db)))"
| "exec_cmd (ZREM k ms) db =
     (if ms = [] then (bad_arity, db)
      else on_zset db k (\<lambda>z.
        (RInt (int (length z) - int (length (zrem_all ms z))),
         if z = [] then db else store k (RZSet (zrem_all ms z)) db)))"
| "exec_cmd (ZRANGE k i j) db = on_zset db k (\<lambda>z. (RArr (map RBulk (zrange_idx i j z)), db))"
| "exec_cmd (ZRANGEBYSCORE k mx l) db =
     on_zset db k (\<lambda>z. (RArr (map RBulk (limit l (zrange_le mx z))), db))"
| "exec_cmd (ZCARD k) db = on_zset db k (\<lambda>z. (RInt (int (length z)), db))"
| "exec_cmd (SADD k m) db =
     on_set db k (\<lambda>s. if m \<in> set s then (RInt 0, db) else (RInt 1, store k (RSet (s @ [m])) db))"
| "exec_cmd (SMEMBERS k) db = on_set db k (\<lambda>s. (RArr (map RBulk s), db))"
| "exec_cmd (LRANGE k i j) db = on_list db k (\<lambda>xs. (RArr (map RBulk (slice_idx i j xs)), db))"
| "exec_cmd (ZRANGEWITHSCORES k i j) db =
     on_zset db k (\<lambda>z.
       (RArr (concat (map (\<lambda>(s, m). [RBulk m, RBulk (show_int s)]) (slice_idx i j z))), db))"
| "exec_cmd (KEYS prefix) db =
     (RArr (map RBulk (filter (\<lambda>k. take (length prefix) k = prefix \<and> present db k)
        (remdups (map fst (ents db))))), db)"

subsection \<open>Programs\<close>

datatype 'a prog = Ret 'a | Call cmd "reply \<Rightarrow> 'a prog"

primrec run :: "'a prog \<Rightarrow> keyspace \<Rightarrow> 'a \<times> keyspace" where
  "run (Ret x) = (\<lambda>db. (x, db))"
| "run (Call c f) = (\<lambda>db. (\<lambda>g. g (snd (exec_cmd c db))) (run (f (fst (exec_cmd c db)))))"

text \<open>
  \<open>redis.call\<close> inside a Lua script: an error reply ends the script with that error; the
  writes made so far stay. \<open>lua_for\<close> is \<open>for _, id in ipairs(ids) do ... end\<close>.
\<close>

definition call :: "cmd \<Rightarrow> (reply \<Rightarrow> reply prog) \<Rightarrow> reply prog" where
  "call c k = Call c (\<lambda>r. case r of RErr e \<Rightarrow> Ret (RErr e) | _ \<Rightarrow> k r)"

fun lua_for :: "'a list \<Rightarrow> ('a \<Rightarrow> reply prog \<Rightarrow> reply prog) \<Rightarrow> reply prog \<Rightarrow> reply prog" where
  "lua_for [] body k = k"
| "lua_for (x # xs) body k = body x (lua_for xs body k)"

text \<open>\<open>tonumber\<close> of a reply: a Lua number is a double; anything that is no number is nil.\<close>

fun lua_tonumber :: "reply \<Rightarrow> int option" where
  "lua_tonumber (RInt n) = Some (to_double n)"
| "lua_tonumber (RBulk s) = map_option to_double (read_int s)"
| "lua_tonumber _ = None"

text \<open>An array reply of bulk strings as a Lua table of strings.\<close>

fun bulk_list :: "reply \<Rightarrow> string list" where
  "bulk_list (RArr rs) = map (\<lambda>r. case r of RBulk s \<Rightarrow> s | _ \<Rightarrow> []) rs"
| "bulk_list _ = []"

lemma bulk_list_map_RBulk [simp]: "bulk_list (RArr (map RBulk xs)) = xs"
  by (simp add: comp_def)

lemma run_call:
  "run (call c k) db =
     (case exec_cmd c db of (RErr e, db') \<Rightarrow> (RErr e, db') | (r, db') \<Rightarrow> run (k r) db')"
  by (cases "exec_cmd c db", cases "fst (exec_cmd c db)") (auto simp: call_def)

subsection \<open>Reading back a write\<close>

lemma live_expiry_of: "case expiry_of db k of None \<Rightarrow> True | Some t \<Rightarrow> srv_ms db \<le> t"
  by (auto simp: expiry_of_def live_def split: option.splits dest: lookup_live)

lemma lookup_store:
  "lookup (store k v db) k' =
     (if k' = k then (if empty_coll v then None else Some (v, expiry_of db k)) else lookup db k')"
  using live_expiry_of [of db k] by (auto simp: store_def lookup_put live_def)

lemma lookup_store_other [simp]: "k' \<noteq> k \<Longrightarrow> lookup (store k v db) k' = lookup db k'"
  by (simp add: lookup_store)

lemma srv_ms_store [simp]: "srv_ms (store k v db) = srv_ms db"
  by (simp add: store_def)

lemma expiry_of_other [simp]:
  "k' \<noteq> k \<Longrightarrow> expiry_of (store k v db) k' = expiry_of db k'"
  "k' \<noteq> k \<Longrightarrow> expiry_of (remove k db) k' = expiry_of db k'"
  "k' \<noteq> k \<Longrightarrow> expiry_of (put k e db) k' = expiry_of db k'"
  by (simp_all add: expiry_of_def)

lemma get_other [simp]:
  assumes "k' \<noteq> k"
  shows "get_list (store k v db) k' = get_list db k'" "get_zset (store k v db) k' = get_zset db k'"
    "get_hash (store k v db) k' = get_hash db k'" "get_set (store k v db) k' = get_set db k'"
    "get_list (remove k db) k' = get_list db k'" "get_zset (remove k db) k' = get_zset db k'"
    "get_hash (remove k db) k' = get_hash db k'" "get_set (remove k db) k' = get_set db k'"
    "get_list (put k e db) k' = get_list db k'" "get_zset (put k e db) k' = get_zset db k'"
    "get_hash (put k e db) k' = get_hash db k'" "get_set (put k e db) k' = get_set db k'"
  using assms by (simp_all add: get_list_def get_zset_def get_hash_def get_set_def)

lemma present_other [simp]:
  "k' \<noteq> k \<Longrightarrow> present (store k v db) k' = present db k'"
  "k' \<noteq> k \<Longrightarrow> present (remove k db) k' = present db k'"
  "k' \<noteq> k \<Longrightarrow> present (put k e db) k' = present db k'"
  by (simp_all add: present_def)

lemma get_same [simp]:
  "get_list (store k (RList xs) db) k = Some xs" "get_zset (store k (RZSet z) db) k = Some z"
  "get_hash (store k (RHash h) db) k = Some h" "get_set (store k (RSet s) db) k = Some s"
  by (simp_all add: get_list_def get_zset_def get_hash_def get_set_def lookup_store empty_coll_def)

lemma get_removed [simp]:
  "get_list (remove k db) k = Some []" "get_zset (remove k db) k = Some []"
  "get_hash (remove k db) k = Some []" "get_set (remove k db) k = Some []" "\<not> present (remove k db) k"
  by (simp_all add: get_list_def get_zset_def get_hash_def get_set_def present_def)

lemma hset_all_neq_Nil [simp]: "ps \<noteq> [] \<Longrightarrow> hset_all ps h \<noteq> []"
proof (induction ps arbitrary: h)
  case (Cons p ps)
  have ne: "AList.update f v h \<noteq> []" for f v :: string and h by (induction h) auto
  show ?case
  proof (cases "ps = []")
    case True
    then show ?thesis using ne by (cases p) (simp add: hset_all_def)
  next
    case False
    then show ?thesis using Cons.IH by (cases p) (simp add: hset_all_def)
  qed
qed simp

lemma map_of_hset_all:
  "map_of (hset_all ps h) = map_of h ++ map_of (rev ps)"
proof (induction ps arbitrary: h)
  case Nil
  then show ?case by (simp add: hset_all_def)
next
  case (Cons p ps)
  have "map_of (hset_all (p # ps) h) = map_of (hset_all ps (AList.update (fst p) (snd p) h))"
    by (simp add: hset_all_def split_def)
  also have "\<dots> = (map_of h)(fst p \<mapsto> snd p) ++ map_of (rev ps)"
    by (simp add: Cons.IH update_conv' fun_upd_def)
  finally show ?case by (auto simp: map_add_def fun_eq_iff split: option.split)
qed

lemma distinct_hset_all: "distinct (map fst h) \<Longrightarrow> distinct (map fst (hset_all ps h))"
  by (induction ps arbitrary: h) (auto simp: hset_all_def distinct_update)

subsection \<open>What a program writes\<close>

fun cmd_writes :: "cmd \<Rightarrow> string set" where
  "cmd_writes (DEL k) = {k}"
| "cmd_writes (SET k _) = {k}"
| "cmd_writes (SETNXEX k _ _) = {k}"
| "cmd_writes (SETEX k _ _) = {k}"
| "cmd_writes (INCR k) = {k}"
| "cmd_writes (EXPIREAT k _) = {k}"
| "cmd_writes (EXPIRE k _) = {k}"
| "cmd_writes (LPUSH k _) = {k}"
| "cmd_writes (RPUSH k _) = {k}"
| "cmd_writes (LREM k _) = {k}"
| "cmd_writes (RPOPLPUSH a b) = {a, b}"
| "cmd_writes (HSET k _) = {k}"
| "cmd_writes (HDEL k _) = {k}"
| "cmd_writes (ZADD k _ _) = {k}"
| "cmd_writes (ZADDXX k _) = {k}"
| "cmd_writes (ZREM k _) = {k}"
| "cmd_writes (SADD k _) = {k}"
| "cmd_writes _ = {}"

primrec prog_writes :: "string set \<Rightarrow> 'a prog \<Rightarrow> bool" where
  "prog_writes W (Ret x) = True"
| "prog_writes W (Call c f) = (cmd_writes c \<subseteq> W \<and> (\<forall>r. prog_writes W (f r)))"

lemma exec_cmd_frame:
  assumes "k \<notin> cmd_writes c"
  shows "lookup (snd (exec_cmd c db)) k = lookup db k"
  using assms
  by (cases c)
     (auto simp: on_list_def on_zset_def on_hash_def on_set_def set_expiry_def incr_cmd_def Let_def
       split: option.split rval.split if_split)

lemma exec_cmd_srv_ms: "srv_ms (snd (exec_cmd c db)) = srv_ms db"
  by (cases c)
     (auto simp: on_list_def on_zset_def on_hash_def on_set_def set_expiry_def incr_cmd_def Let_def
       split: option.split rval.split if_split)

lemma run_frame: "prog_writes W p \<Longrightarrow> k \<notin> W \<Longrightarrow> lookup (snd (run p db)) k = lookup db k"
proof (induction p arbitrary: db)
  case (Call c f)
  then have "lookup (snd (run (f (fst (exec_cmd c db))) (snd (exec_cmd c db)))) k
      = lookup (snd (exec_cmd c db)) k"
    by auto
  also have "\<dots> = lookup db k"
    using Call.prems by (intro exec_cmd_frame) auto
  finally show ?case by simp
qed simp

lemma run_srv_ms: "srv_ms (snd (run p db)) = srv_ms db"
  by (induction p arbitrary: db) (auto simp: exec_cmd_srv_ms)

lemma prog_writes_call [simp]:
  "prog_writes W (call c k) \<longleftrightarrow>
     cmd_writes c \<subseteq> W \<and> (\<forall>r. (\<forall>e. r \<noteq> RErr e) \<longrightarrow> prog_writes W (k r))"
proof -
  have "(\<forall>r. prog_writes W (case r of RErr e \<Rightarrow> Ret (RErr e) | _ \<Rightarrow> k r))
      \<longleftrightarrow> (\<forall>r. (\<forall>e. r \<noteq> RErr e) \<longrightarrow> prog_writes W (k r))" (is "?L = ?R")
  proof
    show "?L \<Longrightarrow> ?R" by (intro allI impI) (drule spec, auto split: reply.splits)
    show "?R \<Longrightarrow> ?L" by (auto split: reply.split)
  qed
  then show ?thesis by (simp add: call_def)
qed

lemma prog_writes_lua_for:
  "prog_writes W k \<Longrightarrow> (\<And>x rest. x \<in> set xs \<Longrightarrow> prog_writes W rest \<Longrightarrow> prog_writes W (body x rest)) \<Longrightarrow>
   prog_writes W (lua_for xs body k)"
  by (induction xs) auto

lemma prog_writes_mono: "prog_writes V p \<Longrightarrow> V \<subseteq> W \<Longrightarrow> prog_writes W p"
  by (induction p) auto

end
