(* ===== verification/Scripts.thy ===== *)
theory Scripts
  imports Redis
begin

text \<open>
  The Lua scripts of \<open>internal/rdb/rdb.go\<close>, one definition per script, as programs over
  the Redis commands they call. The arguments are \<open>KEYS[i]\<close> and \<open>ARGV[i]\<close> under the
  names the comments of the source give them; numeric arguments stay numbers. The order
  of the calls, the early returns and the error replies are the scripts' own.
\<close>

type_synonym rkey = string \<comment> \<open>a \<open>KEYS[i]\<close>\<close>

subsection \<open>Shared pieces\<close>

text \<open>\<open>if c then redis.call(cmd) end; rest\<close>\<close>

definition lua_when :: "bool \<Rightarrow> cmd \<Rightarrow> reply prog \<Rightarrow> reply prog" where
  "lua_when b c k = (if b then call c (\<lambda>_. k) else k)"

definition not_found :: "reply prog" where
  "not_found = Ret (RErr ''NOT FOUND'')"

definition ok_reply :: "reply prog" where
  "ok_reply = Ret (RStatus ''OK'')"

text \<open>The daily counter: \<open>INCR\<close>, and \<open>EXPIREAT\<close> when the counter is new.\<close>

definition incr_daily :: "string \<Rightarrow> int \<Rightarrow> reply prog \<Rightarrow> reply prog" where
  "incr_daily key expire_at k =
     call (INCR key) (\<lambda>n. lua_when (lua_tonumber n = Some 1) (EXPIREAT key expire_at) k)"

text \<open>The test \<open>tonumber(total) == tonumber(max)\<close> on a total read with \<open>GET\<close>: a comparison of doubles.\<close>

definition at_max :: "reply \<Rightarrow> int \<Rightarrow> bool" where
  "at_max tot mx \<longleftrightarrow> lua_tonumber tot = Some (to_double mx)"

definition incr_total :: "string \<Rightarrow> int \<Rightarrow> reply prog \<Rightarrow> reply prog" where
  "incr_total key mx k =
     call (GET key) (\<lambda>tot.
       if at_max tot mx then call (SET key ''1'') (\<lambda>_. k) else call (INCR key) (\<lambda>_. k))"

definition incr_totals :: "string \<Rightarrow> string \<Rightarrow> int \<Rightarrow> reply prog \<Rightarrow> reply prog" where
  "incr_totals processed failed mx k =
     call (GET processed) (\<lambda>tot.
       if at_max tot mx
       then call (SET processed ''1'') (\<lambda>_. call (SET failed ''1'') (\<lambda>_. k))
       else call (INCR processed) (\<lambda>_. call (INCR failed) (\<lambda>_. k)))"

text \<open>
  The two removals every settling script starts with: the task must be in the active list
  and must hold a lease.
\<close>

definition take_active :: "string \<Rightarrow> string \<Rightarrow> string \<Rightarrow> reply prog \<Rightarrow> reply prog" where
  "take_active active lease tid k =
     call (LREM active tid) (\<lambda>n.
       if n = RInt 0 then not_found
       else call (ZREM lease [tid]) (\<lambda>m. if m = RInt 0 then not_found else k))"

subsection \<open>Enqueueing\<close>

definition enqueueCmd :: "rkey \<Rightarrow> rkey \<Rightarrow> string \<Rightarrow> string \<Rightarrow> int \<Rightarrow> reply prog" where
  "enqueueCmd taskkey pending msg tid now =
     call (EXISTS taskkey) (\<lambda>e.
       if e = RInt 1 then Ret (RInt 0)
       else call (HSET taskkey [(''msg'', msg), (''state'', ''pending''),
                                (''pending_since'', show_int now)]) (\<lambda>_.
            call (LPUSH pending tid) (\<lambda>_. Ret (RInt 1))))"

definition enqueueUniqueCmd ::
  "rkey \<Rightarrow> rkey \<Rightarrow> rkey \<Rightarrow> string \<Rightarrow> int \<Rightarrow> string \<Rightarrow> int \<Rightarrow> reply prog" where
  "enqueueUniqueCmd ukey taskkey pending tid ttl msg now =
     call (SETNXEX ukey tid ttl) (\<lambda>ok.
       if ok = RNil then Ret (RInt (- 1))
       else call (EXISTS taskkey) (\<lambda>e.
         if e = RInt 1 then Ret (RInt 0)
         else call (HSET taskkey [(''msg'', msg), (''state'', ''pending''),
                                  (''pending_since'', show_int now), (''unique_key'', ukey)]) (\<lambda>_.
              call (LPUSH pending tid) (\<lambda>_. Ret (RInt 1)))))"

definition scheduleCmd :: "string \<Rightarrow> string \<Rightarrow> string \<Rightarrow> int \<Rightarrow> string \<Rightarrow> reply prog" where
  "scheduleCmd taskkey scheduled msg process_at tid =
     call (EXISTS taskkey) (\<lambda>e.
       if e = RInt 1 then Ret (RInt 0)
       else call (HSET taskkey [(''msg'', msg), (''state'', ''scheduled'')]) (\<lambda>_.
            call (ZADD scheduled process_at tid) (\<lambda>_. Ret (RInt 1))))"

definition scheduleUniqueCmd ::
  "rkey \<Rightarrow> rkey \<Rightarrow> rkey \<Rightarrow> string \<Rightarrow> int \<Rightarrow> int \<Rightarrow> string \<Rightarrow> reply prog" where
  "scheduleUniqueCmd ukey taskkey scheduled tid ttl score msg =
     call (SETNXEX ukey tid ttl) (\<lambda>ok.
       if ok = RNil then Ret (RInt (- 1))
       else call (EXISTS taskkey) (\<lambda>e.
         if e = RInt 1 then Ret (RInt 0)
         else call (HSET taskkey [(''msg'', msg), (''state'', ''scheduled''),
                                  (''unique_key'', ukey)]) (\<lambda>_.
              call (ZADD scheduled score tid) (\<lambda>_. Ret (RInt 1)))))"

subsection \<open>Dequeueing\<close>

definition dequeueCmd :: "rkey \<Rightarrow> rkey \<Rightarrow> rkey \<Rightarrow> rkey \<Rightarrow> int \<Rightarrow> string \<Rightarrow> reply prog" where
  "dequeueCmd pending paused active lease expires prefix =
     call (EXISTS paused) (\<lambda>p.
       if p = RInt 0 then
         call (RPOPLPUSH pending active) (\<lambda>r.
           case r of
             RBulk tid \<Rightarrow>
               call (HSET (prefix @ tid) [(''state'', ''active'')]) (\<lambda>_.
               call (HDEL (prefix @ tid) ''pending_since'') (\<lambda>_.
               call (ZADD lease expires tid) (\<lambda>_.
               call (HGET (prefix @ tid) ''msg'') (\<lambda>m. Ret m))))
           | _ \<Rightarrow> Ret RNil)
       else Ret RNil)"

subsection \<open>Settling an active task\<close>

definition doneCmd ::
  "rkey \<Rightarrow> rkey \<Rightarrow> rkey \<Rightarrow> rkey \<Rightarrow> rkey \<Rightarrow> string \<Rightarrow> int \<Rightarrow> int \<Rightarrow> reply prog" where
  "doneCmd active lease taskkey processed_day processed tid expire_at mx =
     take_active active lease tid (
     call (DEL taskkey) (\<lambda>d.
       if d = RInt 0 then not_found
       else incr_daily processed_day expire_at (
            incr_total processed mx ok_reply)))"

definition doneUniqueCmd ::
  "rkey \<Rightarrow> rkey \<Rightarrow> rkey \<Rightarrow> rkey \<Rightarrow> rkey \<Rightarrow> rkey \<Rightarrow> string \<Rightarrow> int \<Rightarrow> int \<Rightarrow> reply prog" where
  "doneUniqueCmd active lease taskkey processed_day processed ukey tid expire_at mx =
     take_active active lease tid (
     call (DEL taskkey) (\<lambda>d.
       if d = RInt 0 then not_found
       else incr_daily processed_day expire_at (
            incr_total processed mx (
            call (GET ukey) (\<lambda>u. lua_when (u = RBulk tid) (DEL ukey) ok_reply)))))"

definition markAsCompleteCmd ::
  "rkey \<Rightarrow> rkey \<Rightarrow> rkey \<Rightarrow> rkey \<Rightarrow> rkey \<Rightarrow> rkey \<Rightarrow> string \<Rightarrow> int \<Rightarrow> int \<Rightarrow> string \<Rightarrow> int \<Rightarrow>
   reply prog" where
  "markAsCompleteCmd active lease completed taskkey processed_day processed tid stats_expire_at
       task_expire_at msg mx =
     take_active active lease tid (
     call (ZADD completed task_expire_at tid) (\<lambda>n.
       if n \<noteq> RInt 1 then Ret (RErr ''INTERNAL'')
       else call (HSET taskkey [(''msg'', msg), (''state'', ''completed'')]) (\<lambda>_.
            incr_daily processed_day stats_expire_at (
            incr_total processed mx ok_reply))))"

definition requeueCmd :: "rkey \<Rightarrow> rkey \<Rightarrow> rkey \<Rightarrow> rkey \<Rightarrow> string \<Rightarrow> reply prog" where
  "requeueCmd active lease pending taskkey tid =
     take_active active lease tid (
     call (RPUSH pending tid) (\<lambda>_.
     call (HSET taskkey [(''state'', ''pending'')]) (\<lambda>_. ok_reply)))"

definition retryCmd ::
  "rkey \<Rightarrow> rkey \<Rightarrow> rkey \<Rightarrow> rkey \<Rightarrow> rkey \<Rightarrow> rkey \<Rightarrow> rkey \<Rightarrow> rkey \<Rightarrow>
   string \<Rightarrow> string \<Rightarrow> int \<Rightarrow> int \<Rightarrow> bool \<Rightarrow> int \<Rightarrow> reply prog" where
  "retryCmd taskkey active lease retry processed_day failed_day processed failed
       tid msg retry_at expire_at is_failure mx =
     take_active active lease tid (
     call (ZADD retry retry_at tid) (\<lambda>_.
     call (HSET taskkey [(''msg'', msg), (''state'', ''retry'')]) (\<lambda>_.
       if is_failure
       then incr_daily processed_day expire_at (
            incr_daily failed_day expire_at (
            incr_totals processed failed mx ok_reply))
       else ok_reply)))"

text \<open>
  \<open>ZREM key unpack(ids)\<close> after deleting the tasks. \<open>unpack\<close> raises an error for more
  results than the Lua stack holds; the limit is a parameter of the runtime.
\<close>

definition trim_set :: "nat \<Rightarrow> string \<Rightarrow> string \<Rightarrow> string list \<Rightarrow> reply prog \<Rightarrow> reply prog" where
  "trim_set unpack_max zkey prefix ids k =
     (if ids \<noteq> [] then
        lua_for ids (\<lambda>i rest. call (DEL (prefix @ i)) (\<lambda>_. rest))
          (if unpack_max < length ids then Ret (RErr ''too many results to unpack'')
           else call (ZREM zkey ids) (\<lambda>_. k))
      else k)"

definition archiveCmd ::
  "nat \<Rightarrow> rkey \<Rightarrow> rkey \<Rightarrow> rkey \<Rightarrow> rkey \<Rightarrow> rkey \<Rightarrow> rkey \<Rightarrow> rkey \<Rightarrow> rkey \<Rightarrow> rkey \<Rightarrow>
   string \<Rightarrow> string \<Rightarrow> int \<Rightarrow> int \<Rightarrow> int \<Rightarrow> int \<Rightarrow> int \<Rightarrow> reply prog" where
  "archiveCmd unpack_max taskkey active lease archived processed_day failed_day processed failed
       prefix tid msg died_at cutoff max_size expire_at mx =
     take_active active lease tid (
     call (ZADD archived died_at tid) (\<lambda>_.
     call (ZRANGEBYSCORE archived cutoff None) (\<lambda>old.
     trim_set unpack_max archived prefix (bulk_list old) (
     call (ZRANGE archived 0 (- max_size)) (\<lambda>extra.
     trim_set unpack_max archived prefix (bulk_list extra) (
     call (HSET taskkey [(''msg'', msg), (''state'', ''archived'')]) (\<lambda>_.
     incr_daily processed_day expire_at (
     incr_daily failed_day expire_at (
     incr_totals processed failed mx ok_reply)))))))))"

subsection \<open>Background scripts\<close>

definition forwardCmd :: "string \<Rightarrow> string \<Rightarrow> int \<Rightarrow> string \<Rightarrow> int \<Rightarrow> reply prog" where
  "forwardCmd source pending now prefix now_ns =
     call (ZRANGEBYSCORE source now (Some (0, 100))) (\<lambda>ids.
       lua_for (bulk_list ids)
         (\<lambda>i rest.
            call (LPUSH pending i) (\<lambda>_.
            call (ZREM source [i]) (\<lambda>_.
            call (HSET (prefix @ i) [(''state'', ''pending''), (''pending_since'', show_int now_ns)])
              (\<lambda>_. rest))))
         (Ret (RInt (int (length (bulk_list ids))))))"

definition deleteExpiredCompletedTasksCmd :: "string \<Rightarrow> int \<Rightarrow> string \<Rightarrow> int \<Rightarrow> reply prog" where
  "deleteExpiredCompletedTasksCmd completed now prefix batch =
     call (ZRANGEBYSCORE completed now (Some (0, batch))) (\<lambda>ids.
       lua_for (bulk_list ids)
         (\<lambda>i rest. call (DEL (prefix @ i)) (\<lambda>_. call (ZREM completed [i]) (\<lambda>_. rest)))
         (Ret (RInt (int (length (bulk_list ids))))))"

fun collect_msgs :: "string \<Rightarrow> string list \<Rightarrow> reply list \<Rightarrow> reply prog" where
  "collect_msgs prefix [] res = Ret (RArr res)"
| "collect_msgs prefix (i # ids) res =
     call (HGET (prefix @ i) ''msg'') (\<lambda>v.
       if v \<noteq> RNil then collect_msgs prefix ids (res @ [v]) else collect_msgs prefix ids res)"

definition listLeaseExpiredCmd :: "string \<Rightarrow> int \<Rightarrow> string \<Rightarrow> reply prog" where
  "listLeaseExpiredCmd lease cutoff prefix =
     call (ZRANGEBYSCORE lease cutoff None) (\<lambda>ids. collect_msgs prefix (bulk_list ids) [])"

definition writeServerStateCmd ::
  "string \<Rightarrow> string \<Rightarrow> int \<Rightarrow> string \<Rightarrow> (string \<times> string) list \<Rightarrow> reply prog" where
  "writeServerStateCmd skey wkey ttl info workers =
     call (SETEX skey ttl info) (\<lambda>_.
     call (DEL wkey) (\<lambda>_.
       lua_for workers (\<lambda>w rest. call (HSET wkey [w]) (\<lambda>_. rest))
         (call (EXPIRE wkey ttl) (\<lambda>_. ok_reply))))"

definition clearServerStateCmd :: "string \<Rightarrow> string \<Rightarrow> reply prog" where
  "clearServerStateCmd skey wkey =
     call (DEL skey) (\<lambda>_. call (DEL wkey) (\<lambda>_. ok_reply))"

text \<open>A single command outside a script.\<close>

definition single :: "cmd \<Rightarrow> reply prog" where
  "single c = Call c Ret"

end
