(* ===== verification/QueueModel.thy ===== *)
theory QueueModel
  imports Base Redis
begin

text \<open>
  The abstract specification of one queue: the containers that hold task IDs, the task
  hashes, and one operation per script of \<open>internal/rdb/rdb.go\<close>. The theory
  \<open>Refinement\<close> shows that the scripts implement these operations on the keys of the queue.

  \<open>qinv\<close> is the invariant of a queue: a task ID is in the container its \<open>state\<close> field
  names and in no other; a task whose state is not archived is in its container (no task
  is lost); the leases are those of the active tasks; a task with a state has a message.
  An archived task may be missing from the archive: trimming can remove the entry of the
  very task being archived, whose hash the script then writes again.
\<close>

subsection \<open>The state of a queue\<close>

record queue_state =
  q_pending :: "string list"
  q_active :: "string list"
  q_scheduled :: zset
  q_retry :: zset
  q_archived :: zset
  q_completed :: zset
  q_lease :: zset
  q_tasks :: "string \<Rightarrow> (string \<times> string) list"
  q_paused :: bool
  q_processed :: int \<comment> \<open>the total of processed tasks\<close>
  q_failed :: int
  q_daily :: int \<comment> \<open>a bound on the daily counters\<close>
  q_locks :: "string \<Rightarrow> string option" \<comment> \<open>the task holding a uniqueness lock\<close>

definition empty_queue :: queue_state where
  "empty_queue = \<lparr>q_pending = [], q_active = [], q_scheduled = [], q_retry = [], q_archived = [],
     q_completed = [], q_lease = [], q_tasks = (\<lambda>_. []), q_paused = False,
     q_processed = 0, q_failed = 0, q_daily = 0, q_locks = (\<lambda>_. None)\<rparr>"

definition field_of :: "queue_state \<Rightarrow> string \<Rightarrow> string \<Rightarrow> string option" where
  "field_of st tid f = map_of (q_tasks st tid) f"

definition state_of :: "queue_state \<Rightarrow> string \<Rightarrow> string option" where
  "state_of st tid = field_of st tid ''state''"

fun in_state :: "queue_state \<Rightarrow> TaskState \<Rightarrow> string set" where
  "in_state st TaskStatePending = set (q_pending st)"
| "in_state st TaskStateActive = set (q_active st)"
| "in_state st TaskStateScheduled = set (zmembers (q_scheduled st))"
| "in_state st TaskStateRetry = set (zmembers (q_retry st))"
| "in_state st TaskStateArchived = set (zmembers (q_archived st))"
| "in_state st TaskStateCompleted = set (zmembers (q_completed st))"

definition put_fields :: "string \<Rightarrow> (string \<times> string) list \<Rightarrow> queue_state \<Rightarrow> queue_state" where
  "put_fields tid ps st = st\<lparr>q_tasks := (q_tasks st)(tid := hset_all ps (q_tasks st tid))\<rparr>"

definition drop_task :: "string \<Rightarrow> queue_state \<Rightarrow> queue_state" where
  "drop_task tid st = st\<lparr>q_tasks := (q_tasks st)(tid := [])\<rparr>"

subsection \<open>Operations\<close>

definition s_enqueue ::
  "string \<Rightarrow> string \<Rightarrow> int \<Rightarrow> (string \<times> string) list \<Rightarrow> queue_state \<Rightarrow> queue_state" where
  "s_enqueue msg tid now extra st =
     put_fields tid ([(''msg'', msg), (''state'', ''pending''), (''pending_since'', show_int now)] @ extra)
       (st\<lparr>q_pending := tid # q_pending st\<rparr>)"

definition s_schedule ::
  "string \<Rightarrow> string \<Rightarrow> int \<Rightarrow> (string \<times> string) list \<Rightarrow> queue_state \<Rightarrow> queue_state" where
  "s_schedule msg tid process_at extra st =
     put_fields tid ([(''msg'', msg), (''state'', ''scheduled'')] @ extra)
       (st\<lparr>q_scheduled := zadd process_at tid (q_scheduled st)\<rparr>)"

definition s_dequeue :: "int \<Rightarrow> queue_state \<Rightarrow> string option \<times> queue_state" where
  "s_dequeue expires st =
     (if q_paused st \<or> q_pending st = [] then (None, st)
      else (let tid = last (q_pending st);
                h = AList.delete ''pending_since'' (hset_all [(''state'', ''active'')] (q_tasks st tid))
            in (map_of h ''msg'',
                st\<lparr>q_pending := butlast (q_pending st), q_active := tid # q_active st,
                   q_tasks := (q_tasks st)(tid := h), q_lease := zadd expires tid (q_lease st)\<rparr>)))"

definition s_release :: "string \<Rightarrow> queue_state \<Rightarrow> queue_state" where
  "s_release tid st =
     st\<lparr>q_active := removeAll tid (q_active st), q_lease := zrem tid (q_lease st)\<rparr>"

definition holds_lease :: "queue_state \<Rightarrow> string \<Rightarrow> bool" where
  "holds_lease st tid \<longleftrightarrow> tid \<in> set (q_active st) \<and> tid \<in> set (zmembers (q_lease st))"

definition s_done :: "string \<Rightarrow> queue_state \<Rightarrow> queue_state" where
  "s_done tid st = drop_task tid (s_release tid st)"

definition s_complete :: "string \<Rightarrow> int \<Rightarrow> string \<Rightarrow> queue_state \<Rightarrow> queue_state" where
  "s_complete tid expire_at msg st =
     put_fields tid [(''msg'', msg), (''state'', ''completed'')]
       ((s_release tid st)\<lparr>q_completed := zadd expire_at tid (q_completed st)\<rparr>)"

definition s_requeue :: "string \<Rightarrow> queue_state \<Rightarrow> queue_state" where
  "s_requeue tid st =
     put_fields tid [(''state'', ''pending'')] ((s_release tid st)\<lparr>q_pending := q_pending st @ [tid]\<rparr>)"

definition s_retry :: "string \<Rightarrow> int \<Rightarrow> string \<Rightarrow> queue_state \<Rightarrow> queue_state" where
  "s_retry tid retry_at msg st =
     put_fields tid [(''msg'', msg), (''state'', ''retry'')]
       ((s_release tid st)\<lparr>q_retry := zadd retry_at tid (q_retry st)\<rparr>)"

definition s_trim :: "string list \<Rightarrow> queue_state \<Rightarrow> queue_state" where
  "s_trim ids st =
     st\<lparr>q_archived := zrem_all ids (q_archived st),
        q_tasks := (\<lambda>i. if i \<in> set ids then [] else q_tasks st i)\<rparr>"

definition archive_old :: "int \<Rightarrow> queue_state \<Rightarrow> string list" where
  "archive_old cutoff st = zrange_le cutoff (q_archived st)"

definition archive_extra :: "int \<Rightarrow> queue_state \<Rightarrow> string list" where
  "archive_extra max_size st = zrange_idx 0 (- max_size) (q_archived st)"

definition s_archive :: "string \<Rightarrow> int \<Rightarrow> int \<Rightarrow> int \<Rightarrow> string \<Rightarrow> queue_state \<Rightarrow> queue_state" where
  "s_archive tid died_at cutoff max_size msg st =
     (let st1 = (s_release tid st)\<lparr>q_archived := zadd died_at tid (q_archived st)\<rparr>;
          st2 = s_trim (archive_old cutoff st1) st1;
          st3 = s_trim (archive_extra max_size st2) st2
      in put_fields tid [(''msg'', msg), (''state'', ''archived'')] st3)"

datatype delayed = From_scheduled | From_retry

fun get_delayed :: "delayed \<Rightarrow> queue_state \<Rightarrow> zset" where
  "get_delayed From_scheduled st = q_scheduled st"
| "get_delayed From_retry st = q_retry st"

fun set_delayed :: "delayed \<Rightarrow> zset \<Rightarrow> queue_state \<Rightarrow> queue_state" where
  "set_delayed From_scheduled z st = st\<lparr>q_scheduled := z\<rparr>"
| "set_delayed From_retry z st = st\<lparr>q_retry := z\<rparr>"

fun delayed_state :: "delayed \<Rightarrow> TaskState" where
  "delayed_state From_scheduled = TaskStateScheduled"
| "delayed_state From_retry = TaskStateRetry"

definition s_forward1 :: "delayed \<Rightarrow> int \<Rightarrow> string \<Rightarrow> queue_state \<Rightarrow> queue_state" where
  "s_forward1 d now_ns tid st =
     put_fields tid [(''state'', ''pending''), (''pending_since'', show_int now_ns)]
       (set_delayed d (zrem tid (get_delayed d st)) (st\<lparr>q_pending := tid # q_pending st\<rparr>))"

definition due :: "delayed \<Rightarrow> int \<Rightarrow> queue_state \<Rightarrow> string list" where
  "due d now st = zrange_le now (get_delayed d st)"

definition s_forward :: "delayed \<Rightarrow> int \<Rightarrow> int \<Rightarrow> queue_state \<Rightarrow> queue_state" where
  "s_forward d now now_ns st = fold (s_forward1 d now_ns) (take 100 (due d now st)) st"

definition s_expire1 :: "string \<Rightarrow> queue_state \<Rightarrow> queue_state" where
  "s_expire1 tid st = (drop_task tid st)\<lparr>q_completed := zrem tid (q_completed st)\<rparr>"

definition s_expire :: "int \<Rightarrow> int \<Rightarrow> queue_state \<Rightarrow> queue_state" where
  "s_expire now batch st =
     fold s_expire1 (limit (Some (0, batch)) (zrange_le now (q_completed st))) st"

definition s_extend :: "(int \<times> string) list \<Rightarrow> queue_state \<Rightarrow> queue_state" where
  "s_extend ps st = st\<lparr>q_lease := zadd_xx ps (q_lease st)\<rparr>"

definition s_result :: "string \<Rightarrow> string \<Rightarrow> queue_state \<Rightarrow> queue_state" where
  "s_result tid data st = put_fields tid [(''result'', data)] st"

text \<open>
  The counters. A total that has reached the largest 64-bit integer, as far as the doubles
  of the script can tell, starts again at 1.
\<close>

definition total_full :: "int \<Rightarrow> bool" where
  "total_full n \<longleftrightarrow> to_double n = to_double max_int64"

definition s_count_done :: "queue_state \<Rightarrow> queue_state" where
  "s_count_done st =
     st\<lparr>q_daily := q_daily st + 1,
        q_processed := (if total_full (q_processed st) then 1 else q_processed st + 1)\<rparr>"

definition s_count_failed :: "queue_state \<Rightarrow> queue_state" where
  "s_count_failed st =
     st\<lparr>q_daily := q_daily st + 2,
        q_processed := (if total_full (q_processed st) then 1 else q_processed st + 1),
        q_failed := (if total_full (q_processed st) then 1 else q_failed st + 1)\<rparr>"

text \<open>Uniqueness locks: taken when free, given back by the task that holds them.\<close>

definition s_lock :: "string \<Rightarrow> string \<Rightarrow> queue_state \<Rightarrow> queue_state" where
  "s_lock u tid st = st\<lparr>q_locks := (q_locks st)(u := Some tid)\<rparr>"

definition s_unlock :: "string \<Rightarrow> string \<Rightarrow> queue_state \<Rightarrow> queue_state" where
  "s_unlock u tid st =
     (if q_locks st u = Some tid then st\<lparr>q_locks := (q_locks st)(u := None)\<rparr> else st)"

subsection \<open>The invariant\<close>

definition qtype_ok :: "queue_state \<Rightarrow> bool" where
  "qtype_ok st \<longleftrightarrow>
     zset_ok (q_scheduled st) \<and> zset_ok (q_retry st) \<and> zset_ok (q_archived st)
     \<and> zset_ok (q_completed st) \<and> zset_ok (q_lease st) \<and> (\<forall>i. distinct (map fst (q_tasks st i)))"

definition placed :: "queue_state \<Rightarrow> bool" where
  "placed st \<longleftrightarrow>
     (\<forall>s tid. tid \<in> in_state st s \<longrightarrow> state_of st tid = Some (TaskState_String s))"

definition not_lost :: "queue_state \<Rightarrow> bool" where
  "not_lost st \<longleftrightarrow>
     (\<forall>s tid. state_of st tid = Some (TaskState_String s) \<and> s \<noteq> TaskStateArchived
        \<longrightarrow> tid \<in> in_state st s)"

definition leased :: "queue_state \<Rightarrow> bool" where
  "leased st \<longleftrightarrow> set (zmembers (q_lease st)) = set (q_active st)"

definition has_msgs :: "queue_state \<Rightarrow> bool" where
  "has_msgs st \<longleftrightarrow> (\<forall>tid. state_of st tid \<noteq> None \<longrightarrow> field_of st tid ''msg'' \<noteq> None)"

definition qinv :: "queue_state \<Rightarrow> bool" where
  "qinv st \<longleftrightarrow> qtype_ok st \<and> distinct (q_pending st) \<and> distinct (q_active st)
     \<and> placed st \<and> not_lost st \<and> leased st \<and> has_msgs st"

lemma TaskState_String_inject [simp]: "TaskState_String s = TaskState_String t \<longleftrightarrow> s = t"
  by (cases s; cases t) simp_all

lemma placedD: "placed st \<Longrightarrow> tid \<in> in_state st s \<Longrightarrow> state_of st tid = Some (TaskState_String s)"
  by (simp add: placed_def)

lemma not_lostD:
  "not_lost st \<Longrightarrow> state_of st tid = Some (TaskState_String s) \<Longrightarrow> s \<noteq> TaskStateArchived \<Longrightarrow>
   tid \<in> in_state st s"
  by (simp add: not_lost_def)

lemma placed_unique:
  assumes "placed st" and "tid \<in> in_state st s" and "tid \<in> in_state st t"
  shows "s = t"
  using placedD [OF assms(1,2)] placedD [OF assms(1,3)] by simp

lemma placed_absent:
  assumes "placed st" and "q_tasks st tid = []"
  shows "tid \<notin> in_state st s"
  using placedD [OF assms(1), of tid s] assms(2) by (auto simp: state_of_def field_of_def)

text \<open>
  Moving one task to the state \<open>o\<close>, or out of the queue when \<open>o\<close> is \<open>None\<close>: what every
  operation does, possibly several times.
\<close>

lemma placed_move:
  assumes "placed st"
    and "\<And>s. in_state st' s \<subseteq> (if ns = Some s then insert tid (in_state st s) else in_state st s - {tid})"
    and "\<And>i. state_of st' i = (if i = tid then map_option TaskState_String ns else state_of st i)"
  shows "placed st'"
  unfolding placed_def
proof (intro allI impI)
  fix s i
  assume i: "i \<in> in_state st' s"
  have "i \<in> (if ns = Some s then insert tid (in_state st s) else in_state st s - {tid})"
    using assms(2) [of s] i by blast
  then show "state_of st' i = Some (TaskState_String s)"
    using placedD [OF assms(1), of i s] assms(3) [of i] by (auto split: if_splits)
qed

lemma not_lost_move:
  assumes "not_lost st"
    and "\<And>s. s \<noteq> TaskStateArchived \<Longrightarrow>
      in_state st s - {tid} \<subseteq> in_state st' s \<and> (ns = Some s \<longrightarrow> tid \<in> in_state st' s)"
    and "\<And>i. state_of st' i = (if i = tid then map_option TaskState_String ns else state_of st i)"
  shows "not_lost st'"
  unfolding not_lost_def
proof (intro allI impI)
  fix s i
  assume a: "state_of st' i = Some (TaskState_String s) \<and> s \<noteq> TaskStateArchived"
  show "i \<in> in_state st' s"
  proof (cases "i = tid")
    case True
    with a assms(3) [of i] have "ns = Some s" by (cases ns) auto
    then show ?thesis using assms(2) [of s] a True by auto
  next
    case False
    with a assms(3) [of i] have "i \<in> in_state st s"
      by (intro not_lostD [OF assms(1)]) auto
    then show ?thesis using assms(2) [of s] a False by auto
  qed
qed

lemma put_fields_simps [simp]:
  "q_pending (put_fields tid ps st) = q_pending st" "q_active (put_fields tid ps st) = q_active st"
  "q_scheduled (put_fields tid ps st) = q_scheduled st" "q_retry (put_fields tid ps st) = q_retry st"
  "q_archived (put_fields tid ps st) = q_archived st"
  "q_completed (put_fields tid ps st) = q_completed st"
  "q_lease (put_fields tid ps st) = q_lease st" "q_paused (put_fields tid ps st) = q_paused st"
  "q_processed (put_fields tid ps st) = q_processed st" "q_failed (put_fields tid ps st) = q_failed st" "q_daily (put_fields tid ps st) = q_daily st" "q_locks (put_fields tid ps st) = q_locks st"
  "q_tasks (put_fields tid ps st) = (q_tasks st)(tid := hset_all ps (q_tasks st tid))"
  by (simp_all add: put_fields_def)

lemma drop_task_simps [simp]:
  "q_pending (drop_task tid st) = q_pending st" "q_active (drop_task tid st) = q_active st"
  "q_scheduled (drop_task tid st) = q_scheduled st" "q_retry (drop_task tid st) = q_retry st"
  "q_archived (drop_task tid st) = q_archived st" "q_completed (drop_task tid st) = q_completed st"
  "q_lease (drop_task tid st) = q_lease st" "q_paused (drop_task tid st) = q_paused st"
  "q_processed (drop_task tid st) = q_processed st" "q_failed (drop_task tid st) = q_failed st" "q_daily (drop_task tid st) = q_daily st" "q_locks (drop_task tid st) = q_locks st"
  "q_tasks (drop_task tid st) = (q_tasks st)(tid := [])"
  by (simp_all add: drop_task_def)

lemma s_release_simps [simp]:
  "q_pending (s_release tid st) = q_pending st"
  "q_active (s_release tid st) = removeAll tid (q_active st)"
  "q_scheduled (s_release tid st) = q_scheduled st" "q_retry (s_release tid st) = q_retry st"
  "q_archived (s_release tid st) = q_archived st" "q_completed (s_release tid st) = q_completed st"
  "q_lease (s_release tid st) = zrem tid (q_lease st)" "q_paused (s_release tid st) = q_paused st"
  "q_processed (s_release tid st) = q_processed st" "q_failed (s_release tid st) = q_failed st" "q_daily (s_release tid st) = q_daily st" "q_locks (s_release tid st) = q_locks st"
  "q_tasks (s_release tid st) = q_tasks st"
  by (simp_all add: s_release_def)

lemma field_of_upd:
  "q_tasks st' = (q_tasks st)(tid := hset_all ps (q_tasks st tid)) \<Longrightarrow>
   field_of st' i f =
     (if i = tid then (case map_of (rev ps) f of None \<Rightarrow> field_of st i f | Some v \<Rightarrow> Some v)
      else field_of st i f)"
  by (auto simp: field_of_def map_of_hset_all map_add_def split: option.split)

lemma qinv_move:
  assumes inv: "qinv st"
    and ty: "qtype_ok st'" and dp: "distinct (q_pending st')" and da: "distinct (q_active st')"
    and le: "set (zmembers (q_lease st')) = set (q_active st')"
    and cont: "\<And>s. in_state st' s =
      (if ns = Some s then insert tid (in_state st s) else in_state st s - {tid})"
    and state: "\<And>i. state_of st' i = (if i = tid then map_option TaskState_String ns else state_of st i)"
    and msg: "\<And>i. i \<noteq> tid \<Longrightarrow> field_of st' i ''msg'' = field_of st i ''msg''"
    and msg': "ns \<noteq> None \<Longrightarrow> field_of st' tid ''msg'' \<noteq> None"
  shows "qinv st'"
proof -
  have "placed st'"
    by (rule placed_move [where st = st and ns = ns and tid = tid])
       (use inv cont state in \<open>auto simp: qinv_def\<close>)
  moreover have "not_lost st'"
    by (rule not_lost_move [where st = st and ns = ns and tid = tid])
       (use inv cont state in \<open>auto simp: qinv_def\<close>)
  moreover have "has_msgs st'"
    unfolding has_msgs_def
  proof (intro allI impI)
    fix i
    assume "state_of st' i \<noteq> None"
    then show "field_of st' i ''msg'' \<noteq> None"
      using state [of i] msg [of i] msg' inv by (cases "i = tid") (auto simp: qinv_def has_msgs_def)
  qed
  ultimately show ?thesis using ty dp da le by (simp add: qinv_def leased_def)
qed

lemma in_state_disjoint:
  assumes "qinv st" and "tid \<in> in_state st s" and "t \<noteq> s"
  shows "tid \<notin> in_state st t"
  using assms placed_unique [of st tid s t] by (auto simp: qinv_def)

lemma qtype_ok_put_fields: "qtype_ok st \<Longrightarrow> qtype_ok (put_fields tid ps st)"
  by (simp add: qtype_ok_def distinct_hset_all)

lemma qinv_parts:
  assumes "qinv st"
  shows "qtype_ok st" "distinct (q_pending st)" "distinct (q_active st)" "placed st" "not_lost st"
    "leased st" "has_msgs st" "set (zmembers (q_lease st)) = set (q_active st)"
  using assms by (simp_all add: qinv_def leased_def)

lemma qinv_msg: "qinv st \<Longrightarrow> tid \<in> in_state st s \<Longrightarrow> field_of st tid ''msg'' \<noteq> None"
  using placedD [of st tid s] by (simp add: qinv_def has_msgs_def)

subsection \<open>Every operation keeps the invariant\<close>

lemma qinv_empty: "qinv empty_queue"
proof -
  have "in_state empty_queue s = {}" for s by (cases s) (simp_all add: empty_queue_def)
  moreover have "state_of empty_queue i = None" for i
    by (simp add: state_of_def field_of_def empty_queue_def)
  ultimately show ?thesis
    by (simp add: qinv_def qtype_ok_def placed_def not_lost_def leased_def has_msgs_def)
       (simp add: empty_queue_def)
qed

lemma qinv_s_enqueue:
  assumes inv: "qinv st" and new: "q_tasks st tid = []"
    and ex: "''state'' \<notin> fst ` set extra" "''msg'' \<notin> fst ` set extra"
  shows "qinv (s_enqueue msg tid now extra st)"
proof (rule qinv_move [OF inv, where tid = tid and ns = "Some TaskStatePending"])
  note out = placed_absent [OF qinv_parts(4) [OF inv] new]
  have e: "map_of (rev extra) ''state'' = None" "map_of (rev extra) ''msg'' = None"
    using ex by (auto simp: map_of_eq_None_iff)
  show "qtype_ok (s_enqueue msg tid now extra st)"
    using qinv_parts(1) [OF inv] by (simp add: s_enqueue_def qtype_ok_def distinct_hset_all)
  show "distinct (q_pending (s_enqueue msg tid now extra st))"
    using qinv_parts(2) [OF inv] out [of TaskStatePending] by (simp add: s_enqueue_def)
  show "distinct (q_active (s_enqueue msg tid now extra st))"
    "set (zmembers (q_lease (s_enqueue msg tid now extra st))) = set (q_active (s_enqueue msg tid now extra st))"
    using qinv_parts(3,8) [OF inv] by (simp_all add: s_enqueue_def)
  show "in_state (s_enqueue msg tid now extra st) s =
      (if Some TaskStatePending = Some s then insert tid (in_state st s) else in_state st s - {tid})" for s
    using out [of s] by (cases s) (simp_all add: s_enqueue_def)
  show "state_of (s_enqueue msg tid now extra st) i =
      (if i = tid then map_option TaskState_String (Some TaskStatePending) else state_of st i)" for i
    by (simp add: s_enqueue_def state_of_def field_of_def map_of_hset_all map_add_def e)
  show "i \<noteq> tid \<Longrightarrow> field_of (s_enqueue msg tid now extra st) i ''msg'' = field_of st i ''msg''" for i
    by (simp add: s_enqueue_def field_of_def)
  show "field_of (s_enqueue msg tid now extra st) tid ''msg'' \<noteq> None"
    by (simp add: s_enqueue_def field_of_def map_of_hset_all map_add_def e)
qed

lemma qinv_s_schedule:
  assumes inv: "qinv st" and new: "q_tasks st tid = []"
    and ex: "''state'' \<notin> fst ` set extra" "''msg'' \<notin> fst ` set extra"
  shows "qinv (s_schedule msg tid process_at extra st)" (is "qinv ?st'")
proof (rule qinv_move [OF inv, where tid = tid and ns = "Some TaskStateScheduled"])
  note out = placed_absent [OF qinv_parts(4) [OF inv] new]
  have e: "map_of (rev extra) ''state'' = None" "map_of (rev extra) ''msg'' = None"
    using ex by (auto simp: map_of_eq_None_iff)
  show "qtype_ok ?st'"
    using qinv_parts(1) [OF inv] by (simp add: s_schedule_def qtype_ok_def distinct_hset_all)
  show "distinct (q_pending ?st')" "distinct (q_active ?st')"
    "set (zmembers (q_lease ?st')) = set (q_active ?st')"
    using qinv_parts(2,3,8) [OF inv] by (simp_all add: s_schedule_def)
  show "in_state ?st' s =
      (if Some TaskStateScheduled = Some s then insert tid (in_state st s) else in_state st s - {tid})" for s
    using out [of s] by (cases s) (simp_all add: s_schedule_def)
  show "state_of ?st' i =
      (if i = tid then map_option TaskState_String (Some TaskStateScheduled) else state_of st i)" for i
    by (simp add: s_schedule_def state_of_def field_of_def map_of_hset_all map_add_def e)
  show "i \<noteq> tid \<Longrightarrow> field_of ?st' i ''msg'' = field_of st i ''msg''" for i
    by (simp add: s_schedule_def field_of_def)
  show "field_of ?st' tid ''msg'' \<noteq> None"
    by (simp add: s_schedule_def field_of_def map_of_hset_all map_add_def e)
qed

lemma s_dequeue_Some:
  assumes "\<not> q_paused st" and "q_pending st \<noteq> []"
  shows "s_dequeue expires st =
    (field_of st (last (q_pending st)) ''msg'',
     st\<lparr>q_pending := butlast (q_pending st), q_active := last (q_pending st) # q_active st,
        q_tasks := (q_tasks st)(last (q_pending st) :=
          AList.delete ''pending_since'' (hset_all [(''state'', ''active'')] (q_tasks st (last (q_pending st))))),
        q_lease := zadd expires (last (q_pending st)) (q_lease st)\<rparr>)"
  using assms
  by (simp add: s_dequeue_def Let_def field_of_def delete_conv' map_of_hset_all map_add_def)

lemma qinv_s_dequeue:
  assumes inv: "qinv st"
  shows "qinv (snd (s_dequeue expires st))" (is "qinv ?st'")
proof (cases "q_paused st \<or> q_pending st = []")
  case True
  then show ?thesis using inv by (simp add: s_dequeue_def)
next
  case False
  define tid where "tid = last (q_pending st)"
  have ne: "\<not> q_paused st" "q_pending st \<noteq> []" using False by auto
  note eq = s_dequeue_Some [OF ne, folded tid_def]
  have mem: "tid \<in> in_state st TaskStatePending" using ne by (simp add: tid_def)
  note out = in_state_disjoint [OF inv mem]
  have bl: "set (butlast (q_pending st)) = set (q_pending st) - {tid}"
    using set_butlast_distinct [OF qinv_parts(2) [OF inv] ne(2)] by (simp add: tid_def)
  show ?thesis
  proof (rule qinv_move [OF inv, where tid = tid and ns = "Some TaskStateActive"])
    show "qtype_ok ?st'"
      using qinv_parts(1) [OF inv]
      by (simp add: eq qtype_ok_def distinct_hset_all distinct_delete)
    show "distinct (q_pending ?st')"
      using qinv_parts(2) [OF inv] by (simp add: eq distinct_butlast)
    show "distinct (q_active ?st')"
      using qinv_parts(3) [OF inv] out [of TaskStateActive] by (simp add: eq)
    show "set (zmembers (q_lease ?st')) = set (q_active ?st')"
      using qinv_parts(8) [OF inv] by (simp add: eq)
    show "in_state ?st' s =
      (if Some TaskStateActive = Some s then insert tid (in_state st s) else in_state st s - {tid})" for s
      using out [of s] by (cases s) (simp_all add: eq bl)
    show "state_of ?st' i =
      (if i = tid then map_option TaskState_String (Some TaskStateActive) else state_of st i)" for i
      by (simp add: eq state_of_def field_of_def delete_conv' map_of_hset_all map_add_def)
    show "i \<noteq> tid \<Longrightarrow> field_of ?st' i ''msg'' = field_of st i ''msg''" for i
      by (simp add: eq field_of_def)
    show "field_of ?st' tid ''msg'' \<noteq> None"
      using qinv_msg [OF inv mem]
      by (simp add: eq field_of_def delete_conv' map_of_hset_all map_add_def)
  qed
qed

lemma qinv_s_done:
  assumes inv: "qinv st" and act: "tid \<in> set (q_active st)"
  shows "qinv (s_done tid st)" (is "qinv ?st'")
proof (rule qinv_move [OF inv, where tid = tid and ns = None])
  have "tid \<in> in_state st TaskStateActive" using act by simp
  note out = in_state_disjoint [OF inv this]
  show "qtype_ok ?st'" using qinv_parts(1) [OF inv] by (simp add: s_done_def qtype_ok_def)
  show "distinct (q_pending ?st')" "distinct (q_active ?st')"
    "set (zmembers (q_lease ?st')) = set (q_active ?st')"
    using qinv_parts(2,3,8) [OF inv] by (simp_all add: s_done_def distinct_removeAll)
  show "in_state ?st' s =
      (if None = Some s then insert tid (in_state st s) else in_state st s - {tid})" for s
    using out [of s] by (cases s) (simp_all add: s_done_def)
  show "state_of ?st' i = (if i = tid then map_option TaskState_String None else state_of st i)" for i
    by (simp add: s_done_def state_of_def field_of_def)
  show "i \<noteq> tid \<Longrightarrow> field_of ?st' i ''msg'' = field_of st i ''msg''" for i
    by (simp add: s_done_def field_of_def)
qed simp

lemma qinv_s_complete:
  assumes inv: "qinv st" and act: "tid \<in> set (q_active st)"
  shows "qinv (s_complete tid expire_at msg st)" (is "qinv ?st'")
proof (rule qinv_move [OF inv, where tid = tid and ns = "Some TaskStateCompleted"])
  have "tid \<in> in_state st TaskStateActive" using act by simp
  note out = in_state_disjoint [OF inv this]
  show "qtype_ok ?st'"
    using qinv_parts(1) [OF inv] by (simp add: s_complete_def qtype_ok_def distinct_hset_all)
  show "distinct (q_pending ?st')" "distinct (q_active ?st')"
    "set (zmembers (q_lease ?st')) = set (q_active ?st')"
    using qinv_parts(2,3,8) [OF inv] by (simp_all add: s_complete_def distinct_removeAll)
  show "in_state ?st' s =
      (if Some TaskStateCompleted = Some s then insert tid (in_state st s) else in_state st s - {tid})" for s
    using out [of s] by (cases s) (simp_all add: s_complete_def)
  show "state_of ?st' i =
      (if i = tid then map_option TaskState_String (Some TaskStateCompleted) else state_of st i)" for i
    by (simp add: s_complete_def state_of_def field_of_def map_of_hset_all map_add_def)
  show "i \<noteq> tid \<Longrightarrow> field_of ?st' i ''msg'' = field_of st i ''msg''" for i
    by (simp add: s_complete_def field_of_def)
  show "field_of ?st' tid ''msg'' \<noteq> None"
    by (simp add: s_complete_def field_of_def map_of_hset_all map_add_def)
qed

lemma qinv_s_requeue:
  assumes inv: "qinv st" and act: "tid \<in> set (q_active st)"
  shows "qinv (s_requeue tid st)" (is "qinv ?st'")
proof (rule qinv_move [OF inv, where tid = tid and ns = "Some TaskStatePending"])
  have mem: "tid \<in> in_state st TaskStateActive" using act by simp
  note out = in_state_disjoint [OF inv mem]
  show "qtype_ok ?st'"
    using qinv_parts(1) [OF inv] by (simp add: s_requeue_def qtype_ok_def distinct_hset_all)
  show "distinct (q_pending ?st')"
    using qinv_parts(2) [OF inv] out [of TaskStatePending] by (simp add: s_requeue_def)
  show "distinct (q_active ?st')" "set (zmembers (q_lease ?st')) = set (q_active ?st')"
    using qinv_parts(3,8) [OF inv] by (simp_all add: s_requeue_def distinct_removeAll)
  show "in_state ?st' s =
      (if Some TaskStatePending = Some s then insert tid (in_state st s) else in_state st s - {tid})" for s
    using out [of s] by (cases s) (simp_all add: s_requeue_def)
  show "state_of ?st' i =
      (if i = tid then map_option TaskState_String (Some TaskStatePending) else state_of st i)" for i
    by (simp add: s_requeue_def state_of_def field_of_def map_of_hset_all map_add_def)
  show "i \<noteq> tid \<Longrightarrow> field_of ?st' i ''msg'' = field_of st i ''msg''" for i
    by (simp add: s_requeue_def field_of_def)
  show "field_of ?st' tid ''msg'' \<noteq> None"
    using qinv_msg [OF inv mem] by (simp add: s_requeue_def field_of_def map_of_hset_all map_add_def)
qed

lemma qinv_s_retry:
  assumes inv: "qinv st" and act: "tid \<in> set (q_active st)"
  shows "qinv (s_retry tid retry_at msg st)" (is "qinv ?st'")
proof (rule qinv_move [OF inv, where tid = tid and ns = "Some TaskStateRetry"])
  have "tid \<in> in_state st TaskStateActive" using act by simp
  note out = in_state_disjoint [OF inv this]
  show "qtype_ok ?st'"
    using qinv_parts(1) [OF inv] by (simp add: s_retry_def qtype_ok_def distinct_hset_all)
  show "distinct (q_pending ?st')" "distinct (q_active ?st')"
    "set (zmembers (q_lease ?st')) = set (q_active ?st')"
    using qinv_parts(2,3,8) [OF inv] by (simp_all add: s_retry_def distinct_removeAll)
  show "in_state ?st' s =
      (if Some TaskStateRetry = Some s then insert tid (in_state st s) else in_state st s - {tid})" for s
    using out [of s] by (cases s) (simp_all add: s_retry_def)
  show "state_of ?st' i =
      (if i = tid then map_option TaskState_String (Some TaskStateRetry) else state_of st i)" for i
    by (simp add: s_retry_def state_of_def field_of_def map_of_hset_all map_add_def)
  show "i \<noteq> tid \<Longrightarrow> field_of ?st' i ''msg'' = field_of st i ''msg''" for i
    by (simp add: s_retry_def field_of_def)
  show "field_of ?st' tid ''msg'' \<noteq> None"
    by (simp add: s_retry_def field_of_def map_of_hset_all map_add_def)
qed

text \<open>
  Archiving: the move itself, the two trims, and the hash written last. When the trims
  removed the task's own entry, the hash is all that is left of it.
\<close>

lemma set_zmembers_zrem_all [simp]: "set (zmembers (zrem_all ids z)) = set (zmembers z) - set ids"
  by (auto simp: zrem_all_def zmembers_def)

lemma zset_ok_zrem_all [simp]: "zset_ok z \<Longrightarrow> zset_ok (zrem_all ids z)"
  by (simp add: zrem_all_def zset_ok_filter)

lemma s_trim_simps [simp]:
  "q_pending (s_trim ids st) = q_pending st" "q_active (s_trim ids st) = q_active st"
  "q_scheduled (s_trim ids st) = q_scheduled st" "q_retry (s_trim ids st) = q_retry st"
  "q_archived (s_trim ids st) = zrem_all ids (q_archived st)"
  "q_completed (s_trim ids st) = q_completed st" "q_lease (s_trim ids st) = q_lease st"
  "q_paused (s_trim ids st) = q_paused st"
  "q_tasks (s_trim ids st) i = (if i \<in> set ids then [] else q_tasks st i)"
  by (simp_all add: s_trim_def)

lemma qinv_s_trim:
  assumes inv: "qinv st" and sub: "set ids \<subseteq> set (zmembers (q_archived st))"
  shows "qinv (s_trim ids st)" (is "qinv ?st'")
proof -
  have state: "state_of ?st' i = (if i \<in> set ids then None else state_of st i)" for i
    by (simp add: state_of_def field_of_def)
  have out: "i \<in> set ids \<Longrightarrow> s \<noteq> TaskStateArchived \<Longrightarrow> i \<notin> in_state st s" for i s
    using sub by (intro in_state_disjoint [OF inv, where s = TaskStateArchived]) auto
  have cont: "in_state ?st' s = in_state st s - set ids" for s
    using out [where s = s] by (cases s) auto
  have "placed ?st'"
    unfolding placed_def
  proof (intro allI impI)
    fix s i
    assume "i \<in> in_state ?st' s"
    then show "state_of ?st' i = Some (TaskState_String s)"
      using placedD [OF qinv_parts(4) [OF inv], of i s] by (simp add: cont state)
  qed
  moreover have "not_lost ?st'"
    unfolding not_lost_def
  proof (intro allI impI)
    fix s i
    assume a: "state_of ?st' i = Some (TaskState_String s) \<and> s \<noteq> TaskStateArchived"
    then have "i \<notin> set ids" by (auto simp: state)
    then show "i \<in> in_state ?st' s"
      using a not_lostD [OF qinv_parts(5) [OF inv], of i s] by (simp add: cont state)
  qed
  moreover have "has_msgs ?st'"
    using qinv_parts(7) [OF inv] state
    by (auto simp: has_msgs_def field_of_def split: if_splits)
  moreover have "qtype_ok ?st'"
    using qinv_parts(1) [OF inv] by (simp add: qtype_ok_def)
  ultimately show ?thesis
    using qinv_parts [OF inv] by (simp add: qinv_def leased_def)
qed

lemma qinv_archived_hash:
  assumes inv: "qinv st" and none: "q_tasks st tid = []"
  shows "qinv (put_fields tid [(''msg'', msg), (''state'', ''archived'')] st)" (is "qinv ?st'")
proof -
  note out = placed_absent [OF qinv_parts(4) [OF inv] none]
  have cont: "in_state ?st' s = in_state st s" for s by (cases s) simp_all
  have state: "state_of ?st' i = (if i = tid then Some ''archived'' else state_of st i)" for i
    by (simp add: state_of_def field_of_def map_of_hset_all map_add_def)
  have "placed ?st'"
    using qinv_parts(4) [OF inv] out by (simp add: placed_def cont state)
  moreover have "not_lost ?st'"
    unfolding not_lost_def
  proof (intro allI impI)
    fix s i
    assume a: "state_of ?st' i = Some (TaskState_String s) \<and> s \<noteq> TaskStateArchived"
    then have "i \<noteq> tid" by (cases s) (auto simp: state)
    then show "i \<in> in_state ?st' s"
      using a not_lostD [OF qinv_parts(5) [OF inv], of i s] by (simp add: cont state)
  qed
  moreover have "has_msgs ?st'"
    using qinv_parts(7) [OF inv]
    by (auto simp: has_msgs_def state field_of_def map_of_hset_all map_add_def)
  ultimately show ?thesis
    using qinv_parts [OF inv] by (simp add: qinv_def leased_def qtype_ok_put_fields)
qed

lemma set_zrange_le_sub: "set (zrange_le mx z) \<subseteq> set (zmembers z)"
  by (auto simp: zrange_le_def zmembers_def)

lemma set_zrange_idx_sub: "set (zrange_idx i j z) \<subseteq> set (zmembers z)"
  unfolding zrange_idx_def Let_def zmembers_def
  by (auto split: if_splits dest!: in_set_takeD in_set_dropD)

lemma qinv_s_archive:
  assumes inv: "qinv st" and act: "tid \<in> set (q_active st)"
  shows "qinv (s_archive tid died_at cutoff max_size msg st)"
proof -
  define F where "F = [(''msg'', msg), (''state'', ''archived'')]"
  define st1 where "st1 = (s_release tid st)\<lparr>q_archived := zadd died_at tid (q_archived st)\<rparr>"
  define sa where "sa = put_fields tid F st1"
  define old where "old = archive_old cutoff st1"
  define extra where "extra = archive_extra max_size (s_trim old st1)"
  have "tid \<in> in_state st TaskStateActive" using act by simp
  note out = in_state_disjoint [OF inv this]
  have qa: "qinv sa"
  proof (rule qinv_move [OF inv, where tid = tid and ns = "Some TaskStateArchived"])
    show "qtype_ok sa"
      using qinv_parts(1) [OF inv] by (simp add: sa_def st1_def qtype_ok_def distinct_hset_all)
    show "distinct (q_pending sa)" "distinct (q_active sa)"
      "set (zmembers (q_lease sa)) = set (q_active sa)"
      using qinv_parts(2,3,8) [OF inv] by (simp_all add: sa_def st1_def distinct_removeAll)
    show "in_state sa s =
        (if Some TaskStateArchived = Some s then insert tid (in_state st s) else in_state st s - {tid})" for s
      using out [of s] by (cases s) (simp_all add: sa_def st1_def)
    show "state_of sa i =
        (if i = tid then map_option TaskState_String (Some TaskStateArchived) else state_of st i)" for i
      by (simp add: sa_def st1_def F_def state_of_def field_of_def map_of_hset_all map_add_def)
    show "i \<noteq> tid \<Longrightarrow> field_of sa i ''msg'' = field_of st i ''msg''" for i
      by (simp add: sa_def st1_def field_of_def)
    show "field_of sa tid ''msg'' \<noteq> None"
      by (simp add: sa_def st1_def F_def field_of_def map_of_hset_all map_add_def)
  qed
  have "set old \<subseteq> set (zmembers (q_archived sa))"
    using set_zrange_le_sub by (simp add: old_def archive_old_def sa_def)
  then have q1: "qinv (s_trim old sa)" by (rule qinv_s_trim [OF qa])
  have "set extra \<subseteq> set (zmembers (q_archived (s_trim old sa)))"
    using set_zrange_idx_sub [of 0 "- max_size" "zrem_all old (q_archived st1)"]
    by (simp add: extra_def archive_extra_def sa_def)
  then have q2: "qinv (s_trim extra (s_trim old sa))" by (rule qinv_s_trim [OF q1])
  have final: "s_archive tid died_at cutoff max_size msg st = put_fields tid F (s_trim extra (s_trim old st1))"
    by (simp add: s_archive_def Let_def F_def st1_def old_def extra_def)
  show ?thesis
  proof (cases "tid \<in> set old \<union> set extra")
    case True
    then have "s_trim extra (s_trim old sa) = s_trim extra (s_trim old st1)"
      by (auto simp: sa_def put_fields_def s_trim_def fun_eq_iff)
    moreover have "q_tasks (s_trim extra (s_trim old sa)) tid = []"
      using True by auto
    ultimately show ?thesis
      using qinv_archived_hash [OF q2, of tid msg] final by (simp add: F_def)
  next
    case False
    then have "put_fields tid F (s_trim extra (s_trim old st1)) = s_trim extra (s_trim old sa)"
      by (auto simp: sa_def put_fields_def s_trim_def fun_eq_iff)
    then show ?thesis using q2 final by simp
  qed
qed

text \<open>Forwarding and expiry repeat a single move over a list of different IDs.\<close>

lemma s_forward1_simps [simp]:
  "q_pending (s_forward1 d now tid st) = tid # q_pending st"
  "q_active (s_forward1 d now tid st) = q_active st"
  "q_archived (s_forward1 d now tid st) = q_archived st"
  "q_completed (s_forward1 d now tid st) = q_completed st"
  "q_lease (s_forward1 d now tid st) = q_lease st"
  "q_paused (s_forward1 d now tid st) = q_paused st"
  "get_delayed d (s_forward1 d now tid st) = zrem tid (get_delayed d st)"
  by (cases d; simp add: s_forward1_def)+

lemma qinv_s_forward1:
  assumes inv: "qinv st" and mem: "tid \<in> set (zmembers (get_delayed d st))"
  shows "qinv (s_forward1 d now tid st)" (is "qinv ?st'")
proof (rule qinv_move [OF inv, where tid = tid and ns = "Some TaskStatePending"])
  have mem': "tid \<in> in_state st (delayed_state d)" using mem by (cases d) auto
  note out = in_state_disjoint [OF inv mem']
  show "qtype_ok ?st'"
    using qinv_parts(1) [OF inv] by (cases d) (simp_all add: s_forward1_def qtype_ok_def distinct_hset_all)
  have "tid \<notin> set (q_pending st)" using out [of TaskStatePending] by (cases d) auto
  then show "distinct (q_pending ?st')"
    using qinv_parts(2) [OF inv] by simp
  show "distinct (q_active ?st')" "set (zmembers (q_lease ?st')) = set (q_active ?st')"
    using qinv_parts(3,8) [OF inv] by simp_all
  show "in_state ?st' s =
      (if Some TaskStatePending = Some s then insert tid (in_state st s) else in_state st s - {tid})" for s
    using out [of s] by (cases s; cases d) (auto simp: s_forward1_def)
  show "state_of ?st' i =
      (if i = tid then map_option TaskState_String (Some TaskStatePending) else state_of st i)" for i
    by (cases d) (simp_all add: s_forward1_def state_of_def field_of_def map_of_hset_all map_add_def)
  show "i \<noteq> tid \<Longrightarrow> field_of ?st' i ''msg'' = field_of st i ''msg''" for i
    by (cases d) (simp_all add: s_forward1_def field_of_def)
  show "field_of ?st' tid ''msg'' \<noteq> None"
    using qinv_msg [OF inv mem']
    by (cases d) (simp_all add: s_forward1_def field_of_def map_of_hset_all map_add_def)
qed

lemma qinv_fold_forward1:
  "qinv st \<Longrightarrow> distinct ids \<Longrightarrow> set ids \<subseteq> set (zmembers (get_delayed d st)) \<Longrightarrow>
   qinv (fold (s_forward1 d now) ids st)"
proof (induction ids arbitrary: st)
  case (Cons i ids)
  have "qinv (s_forward1 d now i st)"
    using Cons.prems by (intro qinv_s_forward1) auto
  moreover have "set ids \<subseteq> set (zmembers (get_delayed d (s_forward1 d now i st)))"
    using Cons.prems by auto
  ultimately show ?case using Cons by simp
qed simp

lemma distinct_zrange_le: "zset_ok z \<Longrightarrow> distinct (zrange_le mx z)"
  by (simp add: zrange_le_def zset_ok_def zmembers_def distinct_map_filter)

lemma zset_ok_get_delayed: "qinv st \<Longrightarrow> zset_ok (get_delayed d st)"
  by (cases d) (simp_all add: qinv_def qtype_ok_def)

lemma qinv_s_forward:
  assumes "qinv st"
  shows "qinv (s_forward d now now_ns st)"
  unfolding s_forward_def
proof (rule qinv_fold_forward1 [OF assms])
  show "distinct (take 100 (due d now st))"
    using assms by (simp add: due_def distinct_zrange_le zset_ok_get_delayed)
  show "set (take 100 (due d now st)) \<subseteq> set (zmembers (get_delayed d st))"
    using set_zrange_le_sub [of now "get_delayed d st"] set_take_subset [of 100 "due d now st"]
    by (auto simp: due_def)
qed

lemma qinv_s_expire1:
  assumes inv: "qinv st" and mem: "tid \<in> set (zmembers (q_completed st))"
  shows "qinv (s_expire1 tid st)" (is "qinv ?st'")
proof (rule qinv_move [OF inv, where tid = tid and ns = None])
  have "tid \<in> in_state st TaskStateCompleted" using mem by simp
  note out = in_state_disjoint [OF inv this]
  show "qtype_ok ?st'" using qinv_parts(1) [OF inv] by (simp add: s_expire1_def qtype_ok_def)
  show "distinct (q_pending ?st')" "distinct (q_active ?st')"
    "set (zmembers (q_lease ?st')) = set (q_active ?st')"
    using qinv_parts(2,3,8) [OF inv] by (simp_all add: s_expire1_def)
  show "in_state ?st' s =
      (if None = Some s then insert tid (in_state st s) else in_state st s - {tid})" for s
    using out [of s] by (cases s) (simp_all add: s_expire1_def)
  show "state_of ?st' i = (if i = tid then map_option TaskState_String None else state_of st i)" for i
    by (simp add: s_expire1_def state_of_def field_of_def)
  show "i \<noteq> tid \<Longrightarrow> field_of ?st' i ''msg'' = field_of st i ''msg''" for i
    by (simp add: s_expire1_def field_of_def)
qed simp

lemma qinv_fold_expire1:
  "qinv st \<Longrightarrow> distinct ids \<Longrightarrow> set ids \<subseteq> set (zmembers (q_completed st)) \<Longrightarrow>
   qinv (fold s_expire1 ids st)"
proof (induction ids arbitrary: st)
  case (Cons i ids)
  have "qinv (s_expire1 i st)"
    using Cons.prems by (intro qinv_s_expire1) auto
  moreover have "set ids \<subseteq> set (zmembers (q_completed (s_expire1 i st)))"
    using Cons.prems by (auto simp: s_expire1_def)
  ultimately show ?case using Cons by simp
qed simp

lemma set_limit_sub: "set (limit l xs) \<subseteq> set xs"
  by (auto simp: limit_def split: option.splits if_splits dest!: in_set_takeD in_set_dropD)

lemma distinct_limit: "distinct xs \<Longrightarrow> distinct (limit l xs)"
  by (auto simp: limit_def split: option.split)

lemma qinv_s_expire:
  assumes "qinv st"
  shows "qinv (s_expire now batch st)"
  unfolding s_expire_def
proof (rule qinv_fold_expire1 [OF assms])
  show "distinct (limit (Some (0, batch)) (zrange_le now (q_completed st)))"
    using qinv_parts(1) [OF assms] by (simp add: distinct_limit distinct_zrange_le qtype_ok_def)
  show "set (limit (Some (0, batch)) (zrange_le now (q_completed st)))
      \<subseteq> set (zmembers (q_completed st))"
    by (rule subset_trans [OF set_limit_sub set_zrange_le_sub])
qed

lemma zadd_xx_Nil [simp]: "zadd_xx [] z = z"
  by (simp add: zadd_xx_def)

lemma zadd_xx_Cons [simp]:
  "zadd_xx ((s, m) # ps) z = zadd_xx ps (if m \<in> set (zmembers z) then zadd s m z else z)"
  by (simp add: zadd_xx_def)

lemma set_zmembers_zadd_xx [simp]: "set (zmembers (zadd_xx ps z)) = set (zmembers z)"
proof (induction ps arbitrary: z)
  case (Cons p ps)
  then show ?case by (cases p) (simp add: insert_absorb)
qed simp

lemma zset_ok_zadd_xx [simp]: "zset_ok z \<Longrightarrow> zset_ok (zadd_xx ps z)"
proof (induction ps arbitrary: z)
  case (Cons p ps)
  then show ?case by (cases p) simp
qed simp

lemma qinv_same_places:
  assumes inv: "qinv st" and "qtype_ok st'"
    and "q_pending st' = q_pending st" "q_active st' = q_active st"
    and "\<And>s. in_state st' s = in_state st s"
    and "set (zmembers (q_lease st')) = set (zmembers (q_lease st))"
    and "\<And>i. state_of st' i = state_of st i" and "\<And>i. field_of st' i ''msg'' = field_of st i ''msg''"
  shows "qinv st'"
  using inv assms(2) unfolding qinv_def placed_def not_lost_def leased_def has_msgs_def assms(3-)
  by blast

lemma qinv_s_extend: "qinv st \<Longrightarrow> qinv (s_extend ps st)"
proof (rule qinv_same_places [where st = st])
  show "in_state (s_extend ps st) s = in_state st s" for s by (cases s) (simp_all add: s_extend_def)
qed (simp_all add: s_extend_def state_of_def field_of_def qinv_def qtype_ok_def)

lemma qinv_s_result: "qinv st \<Longrightarrow> qinv (s_result tid data st)"
proof (rule qinv_same_places [where st = st])
  show "in_state (s_result tid data st) s = in_state st s" for s
    by (cases s) (simp_all add: s_result_def)
qed (simp_all add: s_result_def state_of_def field_of_def qinv_def qtype_ok_def map_of_hset_all
    map_add_def distinct_hset_all)

lemma qinv_same_data:
  assumes "qinv st"
    and "q_pending st' = q_pending st" "q_active st' = q_active st" "q_scheduled st' = q_scheduled st"
    and "q_retry st' = q_retry st" "q_archived st' = q_archived st" "q_completed st' = q_completed st"
    and "q_lease st' = q_lease st" "q_tasks st' = q_tasks st"
  shows "qinv st'"
proof (rule qinv_same_places [OF assms(1)])
  show "in_state st' s = in_state st s" for s by (cases s) (simp_all add: assms)
  show "qtype_ok st'" using qinv_parts(1) [OF assms(1)] by (simp add: qtype_ok_def assms)
qed (simp_all add: assms state_of_def field_of_def)

lemma qinv_s_count_done: "qinv st \<Longrightarrow> qinv (s_count_done st)"
  by (rule qinv_same_data [of st]) (simp_all add: s_count_done_def)

lemma qinv_s_count_failed: "qinv st \<Longrightarrow> qinv (s_count_failed st)"
  by (rule qinv_same_data [of st]) (simp_all add: s_count_failed_def)

lemma qinv_s_lock: "qinv st \<Longrightarrow> qinv (s_lock u tid st)"
  by (rule qinv_same_data [of st]) (simp_all add: s_lock_def)

lemma qinv_s_unlock: "qinv st \<Longrightarrow> qinv (s_unlock u tid st)"
  by (rule qinv_same_data [of st]) (simp_all add: s_unlock_def)

end
