(* ===== verification/Representation.thy ===== *)
theory Representation
  imports Keys Scripts QueueModel
begin

text \<open>
  How a keyspace holds the abstract state of a queue, and how a program runs on it.
  \<open>qrep q db st\<close> says that the keys of queue \<open>q\<close> hold the state \<open>st\<close>: empty collections
  are absent keys, no key but the daily counters has an expiry. \<open>does q p st r st'\<close> says
  that the program \<open>p\<close>, run without interruption on any keyspace holding \<open>st\<close>, replies
  \<open>r\<close> and leaves \<open>st'\<close>. The rules in \<open>does_intros\<close> run a program one command at a time.
\<close>

subsection \<open>Representation\<close>

definition coll :: "rval \<Rightarrow> entry option" where
  "coll v = (if empty_coll v then None else Some (v, None))"

definition total_entry :: "int \<Rightarrow> entry option" where
  "total_entry n = (if n = 0 then None else Some (RStr (show_int n), None))"

definition daily_ok :: "int \<Rightarrow> entry option \<Rightarrow> bool" where
  "daily_ok b e \<longleftrightarrow>
     (case e of
        None \<Rightarrow> True
      | Some (v, _) \<Rightarrow> (case v of RStr s \<Rightarrow> (case read_int s of None \<Rightarrow> False | Some n \<Rightarrow> 1 \<le> n \<and> n \<le> b)
                              | _ \<Rightarrow> False))"

definition paused_ok :: "bool \<Rightarrow> entry option \<Rightarrow> bool" where
  "paused_ok b e \<longleftrightarrow> (case e of None \<Rightarrow> \<not> b | Some (_, t) \<Rightarrow> b \<and> t = None)"

fun entry_ok :: "queue_state \<Rightarrow> qkey \<Rightarrow> entry option \<Rightarrow> bool" where
  "entry_ok st KPending e \<longleftrightarrow> e = coll (RList (q_pending st))"
| "entry_ok st KActive e \<longleftrightarrow> e = coll (RList (q_active st))"
| "entry_ok st KScheduled e \<longleftrightarrow> e = coll (RZSet (q_scheduled st))"
| "entry_ok st KRetry e \<longleftrightarrow> e = coll (RZSet (q_retry st))"
| "entry_ok st KArchived e \<longleftrightarrow> e = coll (RZSet (q_archived st))"
| "entry_ok st KCompleted e \<longleftrightarrow> e = coll (RZSet (q_completed st))"
| "entry_ok st KLease e \<longleftrightarrow> e = coll (RZSet (q_lease st))"
| "entry_ok st KPaused e \<longleftrightarrow> paused_ok (q_paused st) e"
| "entry_ok st KProcessed e \<longleftrightarrow> 0 \<le> q_processed st \<and> e = total_entry (q_processed st)"
| "entry_ok st KFailed e \<longleftrightarrow> 0 \<le> q_failed st \<and> e = total_entry (q_failed st)"
| "entry_ok st (KTask i) e \<longleftrightarrow> e = coll (RHash (q_tasks st i))"
| "entry_ok st (KProcessedOn d) e \<longleftrightarrow> daily_ok (q_daily st) e"
| "entry_ok st (KFailedOn d) e \<longleftrightarrow> daily_ok (q_daily st) e"
| "entry_ok st (KUnique u) e \<longleftrightarrow> map_option fst e = map_option RStr (q_locks st u)"

definition qrep :: "string \<Rightarrow> keyspace \<Rightarrow> queue_state \<Rightarrow> bool" where
  "qrep q db st \<longleftrightarrow> (\<forall>k. entry_ok st k (lookup db (kname q k)))"

lemma qrepD: "qrep q db st \<Longrightarrow> entry_ok st k (lookup db (kname q k))"
  by (simp add: qrep_def)

lemma qrep_empty: "qrep q \<lparr>ents = [], srv_ms = t\<rparr> empty_queue"
  unfolding qrep_def
proof
  fix k
  show "entry_ok empty_queue k (lookup \<lparr>ents = [], srv_ms = t\<rparr> (kname q k))"
    by (cases k) (simp_all add: lookup_def empty_queue_def coll_def empty_coll_def total_entry_def daily_ok_def
        paused_ok_def)
qed

text \<open>Only the key that changed has to be looked at.\<close>

lemma qrep_update:
  assumes "qrep q db st"
    and "\<And>key. key \<noteq> kname q k \<Longrightarrow> lookup db' key = lookup db key"
    and "entry_ok st' k (lookup db' (kname q k))"
    and "\<And>k' e. k' \<noteq> k \<Longrightarrow> entry_ok st k' e \<Longrightarrow> entry_ok st' k' e"
  shows "qrep q db' st'"
  unfolding qrep_def
proof
  fix k'
  show "entry_ok st' k' (lookup db' (kname q k'))"
    using assms qrepD [OF assms(1)] by (cases "k' = k") auto
qed

lemma qrep_cong:
  assumes "qrep q db st" and "\<And>k. lookup db' (kname q k) = lookup db (kname q k)"
  shows "qrep q db' st"
  using assms by (simp add: qrep_def)

text \<open>The lists and the sorted sets of a queue by kind.\<close>

fun lval :: "qkey \<Rightarrow> queue_state \<Rightarrow> string list" where
  "lval KPending st = q_pending st"
| "lval KActive st = q_active st"
| "lval _ st = []"

fun set_lval :: "qkey \<Rightarrow> string list \<Rightarrow> queue_state \<Rightarrow> queue_state" where
  "set_lval KPending xs st = st\<lparr>q_pending := xs\<rparr>"
| "set_lval KActive xs st = st\<lparr>q_active := xs\<rparr>"
| "set_lval _ xs st = st"

fun zval :: "qkey \<Rightarrow> queue_state \<Rightarrow> zset" where
  "zval KScheduled st = q_scheduled st"
| "zval KRetry st = q_retry st"
| "zval KArchived st = q_archived st"
| "zval KCompleted st = q_completed st"
| "zval KLease st = q_lease st"
| "zval _ st = []"

fun set_zval :: "qkey \<Rightarrow> zset \<Rightarrow> queue_state \<Rightarrow> queue_state" where
  "set_zval KScheduled z st = st\<lparr>q_scheduled := z\<rparr>"
| "set_zval KRetry z st = st\<lparr>q_retry := z\<rparr>"
| "set_zval KArchived z st = st\<lparr>q_archived := z\<rparr>"
| "set_zval KCompleted z st = st\<lparr>q_completed := z\<rparr>"
| "set_zval KLease z st = st\<lparr>q_lease := z\<rparr>"
| "set_zval _ z st = st"

fun list_key :: "qkey \<Rightarrow> bool" where
  "list_key KPending = True"
| "list_key KActive = True"
| "list_key _ = False"

fun zset_key :: "qkey \<Rightarrow> bool" where
  "zset_key KScheduled = True"
| "zset_key KRetry = True"
| "zset_key KArchived = True"
| "zset_key KCompleted = True"
| "zset_key KLease = True"
| "zset_key _ = False"

fun daily_key :: "qkey \<Rightarrow> bool" where
  "daily_key (KProcessedOn _) = True"
| "daily_key (KFailedOn _) = True"
| "daily_key _ = False"

lemma lookup_list: "qrep q db st \<Longrightarrow> list_key k \<Longrightarrow> lookup db (kname q k) = coll (RList (lval k st))"
  using qrepD [of q db st k] by (cases k) simp_all

lemma lookup_zset: "qrep q db st \<Longrightarrow> zset_key k \<Longrightarrow> lookup db (kname q k) = coll (RZSet (zval k st))"
  using qrepD [of q db st k] by (cases k) simp_all

lemma lookup_task: "qrep q db st \<Longrightarrow> lookup db (kname q (KTask i)) = coll (RHash (q_tasks st i))"
  using qrepD [of q db st "KTask i"] by simp

lemma lookup_store_coll:
  "lookup db k = coll v \<Longrightarrow> lookup (store k w db) k = coll w"
  by (auto simp: lookup_store coll_def expiry_of_def split: if_splits)

lemma qrep_set_list:
  assumes "qrep q db st" and "list_key k"
  shows "qrep q (store (kname q k) (RList xs) db) (set_lval k xs st)"
proof (rule qrep_update [OF assms(1), where k = k])
  show "entry_ok (set_lval k xs st) k (lookup (store (kname q k) (RList xs) db) (kname q k))"
    using lookup_store_coll [OF lookup_list [OF assms]] assms(2) by (cases k) simp_all
  show "k' \<noteq> k \<Longrightarrow> entry_ok st k' e \<Longrightarrow> entry_ok (set_lval k xs st) k' e" for k' e
    using assms(2) by (cases k; cases k') simp_all
qed simp

lemma qrep_set_zset:
  assumes "qrep q db st" and "zset_key k"
  shows "qrep q (store (kname q k) (RZSet z) db) (set_zval k z st)"
proof (rule qrep_update [OF assms(1), where k = k])
  show "entry_ok (set_zval k z st) k (lookup (store (kname q k) (RZSet z) db) (kname q k))"
    using lookup_store_coll [OF lookup_zset [OF assms]] assms(2) by (cases k) simp_all
  show "k' \<noteq> k \<Longrightarrow> entry_ok st k' e \<Longrightarrow> entry_ok (set_zval k z st) k' e" for k' e
    using assms(2) by (cases k; cases k') simp_all
qed simp

definition set_task :: "string \<Rightarrow> (string \<times> string) list \<Rightarrow> queue_state \<Rightarrow> queue_state" where
  "set_task i h st = st\<lparr>q_tasks := (q_tasks st)(i := h)\<rparr>"

lemma entry_ok_set_task: "k' \<noteq> KTask i \<Longrightarrow> entry_ok (set_task i h st) k' e = entry_ok st k' e"
  by (cases k') (simp_all add: set_task_def)

lemma qrep_set_task:
  assumes "qrep q db st"
  shows "qrep q (store (kname q (KTask i)) (RHash h) db) (set_task i h st)"
proof (rule qrep_update [OF assms, where k = "KTask i"])
  show "entry_ok (set_task i h st) (KTask i)
      (lookup (store (kname q (KTask i)) (RHash h) db) (kname q (KTask i)))"
    using lookup_store_coll [OF lookup_task [OF assms]] by (simp add: set_task_def)
qed (simp_all add: entry_ok_set_task)

lemma qrep_drop_task:
  assumes "qrep q db st"
  shows "qrep q (remove (kname q (KTask i)) db) (drop_task i st)"
proof (rule qrep_update [OF assms, where k = "KTask i"])
  show "k' \<noteq> KTask i \<Longrightarrow> entry_ok st k' e \<Longrightarrow> entry_ok (drop_task i st) k' e" for k' e
    by (cases k') (simp_all add: drop_task_def)
qed (simp_all add: drop_task_def coll_def empty_coll_def)


subsection \<open>Running a program\<close>

definition does :: "string \<Rightarrow> reply prog \<Rightarrow> queue_state \<Rightarrow> reply \<Rightarrow> queue_state \<Rightarrow> bool" where
  "does q p st r st' \<longleftrightarrow>
     (\<forall>db. qrep q db st \<longrightarrow> fst (run p db) = r \<and> qrep q (snd (run p db)) st')"

lemma doesD:
  "does q p st r st' \<Longrightarrow> qrep q db st \<Longrightarrow> fst (run p db) = r"
  "does q p st r st' \<Longrightarrow> qrep q db st \<Longrightarrow> qrep q (snd (run p db)) st'"
  by (simp_all add: does_def)

lemma does_Ret: "r = r' \<Longrightarrow> st = st' \<Longrightarrow> does q (Ret r) st r' st'"
  by (simp add: does_def)

fun is_err :: "reply \<Rightarrow> bool" where
  "is_err (RErr _) = True"
| "is_err _ = False"

lemma run_call_ok:
  "\<not> is_err (fst (exec_cmd c db)) \<Longrightarrow> run (call c k) db = run (k (fst (exec_cmd c db))) (snd (exec_cmd c db))"
  by (cases "exec_cmd c db"; cases "fst (exec_cmd c db)") (simp_all add: run_call)

text \<open>One command: every reply it can give, with the state it leaves, must lead to the goal.\<close>

lemma does_call:
  assumes "\<And>db. qrep q db st \<Longrightarrow> \<exists>r0 st0. fst (exec_cmd c db) = r0 \<and> \<not> is_err r0
      \<and> qrep q (snd (exec_cmd c db)) st0 \<and> does q (k r0) st0 r st'"
  shows "does q (call c k) st r st'"
  unfolding does_def
proof (intro allI impI)
  fix db
  assume "qrep q db st"
  from assms [OF this] obtain r0 st0 where
    "fst (exec_cmd c db) = r0" "\<not> is_err r0" "qrep q (snd (exec_cmd c db)) st0" "does q (k r0) st0 r st'"
    by blast
  then show "fst (run (call c k) db) = r \<and> qrep q (snd (run (call c k) db)) st'"
    by (simp add: run_call_ok doesD)
qed

lemma get_coll:
  "lookup db k = coll (RList xs) \<Longrightarrow> get_list db k = Some xs"
  "lookup db k = coll (RZSet z) \<Longrightarrow> get_zset db k = Some z"
  "lookup db k = coll (RHash h) \<Longrightarrow> get_hash db k = Some h"
  "lookup db k = coll (RHash h) \<Longrightarrow> present db k \<longleftrightarrow> h \<noteq> []"
  by (auto simp: coll_def empty_coll_def get_list_def get_zset_def get_hash_def present_def
      split: if_splits)

lemmas get_rep =
  get_coll(1) [OF lookup_list] get_coll(2) [OF lookup_zset] get_coll(3,4) [OF lookup_task]

named_theorems does_intros \<comment> \<open>one rule per command on a key of the queue\<close>

declare does_Ret [does_intros]

lemma does_LPUSH [does_intros]:
  assumes "list_key k"
    and "does q (f (RInt (int (length (lval k st)) + 1))) (set_lval k (v # lval k st) st) r st'"
  shows "does q (call (LPUSH (kname q k) v) f) st r st'"
  by (rule does_call)
     (use assms in \<open>auto simp: on_list_def get_rep intro!: exI qrep_set_list\<close>)

lemma does_RPUSH [does_intros]:
  assumes "list_key k"
    and "does q (f (RInt (int (length (lval k st)) + 1))) (set_lval k (lval k st @ [v]) st) r st'"
  shows "does q (call (RPUSH (kname q k) v) f) st r st'"
  by (rule does_call)
     (use assms in \<open>auto simp: on_list_def get_rep intro!: exI qrep_set_list\<close>)

lemma set_lval_same: "list_key k \<Longrightarrow> set_lval k (lval k st) st = st"
  by (cases k) simp_all

lemma set_zval_same: "zset_key k \<Longrightarrow> set_zval k (zval k st) st = st"
  by (cases k) simp_all

lemma does_LREM [does_intros]:
  assumes "list_key k"
    and "does q (f (RInt (int (count_list (lval k st) v)))) (set_lval k (removeAll v (lval k st)) st) r st'"
  shows "does q (call (LREM (kname q k) v) f) st r st'"
proof (rule does_call)
  fix db
  assume rep: "qrep q db st"
  have "fst (exec_cmd (LREM (kname q k) v) db) = RInt (int (count_list (lval k st) v))"
    using assms(1) rep by (simp add: on_list_def get_rep)
  moreover have "qrep q (snd (exec_cmd (LREM (kname q k) v) db)) (set_lval k (removeAll v (lval k st)) st)"
    using assms(1) rep
    by (cases "v \<in> set (lval k st)")
       (simp_all add: on_list_def get_rep qrep_set_list removeAll_id set_lval_same)
  ultimately show "\<exists>r0 st0. fst (exec_cmd (LREM (kname q k) v) db) = r0 \<and> \<not> is_err r0
      \<and> qrep q (snd (exec_cmd (LREM (kname q k) v) db)) st0 \<and> does q (f r0) st0 r st'"
    using assms(2) by auto
qed

lemma does_ZREM [does_intros]:
  assumes "zset_key k" and "ms \<noteq> []"
    and "does q (f (RInt (int (length (zval k st)) - int (length (zrem_all ms (zval k st))))))
      (set_zval k (zrem_all ms (zval k st)) st) r st'"
  shows "does q (call (ZREM (kname q k) ms) f) st r st'"
proof (rule does_call)
  fix db
  assume rep: "qrep q db st"
  have "fst (exec_cmd (ZREM (kname q k) ms) db)
      = RInt (int (length (zval k st)) - int (length (zrem_all ms (zval k st))))"
    using assms(1,2) rep by (simp add: on_zset_def get_rep)
  moreover have "qrep q (snd (exec_cmd (ZREM (kname q k) ms) db)) (set_zval k (zrem_all ms (zval k st)) st)"
  proof (cases "zval k st = []")
    case True
    with set_zval_same [OF assms(1), of st] show ?thesis
      using assms(1,2) rep by (simp add: on_zset_def get_rep zrem_all_def)
  next
    case False
    then show ?thesis using assms(1,2) rep by (simp add: on_zset_def get_rep qrep_set_zset)
  qed
  ultimately show "\<exists>r0 st0. fst (exec_cmd (ZREM (kname q k) ms) db) = r0 \<and> \<not> is_err r0
      \<and> qrep q (snd (exec_cmd (ZREM (kname q k) ms) db)) st0 \<and> does q (f r0) st0 r st'"
    using assms(3) by auto
qed

lemma does_ZADD [does_intros]:
  assumes "zset_key k"
    and "does q (f (RInt (if m \<in> set (zmembers (zval k st)) then 0 else 1)))
      (set_zval k (zadd s m (zval k st)) st) r st'"
  shows "does q (call (ZADD (kname q k) s m) f) st r st'"
  by (rule does_call)
     (use assms in \<open>auto simp: on_zset_def get_rep intro!: exI qrep_set_zset\<close>)

lemma does_ZADDXX [does_intros]:
  assumes "zset_key k" and "ps \<noteq> []"
    and "does q (f (RInt 0)) (set_zval k (zadd_xx ps (zval k st)) st) r st'"
  shows "does q (call (ZADDXX (kname q k) ps) f) st r st'"
proof (rule does_call)
  fix db
  assume rep: "qrep q db st"
  have nil: "zadd_xx ps [] = []"
    by (metis length_0_conv length_map list.set(1) set_empty set_zmembers_zadd_xx zmembers_Nil zmembers_def)
  have "qrep q (snd (exec_cmd (ZADDXX (kname q k) ps) db)) (set_zval k (zadd_xx ps (zval k st)) st)"
  proof (cases "zval k st = []")
    case True
    with set_zval_same [OF assms(1), of st] show ?thesis
      using assms(1,2) rep nil by (simp add: on_zset_def get_rep)
  next
    case False
    then show ?thesis using assms(1,2) rep by (simp add: on_zset_def get_rep qrep_set_zset)
  qed
  then show "\<exists>r0 st0. fst (exec_cmd (ZADDXX (kname q k) ps) db) = r0 \<and> \<not> is_err r0
      \<and> qrep q (snd (exec_cmd (ZADDXX (kname q k) ps) db)) st0 \<and> does q (f r0) st0 r st'"
    using assms rep by (auto simp: on_zset_def get_rep)
qed

lemma does_ZRANGEBYSCORE [does_intros]:
  assumes "zset_key k"
    and "does q (f (RArr (map RBulk (limit l (zrange_le mx (zval k st)))))) st r st'"
  shows "does q (call (ZRANGEBYSCORE (kname q k) mx l) f) st r st'"
  by (rule does_call) (use assms in \<open>auto simp: on_zset_def get_rep\<close>)

lemma does_ZRANGE [does_intros]:
  assumes "zset_key k"
    and "does q (f (RArr (map RBulk (zrange_idx i j (zval k st))))) st r st'"
  shows "does q (call (ZRANGE (kname q k) i j) f) st r st'"
  by (rule does_call) (use assms in \<open>auto simp: on_zset_def get_rep\<close>)

lemma does_EXISTS_task [does_intros]:
  assumes "does q (f (RInt (if q_tasks st i \<noteq> [] then 1 else 0))) st r st'"
  shows "does q (call (EXISTS (kname q (KTask i))) f) st r st'"
  by (rule does_call) (use assms in \<open>auto simp: get_rep\<close>)

lemma does_EXISTS_paused [does_intros]:
  assumes "does q (f (RInt (if q_paused st then 1 else 0))) st r st'"
  shows "does q (call (EXISTS (kname q KPaused)) f) st r st'"
proof (rule does_call)
  fix db
  assume rep: "qrep q db st"
  have "present db (kname q KPaused) \<longleftrightarrow> q_paused st"
    using qrepD [OF rep, of KPaused] by (auto simp: present_def paused_ok_def split: option.splits)
  then show "\<exists>r0 st0. fst (exec_cmd (EXISTS (kname q KPaused)) db) = r0 \<and> \<not> is_err r0
      \<and> qrep q (snd (exec_cmd (EXISTS (kname q KPaused)) db)) st0 \<and> does q (f r0) st0 r st'"
    using assms rep by auto
qed

lemma does_HSET [does_intros]:
  assumes "ps \<noteq> []"
    and "does q (f (RInt (int (length (hset_all ps (q_tasks st i))) - int (length (q_tasks st i)))))
      (set_task i (hset_all ps (q_tasks st i)) st) r st'"
  shows "does q (call (HSET (kname q (KTask i)) ps) f) st r st'"
  by (rule does_call)
     (use assms in \<open>auto simp: on_hash_def get_rep intro!: exI qrep_set_task\<close>)

lemma set_task_same [simp]: "set_task i (q_tasks st i) st = st"
  by (simp add: set_task_def)

lemma does_HDEL [does_intros]:
  assumes "does q (f (RInt (if map_of (q_tasks st i) fd = None then 0 else 1)))
      (set_task i (AList.delete fd (q_tasks st i)) st) r st'"
  shows "does q (call (HDEL (kname q (KTask i)) fd) f) st r st'"
proof (rule does_call)
  fix db
  assume rep: "qrep q db st"
  have "qrep q (snd (exec_cmd (HDEL (kname q (KTask i)) fd) db))
      (set_task i (AList.delete fd (q_tasks st i)) st)"
  proof (cases "map_of (q_tasks st i) fd = None")
    case True
    then have "AList.delete fd (q_tasks st i) = q_tasks st i"
      by (simp add: delete_id map_of_eq_None_iff)
    then show ?thesis using rep True by (simp add: on_hash_def get_rep)
  next
    case False
    then obtain y where "map_of (q_tasks st i) fd = Some y" by auto
    then show ?thesis using rep by (simp add: on_hash_def get_rep qrep_set_task)
  qed
  then show "\<exists>r0 st0. fst (exec_cmd (HDEL (kname q (KTask i)) fd) db) = r0 \<and> \<not> is_err r0
      \<and> qrep q (snd (exec_cmd (HDEL (kname q (KTask i)) fd) db)) st0 \<and> does q (f r0) st0 r st'"
    using assms rep by (auto simp: on_hash_def get_rep)
qed

lemma does_HGET [does_intros]:
  assumes "does q (f (case map_of (q_tasks st i) fd of None \<Rightarrow> RNil | Some v \<Rightarrow> RBulk v)) st r st'"
  shows "does q (call (HGET (kname q (KTask i)) fd) f) st r st'"
  by (rule does_call) (use assms in \<open>auto simp: on_hash_def get_rep split: option.split\<close>)

lemma does_DEL_task [does_intros]:
  assumes "does q (f (RInt (if q_tasks st i \<noteq> [] then 1 else 0))) (drop_task i st) r st'"
  shows "does q (call (DEL (kname q (KTask i))) f) st r st'"
  by (rule does_call) (use assms in \<open>auto simp: get_rep intro!: exI qrep_drop_task\<close>)

lemma does_RPOPLPUSH [does_intros]:
  assumes "q_pending st = [] \<Longrightarrow> does q (f RNil) st r st'"
    and "q_pending st \<noteq> [] \<Longrightarrow> does q (f (RBulk (last (q_pending st))))
      (st\<lparr>q_pending := butlast (q_pending st), q_active := last (q_pending st) # q_active st\<rparr>) r st'"
  shows "does q (call (RPOPLPUSH (kname q KPending) (kname q KActive)) f) st r st'"
proof (rule does_call)
  fix db
  assume rep: "qrep q db st"
  let ?c = "RPOPLPUSH (kname q KPending) (kname q KActive)"
  show "\<exists>r0 st0. fst (exec_cmd ?c db) = r0 \<and> \<not> is_err r0
      \<and> qrep q (snd (exec_cmd ?c db)) st0 \<and> does q (f r0) st0 r st'"
  proof (cases "q_pending st = []")
    case True
    then show ?thesis using assms(1) rep get_rep(1) [OF rep, of KPending]
      by (auto simp: on_list_def)
  next
    case False
    let ?db = "store (kname q KPending) (RList (butlast (q_pending st))) db"
    have r1: "qrep q ?db (st\<lparr>q_pending := butlast (q_pending st)\<rparr>)"
      using qrep_set_list [OF rep, of KPending "butlast (q_pending st)"] by simp
    have "qrep q (store (kname q KActive) (RList (last (q_pending st) # q_active st)) ?db)
        (st\<lparr>q_pending := butlast (q_pending st), q_active := last (q_pending st) # q_active st\<rparr>)"
      using qrep_set_list [OF r1, of KActive "last (q_pending st) # q_active st"] by simp
    then show ?thesis
      using False assms(2) get_rep(1) [OF rep, of KPending] get_rep(1) [OF rep, of KActive]
      by (auto simp: on_list_def)
  qed
qed

subsection \<open>Counters\<close>

lemma to_double_0 [simp]: "to_double 0 = 0"
  by (simp add: to_double_def bitlen.simps)

lemma bitlen_max_int64: "bitlen max_int64 = 63"
  by (simp add: max_int64_def bitlen.simps)

lemma to_double_max: "to_double max_int64 = 9223372036854775808"
  unfolding to_double_def Let_def using bitlen_max_int64
  by (simp add: max_int64_def round_half_even_def Let_def)

lemma not_total_full_0 [simp]: "\<not> total_full 0"
  by (simp add: total_full_def to_double_max)

lemma total_full_max [simp]: "total_full max_int64"
  by (simp add: total_full_def)

lemma daily_ok_mono: "daily_ok b e \<Longrightarrow> b \<le> c \<Longrightarrow> daily_ok c e"
  by (auto simp: daily_ok_def split: option.splits rval.splits)

lemma daily_ok_cases:
  assumes "daily_ok b e"
  obtains "e = None" | n t where "e = Some (RStr (show_int n), t)" "1 \<le> n" "n \<le> b"
proof (cases e)
  case None
  then show thesis by (rule that(1))
next
  case (Some p)
  then obtain s t n where "e = Some (RStr s, t)" "read_int s = Some n" "1 \<le> n" "n \<le> b"
    using assms by (cases p) (auto simp: daily_ok_def split: rval.splits option.splits)
  then show thesis using read_int_SomeD [of s n] by (intro that(2) [of n t]) simp_all
qed

lemma entry_ok_daily: "daily_key k \<Longrightarrow> entry_ok st k e \<longleftrightarrow> daily_ok (q_daily st) e"
  by (cases k) simp_all

lemma entry_ok_q_daily:
  "entry_ok st k e \<Longrightarrow> q_daily st \<le> b \<Longrightarrow> entry_ok (st\<lparr>q_daily := b\<rparr>) k e"
  by (cases k) (auto intro: daily_ok_mono)

lemma qrep_daily:
  assumes "qrep q db st" and "daily_key k"
    and "\<And>key. key \<noteq> kname q k \<Longrightarrow> lookup db' key = lookup db key"
    and "daily_ok b (lookup db' (kname q k))" and "q_daily st \<le> b"
  shows "qrep q db' (st\<lparr>q_daily := b\<rparr>)"
  by (rule qrep_update [OF assms(1,3)])
     (use assms(2,4,5) in \<open>auto simp: entry_ok_daily intro: entry_ok_q_daily\<close>)

lemma lookup_put_same_expiry:
  "lookup db k = Some (v, t) \<Longrightarrow> lookup (put k (w, t) db) k = Some (w, t)"
  using lookup_live [of db k "(v, t)"] by (simp add: lookup_put live_def)

lemma incr_daily_entry:
  assumes "daily_ok b (lookup db k)" and "b < max_int64" and "0 \<le> b"
  shows "(\<exists>n. fst (incr_cmd k db) = RInt n) \<and> daily_ok (b + 1) (lookup (snd (incr_cmd k db)) k)
    \<and> (\<forall>key. key \<noteq> k \<longrightarrow> lookup (snd (incr_cmd k db)) key = lookup db key)"
  using assms(1)
proof (cases rule: daily_ok_cases)
  case 1
  then show ?thesis using assms(3) by (simp add: incr_cmd_def daily_ok_def)
next
  case (2 n t)
  then show ?thesis
    using assms(2) lookup_put_same_expiry [of db k "RStr (show_int n)" t]
    by (simp add: incr_cmd_def daily_ok_def)
qed

lemma does_INCR_daily:
  assumes k: "daily_key k" and lt: "q_daily st < max_int64" and ge: "0 \<le> q_daily st"
    and rest: "\<And>n. does q (f (RInt n)) (st\<lparr>q_daily := q_daily st + 1\<rparr>) r st'"
  shows "does q (call (INCR (kname q k)) f) st r st'"
proof (rule does_call)
  fix db
  assume rep: "qrep q db st"
  let ?c = "INCR (kname q k)"
  have d: "daily_ok (q_daily st) (lookup db (kname q k))"
    using qrepD [OF rep, of k] k by (simp add: entry_ok_daily)
  note e = incr_daily_entry [OF d lt ge]
  have "qrep q (snd (exec_cmd ?c db)) (st\<lparr>q_daily := q_daily st + 1\<rparr>)"
    by (rule qrep_daily [OF rep k]) (use e in simp_all)
  with e rest show "\<exists>r0 st0. fst (exec_cmd ?c db) = r0 \<and> \<not> is_err r0
      \<and> qrep q (snd (exec_cmd ?c db)) st0 \<and> does q (f r0) st0 r st'"
    by auto
qed

lemma set_expiry_daily:
  assumes "daily_ok b (lookup db k)"
  shows "daily_ok b (lookup (snd (set_expiry k t db)) k)" "\<exists>n. fst (set_expiry k t db) = RInt n"
    "key \<noteq> k \<Longrightarrow> lookup (snd (set_expiry k t db)) key = lookup db key"
  using assms by (auto simp: set_expiry_def daily_ok_def lookup_put split: option.splits rval.splits)

lemma does_EXPIREAT_daily:
  assumes k: "daily_key k" and rest: "\<And>n. does q (f (RInt n)) st r st'"
  shows "does q (call (EXPIREAT (kname q k) t) f) st r st'"
proof (rule does_call)
  fix db
  assume rep: "qrep q db st"
  let ?c = "EXPIREAT (kname q k) t"
  have d: "daily_ok (q_daily st) (lookup db (kname q k))"
    using qrepD [OF rep, of k] k by (simp add: entry_ok_daily)
  note e = set_expiry_daily [OF d]
  have "qrep q (snd (exec_cmd ?c db)) (st\<lparr>q_daily := q_daily st\<rparr>)"
    by (rule qrep_daily [OF rep k]) (use e(1,3) in simp_all)
  with e(2) rest show "\<exists>r0 st0. fst (exec_cmd ?c db) = r0 \<and> \<not> is_err r0
      \<and> qrep q (snd (exec_cmd ?c db)) st0 \<and> does q (f r0) st0 r st'"
    by fastforce
qed

lemma does_incr_daily [does_intros]:
  assumes "daily_key k" and "q_daily st < max_int64" and "0 \<le> q_daily st"
    and "does q p (st\<lparr>q_daily := q_daily st + 1\<rparr>) r st'"
  shows "does q (incr_daily (kname q k) t p) st r st'"
  unfolding incr_daily_def
  by (rule does_INCR_daily)
     (use assms in \<open>auto simp: lua_when_def intro: does_EXPIREAT_daily\<close>)

text \<open>The totals: \<open>KProcessed\<close> and \<open>KFailed\<close>.\<close>

fun tval :: "qkey \<Rightarrow> queue_state \<Rightarrow> int" where
  "tval KProcessed st = q_processed st"
| "tval KFailed st = q_failed st"
| "tval _ st = 0"

fun set_tval :: "qkey \<Rightarrow> int \<Rightarrow> queue_state \<Rightarrow> queue_state" where
  "set_tval KProcessed n st = st\<lparr>q_processed := n\<rparr>"
| "set_tval KFailed n st = st\<lparr>q_failed := n\<rparr>"
| "set_tval _ n st = st"

fun total_key :: "qkey \<Rightarrow> bool" where
  "total_key KProcessed = True"
| "total_key KFailed = True"
| "total_key _ = False"

lemma lookup_total:
  "qrep q db st \<Longrightarrow> total_key k \<Longrightarrow> lookup db (kname q k) = total_entry (tval k st) \<and> 0 \<le> tval k st"
  using qrepD [of q db st k] by (cases k) simp_all

lemma qrep_set_total:
  assumes "qrep q db st" and "total_key k" and "0 < n"
  shows "qrep q (put (kname q k) (RStr (show_int n), None) db) (set_tval k n st)"
proof (rule qrep_update [OF assms(1), where k = k])
  show "entry_ok (set_tval k n st) k (lookup (put (kname q k) (RStr (show_int n), None) db) (kname q k))"
    using assms(2,3) by (cases k) (simp_all add: total_entry_def)
  show "k' \<noteq> k \<Longrightarrow> entry_ok st k' e \<Longrightarrow> entry_ok (set_tval k n st) k' e" for k' e
    using assms(2) by (cases k; cases k') simp_all
qed simp

lemma does_GET_total:
  assumes "total_key k"
    and "does q (f (if tval k st = 0 then RNil else RBulk (show_int (tval k st)))) st r st'"
  shows "does q (call (GET (kname q k)) f) st r st'"
  by (rule does_call) (use assms in \<open>auto simp: lookup_total total_entry_def\<close>)

lemma show_int_1: "show_int 1 = ''1''"
  by (simp add: show_int_def show_nat.simps digit_char_def char_of_def bit_Suc_0_iff)

lemma does_SET_total:
  assumes "total_key k" and "does q (f (RStatus ''OK'')) (set_tval k 1 st) r st'"
  shows "does q (call (SET (kname q k) ''1'') f) st r st'"
  by (rule does_call)
     (use assms qrep_set_total [where n = 1] in \<open>auto simp: show_int_1 intro!: exI\<close>)

lemma does_INCR_total:
  assumes k: "total_key k" and lt: "tval k st \<noteq> max_int64"
    and rest: "does q (f (RInt (tval k st + 1))) (set_tval k (tval k st + 1) st) r st'"
  shows "does q (call (INCR (kname q k)) f) st r st'"
proof (rule does_call)
  fix db
  assume rep: "qrep q db st"
  have "exec_cmd (INCR (kname q k)) db =
      (RInt (tval k st + 1), put (kname q k) (RStr (show_int (tval k st + 1)), None) db)"
    using lookup_total [OF rep k] lt by (simp add: incr_cmd_def total_entry_def)
  moreover have "qrep q (put (kname q k) (RStr (show_int (tval k st + 1)), None) db)
      (set_tval k (tval k st + 1) st)"
    using lookup_total [OF rep k] by (intro qrep_set_total [OF rep k]) simp
  ultimately show "\<exists>r0 st0. fst (exec_cmd (INCR (kname q k)) db) = r0 \<and> \<not> is_err r0
      \<and> qrep q (snd (exec_cmd (INCR (kname q k)) db)) st0 \<and> does q (f r0) st0 r st'"
    using rest by auto
qed

lemma at_max_total:
  "at_max (if n = 0 then RNil else RBulk (show_int n)) max_int64 \<longleftrightarrow> total_full n"
  by (simp add: at_max_def total_full_def to_double_max)

lemma does_incr_total [does_intros]:
  assumes "does q p (st\<lparr>q_processed := (if total_full (q_processed st) then 1 else q_processed st + 1)\<rparr>) r st'"
  shows "does q (incr_total (kname q KProcessed) max_int64 p) st r st'"
  unfolding incr_total_def
  by (rule does_GET_total, simp, simp only: at_max_total tval.simps)
     (use assms in \<open>auto intro!: does_SET_total does_INCR_total\<close>)

lemma does_incr_totals [does_intros]:
  assumes "q_failed st < max_int64"
    and "does q p (st\<lparr>q_processed := (if total_full (q_processed st) then 1 else q_processed st + 1),
      q_failed := (if total_full (q_processed st) then 1 else q_failed st + 1)\<rparr>) r st'"
  shows "does q (incr_totals (kname q KProcessed) (kname q KFailed) max_int64 p) st r st'"
  unfolding incr_totals_def
  by (rule does_GET_total, simp, simp only: at_max_total tval.simps)
     (use assms in \<open>auto intro!: does_SET_total does_INCR_total\<close>)

subsection \<open>Uniqueness locks\<close>

lemma lookup_lock:
  "qrep q db st \<Longrightarrow> map_option fst (lookup db (kname q (KUnique u))) = map_option RStr (q_locks st u)"
  using qrepD [of q db st "KUnique u"] by simp

lemma present_lock:
  assumes "qrep q db st"
  shows "present db (kname q (KUnique u)) \<longleftrightarrow> q_locks st u \<noteq> None"
  using lookup_lock [OF assms, of u] unfolding present_def by (metis map_option_is_None)

lemma qrep_set_lock:
  assumes "qrep q db st"
    and "\<And>key. key \<noteq> kname q (KUnique u) \<Longrightarrow> lookup db' key = lookup db key"
    and "map_option fst (lookup db' (kname q (KUnique u))) = map_option RStr h"
  shows "qrep q db' (st\<lparr>q_locks := (q_locks st)(u := h)\<rparr>)"
proof (rule qrep_update [OF assms(1,2)])
  show "k' \<noteq> KUnique u \<Longrightarrow> entry_ok st k' e \<Longrightarrow>
      entry_ok (st\<lparr>q_locks := (q_locks st)(u := h)\<rparr>) k' e" for k' e
    by (cases k') simp_all
qed (simp_all add: assms(3))

lemma does_SETNXEX_lock [does_intros]:
  assumes "0 < ttl"
    and "q_locks st u \<noteq> None \<Longrightarrow> does q (f RNil) st r st'"
    and "q_locks st u = None \<Longrightarrow> does q (f (RStatus ''OK'')) (s_lock u tid st) r st'"
  shows "does q (call (SETNXEX (kname q (KUnique u)) tid ttl) f) st r st'"
proof (rule does_call)
  fix db
  assume rep: "qrep q db st"
  let ?k = "kname q (KUnique u)"
  note p = present_lock [OF rep, of u]
  have "qrep q (put ?k (RStr tid, Some (srv_ms db + 1000 * ttl)) db) (s_lock u tid st)"
    unfolding s_lock_def by (rule qrep_set_lock [OF rep]) (use assms(1) in \<open>simp_all add: lookup_put live_def\<close>)
  then show "\<exists>r0 st0. fst (exec_cmd (SETNXEX ?k tid ttl) db) = r0 \<and> \<not> is_err r0
      \<and> qrep q (snd (exec_cmd (SETNXEX ?k tid ttl) db)) st0 \<and> does q (f r0) st0 r st'"
    using assms p rep by (cases "q_locks st u = None") auto
qed

lemma does_GET_lock [does_intros]:
  assumes "does q (f (case q_locks st u of None \<Rightarrow> RNil | Some h \<Rightarrow> RBulk h)) st r st'"
  shows "does q (call (GET (kname q (KUnique u))) f) st r st'"
  by (rule does_call)
     (use assms lookup_lock [where u = u] in \<open>fastforce split: option.splits\<close>)

lemma does_DEL_lock [does_intros]:
  assumes "does q (f (RInt (if q_locks st u = None then 0 else 1))) (st\<lparr>q_locks := (q_locks st)(u := None)\<rparr>) r st'"
  shows "does q (call (DEL (kname q (KUnique u))) f) st r st'"
proof (rule does_call)
  fix db
  assume rep: "qrep q db st"
  let ?k = "kname q (KUnique u)"
  note present_lock [OF rep, of u]
  moreover have "qrep q (remove ?k db) (st\<lparr>q_locks := (q_locks st)(u := None)\<rparr>)"
    by (rule qrep_set_lock [OF rep]) simp_all
  ultimately show "\<exists>r0 st0. fst (exec_cmd (DEL ?k) db) = r0 \<and> \<not> is_err r0
      \<and> qrep q (snd (exec_cmd (DEL ?k) db)) st0 \<and> does q (f r0) st0 r st'"
    using assms by auto
qed

subsection \<open>Other queues, and the passing of time\<close>

definition queue_keys :: "string \<Rightarrow> string set" where
  "queue_keys q = range (kname q)"

definition good_name :: "string \<Rightarrow> bool" where
  "good_name q \<longleftrightarrow> CHR ''}'' \<notin> set q"

lemma qrep_other:
  assumes "prog_writes (queue_keys q) p" and "good_name q" "good_name q'" and "q' \<noteq> q"
    and "qrep q' db st"
  shows "qrep q' (snd (run p db)) st"
proof (rule qrep_cong [OF assms(5)])
  fix k
  have "kname q' k \<notin> queue_keys q"
    using assms(2-4) by (auto simp: queue_keys_def good_name_def kname_inject2)
  then show "lookup (snd (run p db)) (kname q' k) = lookup db (kname q' k)"
    by (rule run_frame [OF assms(1)])
qed

text \<open>When time passes a queue can only lose uniqueness locks (and daily counters).\<close>

definition advance :: "int \<Rightarrow> keyspace \<Rightarrow> keyspace" where
  "advance t db = db\<lparr>srv_ms := t\<rparr>"

definition drop_locks :: "string set \<Rightarrow> queue_state \<Rightarrow> queue_state" where
  "drop_locks U st = st\<lparr>q_locks := (\<lambda>u. if u \<in> U then None else q_locks st u)\<rparr>"

lemma lookup_advance:
  "srv_ms db \<le> t \<Longrightarrow>
   lookup (advance t db) k =
     (case lookup db k of None \<Rightarrow> None | Some e \<Rightarrow> if live t e then Some e else None)"
  by (auto simp: lookup_def advance_def live_def split: option.splits)

lemma entry_ok_filter:
  "k \<notin> range KUnique \<Longrightarrow> entry_ok st k e \<Longrightarrow>
   entry_ok st k (case e of None \<Rightarrow> None | Some x \<Rightarrow> if live t x then Some x else None)"
  by (cases k)
     (auto simp: coll_def total_entry_def live_def paused_ok_def daily_ok_def
       split: option.splits rval.splits)

lemma qrep_advance:
  assumes "qrep q db st" and "srv_ms db \<le> t"
  shows "\<exists>U. qrep q (advance t db) (drop_locks U st)"
proof
  let ?U = "{u. lookup (advance t db) (kname q (KUnique u)) = None}"
  show "qrep q (advance t db) (drop_locks ?U st)"
    unfolding qrep_def
  proof
    fix k
    show "entry_ok (drop_locks ?U st) k (lookup (advance t db) (kname q k))"
    proof (cases "k \<in> range KUnique")
      case True
      then obtain u where k: "k = KUnique u" by auto
      have "lookup (advance t db) (kname q k) \<noteq> None \<Longrightarrow>
          lookup (advance t db) (kname q k) = lookup db (kname q k)"
        using assms(2) by (auto simp: lookup_advance split: option.splits if_splits)
      then show ?thesis
        using lookup_lock [OF assms(1), of u] k by (auto simp: drop_locks_def)
    next
      case False
      have "entry_ok (drop_locks ?U st) k e = entry_ok st k e" for e
        using False by (cases k) (simp_all add: drop_locks_def)
      then show ?thesis
        using entry_ok_filter [OF False qrepD [OF assms(1)], of t] lookup_advance [OF assms(2)]
        by simp
    qed
  qed
qed

end
