(* ===== verification/Refinement.thy ===== *)
theory Refinement
  imports Representation
begin

text \<open>
  The Lua scripts implement the operations of \<open>QueueModel\<close>: for every script, its reply and
  its effect on each branch, in the form \<open>does q script st reply st'\<close>.
\<close>

lemma zrem_all_single [simp]: "zrem_all [m] z = zrem m z"
  by (simp add: zrem_all_def zrem_def)

lemma length_zrem_eq:
  "length (zrem m z) = length z \<longleftrightarrow> m \<notin> set (zmembers z)"
proof
  assume "length (zrem m z) = length z"
  then have "zrem m z = z"
    unfolding zrem_def by (metis filter_True length_filter_less linorder_neq_iff)
  then show "m \<notin> set (zmembers z)" by (metis Diff_iff insertI1 set_zmembers_zrem)
qed simp

lemma zrem_reply_0 [simp]:
  "int (length z) - int (length (zrem m z)) = 0 \<longleftrightarrow> m \<notin> set (zmembers z)"
  "length z = length (zrem m z) \<longleftrightarrow> m \<notin> set (zmembers z)"
  using length_zrem_eq [of m z] by auto

subsection \<open>Enqueueing and scheduling\<close>

lemma does_enqueue:
  "q_tasks st tid = [] \<Longrightarrow>
   does q (enqueueCmd (TaskKey q tid) (PendingKey q) msg tid now) st (RInt 1) (s_enqueue msg tid now [] st)"
  "q_tasks st tid \<noteq> [] \<Longrightarrow>
   does q (enqueueCmd (TaskKey q tid) (PendingKey q) msg tid now) st (RInt 0) st"
  unfolding enqueueCmd_def key_simps
  by (auto intro!: does_intros simp: s_enqueue_def put_fields_def set_task_def)

lemma does_schedule:
  "q_tasks st tid = [] \<Longrightarrow>
   does q (scheduleCmd (TaskKey q tid) (ScheduledKey q) msg at tid) st (RInt 1) (s_schedule msg tid at [] st)"
  "q_tasks st tid \<noteq> [] \<Longrightarrow>
   does q (scheduleCmd (TaskKey q tid) (ScheduledKey q) msg at tid) st (RInt 0) st"
  unfolding scheduleCmd_def key_simps
  by (auto intro!: does_intros simp: s_schedule_def put_fields_def set_task_def)

subsection \<open>Dequeueing\<close>

definition bulk_or_nil :: "string option \<Rightarrow> reply" where
  "bulk_or_nil m = (case m of None \<Rightarrow> RNil | Some v \<Rightarrow> RBulk v)"

lemma does_dequeue:
  "does q (dequeueCmd (PendingKey q) (PausedKey q) (ActiveKey q) (LeaseKey q) expires (TaskKeyPrefix q)) st
     (bulk_or_nil (fst (s_dequeue expires st))) (snd (s_dequeue expires st))"
  unfolding dequeueCmd_def key_simps
  by (auto intro!: does_intros
      simp: s_dequeue_def Let_def set_task_def bulk_or_nil_def split: option.split)

subsection \<open>Settling an active task\<close>

lemma does_take_active:
  assumes "holds_lease st tid" and "does q p (s_release tid st) r st'"
  shows "does q (take_active (ActiveKey q) (LeaseKey q) tid p) st r st'"
  using assms unfolding take_active_def key_simps
  by (auto intro!: does_intros simp: holds_lease_def s_release_def not_found_def count_list_0_iff)

lemma does_take_active_not_found:
  "tid \<notin> set (q_active st) \<Longrightarrow>
   does q (take_active (ActiveKey q) (LeaseKey q) tid p) st (RErr ''NOT FOUND'') st"
  "tid \<in> set (q_active st) \<Longrightarrow> tid \<notin> set (zmembers (q_lease st)) \<Longrightarrow>
   does q (take_active (ActiveKey q) (LeaseKey q) tid p) st (RErr ''NOT FOUND'')
     (st\<lparr>q_active := removeAll tid (q_active st)\<rparr>)"
  unfolding take_active_def key_simps
  by (auto intro!: does_intros simp: not_found_def count_list_0_iff removeAll_id)

lemma does_done:
  assumes "holds_lease st tid" and "q_tasks st tid \<noteq> []" and "q_daily st < max_int64" "0 \<le> q_daily st"
  shows "does q (doneCmd (ActiveKey q) (LeaseKey q) (TaskKey q tid) (ProcessedKey q t) (ProcessedTotalKey q)
      tid e max_int64) st (RStatus ''OK'') (s_count_done (s_done tid st))"
  unfolding doneCmd_def
  by (rule does_take_active [OF assms(1)])
     (use assms(2-) in \<open>auto intro!: does_intros
        simp: key_simps ok_reply_def s_count_done_def s_done_def drop_task_def\<close>)

lemma does_complete:
  assumes "holds_lease st tid" and "tid \<notin> set (zmembers (q_completed st))"
    and "q_daily st < max_int64" "0 \<le> q_daily st"
  shows "does q (markAsCompleteCmd (ActiveKey q) (LeaseKey q) (CompletedKey q) (TaskKey q tid)
      (ProcessedKey q t) (ProcessedTotalKey q) tid e expire_at msg max_int64) st (RStatus ''OK'')
      (s_count_done (s_complete tid expire_at msg st))"
  unfolding markAsCompleteCmd_def
  by (rule does_take_active [OF assms(1)])
     (use assms(2-) in \<open>auto intro!: does_intros
        simp: key_simps ok_reply_def s_count_done_def s_complete_def put_fields_def set_task_def\<close>)

lemma does_requeue:
  assumes "holds_lease st tid"
  shows "does q (requeueCmd (ActiveKey q) (LeaseKey q) (PendingKey q) (TaskKey q tid) tid) st
      (RStatus ''OK'') (s_requeue tid st)"
  unfolding requeueCmd_def
  by (rule does_take_active [OF assms(1)])
     (auto intro!: does_intros simp: key_simps ok_reply_def s_requeue_def put_fields_def set_task_def)

lemma does_retry:
  assumes "holds_lease st tid" and "q_daily st + 1 < max_int64" "0 \<le> q_daily st" "q_failed st < max_int64"
  shows "does q (retryCmd (TaskKey q tid) (ActiveKey q) (LeaseKey q) (RetryKey q) (ProcessedKey q t)
      (FailedKey q t) (ProcessedTotalKey q) (FailedTotalKey q) tid msg at e isFailure max_int64) st
      (RStatus ''OK'')
      ((if isFailure then s_count_failed else (\<lambda>st. st)) (s_retry tid at msg st))"
  unfolding retryCmd_def
  by (rule does_take_active [OF assms(1)])
     (use assms(2-) in \<open>auto intro!: does_intros
        simp: key_simps ok_reply_def s_count_failed_def s_retry_def put_fields_def set_task_def\<close>)

lemma does_settle_not_found:
  assumes "tid \<notin> set (q_active st)"
  shows "does q (doneCmd (ActiveKey q) (LeaseKey q) tk pk pt tid e mx) st (RErr ''NOT FOUND'') st"
    "does q (doneUniqueCmd (ActiveKey q) (LeaseKey q) tk pk pt uk tid e mx) st (RErr ''NOT FOUND'') st"
    "does q (markAsCompleteCmd (ActiveKey q) (LeaseKey q) ck tk pk pt tid e at msg mx) st
      (RErr ''NOT FOUND'') st"
    "does q (requeueCmd (ActiveKey q) (LeaseKey q) pe tk tid) st (RErr ''NOT FOUND'') st"
    "does q (retryCmd tk (ActiveKey q) (LeaseKey q) rk pk fk pt ft tid msg at e f mx) st
      (RErr ''NOT FOUND'') st"
    "does q (archiveCmd um tk (ActiveKey q) (LeaseKey q) ak pk fk pt ft pfx tid msg died co ms e mx) st
      (RErr ''NOT FOUND'') st"
  unfolding doneCmd_def doneUniqueCmd_def markAsCompleteCmd_def requeueCmd_def retryCmd_def archiveCmd_def
  by (rule does_take_active_not_found(1) [OF assms])+

subsection \<open>Archiving\<close>

lemma does_lua_for_DEL:
  assumes "does q p (st\<lparr>q_tasks := (\<lambda>i. if i \<in> set ids then [] else q_tasks st i)\<rparr>) r st'"
  shows "does q (lua_for ids (\<lambda>i rest. call (DEL (kname q (KTask i))) (\<lambda>_. rest)) p) st r st'"
  using assms
proof (induction ids arbitrary: st)
  case (Cons i ids)
  have "(drop_task i st)\<lparr>q_tasks := (\<lambda>j. if j \<in> set ids then [] else q_tasks (drop_task i st) j)\<rparr>
      = st\<lparr>q_tasks := (\<lambda>j. if j \<in> set (i # ids) then [] else q_tasks st j)\<rparr>"
    by (auto simp: drop_task_def fun_eq_iff)
  with Cons.prems have "does q p
      ((drop_task i st)\<lparr>q_tasks := (\<lambda>j. if j \<in> set ids then [] else q_tasks (drop_task i st) j)\<rparr>) r st'"
    by simp
  then show ?case
    using Cons.IH by (auto intro!: does_intros)
qed simp

lemma does_trim:
  assumes "length ids \<le> um" and "does q p (s_trim ids st) r st'"
  shows "does q (trim_set um (ArchivedKey q) (TaskKeyPrefix q) ids p) st r st'"
proof (cases "ids = []")
  case True
  then show ?thesis using assms(2) by (simp add: trim_set_def s_trim_def zrem_all_def)
next
  case False
  have "set_zval KArchived (zrem_all ids (q_archived st))
      (st\<lparr>q_tasks := (\<lambda>i. if i \<in> set ids then [] else q_tasks st i)\<rparr>) = s_trim ids st"
    by (simp add: s_trim_def)
  with False show ?thesis
    using assms unfolding trim_set_def key_simps
    by (auto intro!: does_lua_for_DEL does_ZREM)
qed

lemma does_archive:
  fixes st :: queue_state and tid :: string and died max_size :: int
  defines "st1 \<equiv> (s_release tid st)\<lparr>q_archived := zadd died tid (q_archived st)\<rparr>"
  assumes "holds_lease st tid"
    and "length (archive_old cutoff st1) \<le> um"
    and "length (archive_extra max_size (s_trim (archive_old cutoff st1) st1)) \<le> um"
    and "q_daily st + 1 < max_int64" "0 \<le> q_daily st" "q_failed st < max_int64"
  shows "does q (archiveCmd um (TaskKey q tid) (ActiveKey q) (LeaseKey q) (ArchivedKey q) (ProcessedKey q t)
      (FailedKey q t) (ProcessedTotalKey q) (FailedTotalKey q) (TaskKeyPrefix q) tid msg died cutoff
      max_size e max_int64) st (RStatus ''OK'') (s_count_failed (s_archive tid died cutoff max_size msg st))"
proof -
  define st2 where "st2 = s_trim (archive_old cutoff st1) st1"
  define st3 where "st3 = s_trim (archive_extra max_size st2) st2"
  have a: "zval KArchived st1 = q_archived st1" "zval KArchived st2 = q_archived st2" by simp_all
  have c: "q_daily st3 = q_daily st" "q_processed st3 = q_processed st" "q_failed st3 = q_failed st"
    by (simp_all add: st3_def st2_def st1_def s_trim_def)
  have tail: "does q (call (HSET (TaskKey q tid) [(''msg'', msg), (''state'', ''archived'')]) (\<lambda>_.
      incr_daily (ProcessedKey q t) e (incr_daily (FailedKey q t) e
      (incr_totals (ProcessedTotalKey q) (FailedTotalKey q) max_int64 ok_reply)))) st3 (RStatus ''OK'')
      (s_count_failed (put_fields tid [(''msg'', msg), (''state'', ''archived'')] st3))"
    using assms(5-) c
    by (auto intro!: does_intros
        simp: key_simps ok_reply_def s_count_failed_def put_fields_def set_task_def)
  have t3: "does q (call (ZRANGE (ArchivedKey q) 0 (- max_size)) (\<lambda>extra.
      trim_set um (ArchivedKey q) (TaskKeyPrefix q) (bulk_list extra) (
      call (HSET (TaskKey q tid) [(''msg'', msg), (''state'', ''archived'')]) (\<lambda>_.
      incr_daily (ProcessedKey q t) e (incr_daily (FailedKey q t) e
      (incr_totals (ProcessedTotalKey q) (FailedTotalKey q) max_int64 ok_reply)))))) st2 (RStatus ''OK'')
      (s_count_failed (put_fields tid [(''msg'', msg), (''state'', ''archived'')] st3))"
    using does_trim [OF assms(4) [folded st2_def] tail [unfolded st3_def]]
    unfolding key_simps(5)
    by (intro does_ZRANGE) (simp_all add: archive_extra_def st3_def key_simps del: bulk_list.simps)
  have t2: "does q (call (ZADD (ArchivedKey q) died tid) (\<lambda>_.
      call (ZRANGEBYSCORE (ArchivedKey q) cutoff None) (\<lambda>old.
      trim_set um (ArchivedKey q) (TaskKeyPrefix q) (bulk_list old) (
      call (ZRANGE (ArchivedKey q) 0 (- max_size)) (\<lambda>extra.
      trim_set um (ArchivedKey q) (TaskKeyPrefix q) (bulk_list extra) (
      call (HSET (TaskKey q tid) [(''msg'', msg), (''state'', ''archived'')]) (\<lambda>_.
      incr_daily (ProcessedKey q t) e (incr_daily (FailedKey q t) e
      (incr_totals (ProcessedTotalKey q) (FailedTotalKey q) max_int64 ok_reply)))))))))
      (s_release tid st) (RStatus ''OK'')
      (s_count_failed (put_fields tid [(''msg'', msg), (''state'', ''archived'')] st3))"
    using does_trim [OF assms(3) t3 [unfolded st2_def]] 
    unfolding key_simps(5)
    by (intro does_ZADD does_ZRANGEBYSCORE) (simp_all add: archive_old_def limit_def st1_def key_simps del: bulk_list.simps)
  show ?thesis
    unfolding archiveCmd_def
    using does_take_active [OF assms(2) t2]
    by (simp add: s_archive_def Let_def st1_def st2_def st3_def)
qed

subsection \<open>Uniqueness\<close>

lemma does_enqueue_unique:
  fixes q u :: string
  defines "ukey \<equiv> kname q (KUnique u)"
  assumes "0 < ttl"
  shows "q_locks st u \<noteq> None \<Longrightarrow>
      does q (enqueueUniqueCmd ukey (TaskKey q tid) (PendingKey q) tid ttl msg now) st (RInt (- 1)) st"
    "q_locks st u = None \<Longrightarrow> q_tasks st tid \<noteq> [] \<Longrightarrow>
      does q (enqueueUniqueCmd ukey (TaskKey q tid) (PendingKey q) tid ttl msg now) st (RInt 0)
        (s_lock u tid st)"
    "q_locks st u = None \<Longrightarrow> q_tasks st tid = [] \<Longrightarrow>
      does q (enqueueUniqueCmd ukey (TaskKey q tid) (PendingKey q) tid ttl msg now) st (RInt 1)
        (s_enqueue msg tid now [(''unique_key'', ukey)] (s_lock u tid st))"
  using assms(2) unfolding enqueueUniqueCmd_def key_simps ukey_def
  by (auto intro!: does_intros simp: s_enqueue_def put_fields_def set_task_def s_lock_def)

lemma does_schedule_unique:
  fixes q u :: string
  defines "ukey \<equiv> kname q (KUnique u)"
  assumes "0 < ttl"
  shows "q_locks st u \<noteq> None \<Longrightarrow>
      does q (scheduleUniqueCmd ukey (TaskKey q tid) (ScheduledKey q) tid ttl at msg) st (RInt (- 1)) st"
    "q_locks st u = None \<Longrightarrow> q_tasks st tid \<noteq> [] \<Longrightarrow>
      does q (scheduleUniqueCmd ukey (TaskKey q tid) (ScheduledKey q) tid ttl at msg) st (RInt 0)
        (s_lock u tid st)"
    "q_locks st u = None \<Longrightarrow> q_tasks st tid = [] \<Longrightarrow>
      does q (scheduleUniqueCmd ukey (TaskKey q tid) (ScheduledKey q) tid ttl at msg) st (RInt 1)
        (s_schedule msg tid at [(''unique_key'', ukey)] (s_lock u tid st))"
  using assms(2) unfolding scheduleUniqueCmd_def key_simps ukey_def
  by (auto intro!: does_intros simp: s_schedule_def put_fields_def set_task_def s_lock_def)

lemma does_done_unique:
  assumes "holds_lease st tid" and "q_tasks st tid \<noteq> []" and "q_daily st < max_int64" "0 \<le> q_daily st"
  shows "does q (doneUniqueCmd (ActiveKey q) (LeaseKey q) (TaskKey q tid) (ProcessedKey q t)
      (ProcessedTotalKey q) (kname q (KUnique u)) tid e max_int64) st (RStatus ''OK'')
      (s_unlock u tid (s_count_done (s_done tid st)))"
  unfolding doneUniqueCmd_def
  by (rule does_take_active [OF assms(1)])
     (use assms(2-) in \<open>auto intro!: does_intros
        simp: key_simps ok_reply_def s_count_done_def s_done_def drop_task_def lua_when_def s_unlock_def
        split: option.splits\<close>)

subsection \<open>Forwarding, expiry and expired leases\<close>

fun dkey :: "delayed \<Rightarrow> qkey" where
  "dkey From_scheduled = KScheduled"
| "dkey From_retry = KRetry"

lemma dkey_simps [simp]:
  "zset_key (dkey d)" "zval (dkey d) st = get_delayed d st" "set_zval (dkey d) z st = set_delayed d z st"
  by (cases d; simp)+

lemma get_delayed_other [simp]:
  "get_delayed d (st\<lparr>q_pending := xs\<rparr>) = get_delayed d st"
  by (cases d) simp_all

lemma s_forward1_set_task:
  "set_task i (hset_all [(''state'', ''pending''), (''pending_since'', show_int now)] (q_tasks st i))
     (set_delayed d (zrem i (get_delayed d st)) (st\<lparr>q_pending := i # q_pending st\<rparr>)) = s_forward1 d now i st"
  by (cases d) (simp_all add: s_forward1_def put_fields_def set_task_def)

lemma q_tasks_set_delayed [simp]: "q_tasks (set_delayed d z st) = q_tasks st"
  by (cases d) simp_all

lemma does_forward_loop:
  assumes "does q p (fold (s_forward1 d now_ns) ids st) r st'"
  shows "does q (lua_for ids (\<lambda>i rest.
      call (LPUSH (kname q KPending) i) (\<lambda>_.
      call (ZREM (kname q (dkey d)) [i]) (\<lambda>_.
      call (HSET (kname q (KTask i)) [(''state'', ''pending''), (''pending_since'', show_int now_ns)])
        (\<lambda>_. rest)))) p) st r st'"
  using assms
proof (induction ids arbitrary: st)
  case (Cons i ids)
  then have "does q p (fold (s_forward1 d now_ns) ids (s_forward1 d now_ns i st)) r st'" by simp
  then show ?case
    using Cons.IH by (auto intro!: does_intros simp: s_forward1_set_task)
qed simp

lemma does_forward:
  "does q (forwardCmd (kname q (dkey d)) (PendingKey q) now (TaskKeyPrefix q) now_ns) st
     (RInt (int (length (take 100 (due d now st))))) (s_forward d now now_ns st)"
  unfolding forwardCmd_def key_simps
  by (rule does_ZRANGEBYSCORE)
     (auto intro!: does_forward_loop does_Ret simp: s_forward_def due_def limit_def simp del: bulk_list.simps)

lemma does_expire_loop:
  assumes "does q p (fold s_expire1 ids st) r st'"
  shows "does q (lua_for ids (\<lambda>i rest. call (DEL (kname q (KTask i))) (\<lambda>_.
      call (ZREM (kname q KCompleted) [i]) (\<lambda>_. rest))) p) st r st'"
  using assms
proof (induction ids arbitrary: st)
  case (Cons i ids)
  have "set_zval KCompleted (zrem i (q_completed st)) (drop_task i st) = s_expire1 i st"
    by (simp add: s_expire1_def)
  moreover have "does q p (fold s_expire1 ids (s_expire1 i st)) r st'" using Cons.prems by simp
  ultimately show ?case
    using Cons.IH by (auto intro!: does_DEL_task does_ZREM simp del: set_zval.simps)
qed simp

lemma does_expire:
  "does q (deleteExpiredCompletedTasksCmd (CompletedKey q) now (TaskKeyPrefix q) batch) st
     (RInt (int (length (limit (Some (0, batch)) (zrange_le now (q_completed st)))))) (s_expire now batch st)"
  unfolding deleteExpiredCompletedTasksCmd_def key_simps
  by (rule does_ZRANGEBYSCORE)
     (auto intro!: does_expire_loop does_Ret simp: s_expire_def simp del: bulk_list.simps)

definition messages_of :: "queue_state \<Rightarrow> string list \<Rightarrow> string list" where
  "messages_of st ids = List.map_filter (\<lambda>i. field_of st i ''msg'') ids"

lemma does_collect:
  "does q (collect_msgs (TaskKeyPrefix q) ids (map RBulk acc)) st
     (RArr (map RBulk (acc @ messages_of st ids))) st"
proof (induction ids arbitrary: acc)
  case Nil
  show ?case by (auto intro!: does_Ret simp: messages_of_def map_filter_simps)
next
  case (Cons i ids)
  show ?case
  proof (cases "field_of st i ''msg''")
    case None
    then show ?thesis
      using Cons.IH [of acc]
      by (auto intro!: does_intros simp: key_simps messages_of_def map_filter_simps field_of_def)
  next
    case (Some m)
    then show ?thesis
      using Cons.IH [of "acc @ [m]"]
      by (auto intro!: does_intros simp: key_simps messages_of_def map_filter_simps field_of_def)
  qed
qed

lemma does_list_lease_expired:
  "does q (listLeaseExpiredCmd (LeaseKey q) cutoff (TaskKeyPrefix q)) st
     (RArr (map RBulk (messages_of st (zrange_le cutoff (q_lease st))))) st"
  unfolding listLeaseExpiredCmd_def key_simps
  using does_collect [of q "zrange_le cutoff (q_lease st)" "[]" st]
  by (intro does_ZRANGEBYSCORE) (auto simp: limit_def simp del: bulk_list.simps)

subsection \<open>Single commands\<close>

lemma does_single:
  assumes "does q (call c Ret) st r st'"
  shows "does q (single c) st r st'"
proof -
  have "run (single c) db = run (call c Ret) db" for db
    by (cases "exec_cmd c db"; cases "fst (exec_cmd c db)") (auto simp: single_def run_call)
  then show ?thesis using assms by (simp add: does_def)
qed

lemma does_extend:
  assumes "ps \<noteq> []"
  shows "does q (single (ZADDXX (LeaseKey q) ps)) st (RInt 0) (s_extend ps st)"
  unfolding key_simps
  by (rule does_single, rule does_ZADDXX) (auto intro!: does_Ret simp: assms s_extend_def)

lemma does_write_result:
  shows "does q (single (HSET (TaskKey q tid) [(''result'', data)])) st
      (RInt (int (length (hset_all [(''result'', data)] (q_tasks st tid))) - int (length (q_tasks st tid))))
      (s_result tid data st)"
  unfolding key_simps
  by (rule does_single, rule does_HSET) (auto intro!: does_Ret simp: s_result_def put_fields_def set_task_def)

subsection \<open>Keys a script may write\<close>

lemma kname_in_queue_keys [simp]: "kname q k \<in> queue_keys q"
  by (simp add: queue_keys_def)

lemma prog_writes_lua_when [simp]:
  "cmd_writes c \<subseteq> W \<Longrightarrow> prog_writes W k \<Longrightarrow> prog_writes W (lua_when b c k)"
  by (simp add: lua_when_def)

lemma prog_writes_incr_daily [simp]:
  "k \<in> W \<Longrightarrow> prog_writes W p \<Longrightarrow> prog_writes W (incr_daily k e p)"
  by (simp add: incr_daily_def)

lemma prog_writes_incr_total [simp]:
  "k \<in> W \<Longrightarrow> prog_writes W p \<Longrightarrow> prog_writes W (incr_total k mx p)"
  by (simp add: incr_total_def)

lemma prog_writes_incr_totals [simp]:
  "k \<in> W \<Longrightarrow> k' \<in> W \<Longrightarrow> prog_writes W p \<Longrightarrow> prog_writes W (incr_totals k k' mx p)"
  by (simp add: incr_totals_def)

lemma prog_writes_take_active [simp]:
  "a \<in> W \<Longrightarrow> l \<in> W \<Longrightarrow> prog_writes W p \<Longrightarrow> prog_writes W (take_active a l tid p)"
  by (simp add: take_active_def not_found_def)

lemma prog_writes_trim [simp]:
  "z \<in> W \<Longrightarrow> (\<And>i. pfx @ i \<in> W) \<Longrightarrow> prog_writes W p \<Longrightarrow> prog_writes W (trim_set um z pfx ids p)"
  by (auto simp: trim_set_def intro!: prog_writes_lua_for)

lemma prog_writes_collect [simp]: "prog_writes W (collect_msgs pfx ids res)"
  by (induction ids arbitrary: res) simp_all

lemma prog_writes_single [simp]: "prog_writes W (single c) \<longleftrightarrow> cmd_writes c \<subseteq> W"
  by (simp add: single_def)

lemma prog_writes_dequeue:
  "prog_writes (queue_keys q) (dequeueCmd (PendingKey q) (PausedKey q) (ActiveKey q) (LeaseKey q) e (TaskKeyPrefix q))"
  unfolding dequeueCmd_def by (auto simp: key_simps split: reply.split)

lemma scripts_write_queue_keys:
  "prog_writes (queue_keys q) (enqueueCmd (TaskKey q i) (PendingKey q) m i now)"
  "prog_writes (queue_keys q) (scheduleCmd (TaskKey q i) (ScheduledKey q) m at i)"
  "prog_writes (queue_keys q) (enqueueUniqueCmd (kname q (KUnique u)) (TaskKey q i) (PendingKey q) i ttl m now)"
  "prog_writes (queue_keys q) (scheduleUniqueCmd (kname q (KUnique u)) (TaskKey q i) (ScheduledKey q) i ttl at m)"
  "prog_writes (queue_keys q) (doneCmd (ActiveKey q) (LeaseKey q) (TaskKey q i) (ProcessedKey q t)
     (ProcessedTotalKey q) i e mx)"
  "prog_writes (queue_keys q) (doneUniqueCmd (ActiveKey q) (LeaseKey q) (TaskKey q i) (ProcessedKey q t)
     (ProcessedTotalKey q) (kname q (KUnique u)) i e mx)"
  "prog_writes (queue_keys q) (markAsCompleteCmd (ActiveKey q) (LeaseKey q) (CompletedKey q) (TaskKey q i)
     (ProcessedKey q t) (ProcessedTotalKey q) i e at m mx)"
  "prog_writes (queue_keys q) (requeueCmd (ActiveKey q) (LeaseKey q) (PendingKey q) (TaskKey q i) i)"
  "prog_writes (queue_keys q) (retryCmd (TaskKey q i) (ActiveKey q) (LeaseKey q) (RetryKey q)
     (ProcessedKey q t) (FailedKey q t) (ProcessedTotalKey q) (FailedTotalKey q) i m at e f mx)"
  "prog_writes (queue_keys q) (archiveCmd um (TaskKey q i) (ActiveKey q) (LeaseKey q) (ArchivedKey q)
     (ProcessedKey q t) (FailedKey q t) (ProcessedTotalKey q) (FailedTotalKey q) (TaskKeyPrefix q) i m died
     cutoff ms e mx)"
  "prog_writes (queue_keys q) (forwardCmd (kname q (dkey d)) (PendingKey q) now (TaskKeyPrefix q) now_ns)"
  "prog_writes (queue_keys q) (deleteExpiredCompletedTasksCmd (CompletedKey q) now (TaskKeyPrefix q) batch)"
  "prog_writes (queue_keys q) (listLeaseExpiredCmd (LeaseKey q) cutoff (TaskKeyPrefix q))"
  "prog_writes (queue_keys q) (single (ZADDXX (LeaseKey q) ps))"
  "prog_writes (queue_keys q) (single (HSET (TaskKey q i) fs))"
  unfolding enqueueCmd_def scheduleCmd_def enqueueUniqueCmd_def scheduleUniqueCmd_def doneCmd_def
    doneUniqueCmd_def markAsCompleteCmd_def requeueCmd_def retryCmd_def archiveCmd_def forwardCmd_def
    deleteExpiredCompletedTasksCmd_def listLeaseExpiredCmd_def
  by (simp_all add: key_simps ok_reply_def not_found_def prog_writes_lua_for)

text \<open>The programs that write shared keys only leave every queue as it is.\<close>

lemma shared_elsewhere:
  assumes "prog_writes shared_keys p" and "qrep q db st"
  shows "qrep q (snd (run p db)) st"
  using run_frame [OF assms(1) kname_not_shared] by (intro qrep_cong [OF assms(2)]) simp

lemma prog_writes_server_scripts:
  "prog_writes shared_keys (writeServerStateCmd (ServerInfoKey h pid sid) (WorkersKey h pid sid) ttl info ws)"
  "prog_writes shared_keys (clearServerStateCmd (ServerInfoKey h pid sid) (WorkersKey h pid sid))"
  by (auto simp: writeServerStateCmd_def clearServerStateCmd_def ok_reply_def intro!: prog_writes_lua_for)

lemmas server_scripts_elsewhere = shared_elsewhere [OF prog_writes_server_scripts(1)]
  shared_elsewhere [OF prog_writes_server_scripts(2)]

subsection \<open>Archiving at the limits\<close>

text \<open>
  The archive holds at most \<open>max_size - 1\<close> tasks afterwards: \<open>ZRANGE key 0 -max\<close> removes
  one more than the excess.
\<close>

lemma zrange_idx_prefix:
  "0 < m \<Longrightarrow> zrange_idx 0 (- m) z = map snd (take (nat (int (length z) - m + 1)) z)"
  by (auto simp: zrange_idx_def Let_def)

lemma zrem_all_prefix:
  assumes "distinct (zmembers z)"
  shows "zrem_all (map snd (take n z)) z = drop n z"
proof -
  let ?P = "\<lambda>p. snd p \<notin> set (map snd (take n z))"
  have "distinct (map snd (take n z) @ map snd (drop n z))"
    using assms by (simp add: zmembers_def flip: map_append)
  then have "filter ?P (drop n z) = drop n z"
    by (auto simp: filter_id_conv)
  moreover have "filter ?P (take n z) = []"
    by (auto simp: filter_empty_conv)
  ultimately have "filter ?P z = drop n z"
    by (metis append_Nil append_take_drop_id filter_append)
  then show ?thesis by (simp add: zrem_all_def)
qed

lemma s_archive_size:
  assumes "qinv st" and "0 < max_size"
  shows "int (length (q_archived (s_archive tid died cutoff max_size msg st))) \<le> max_size - 1"
proof -
  define st1 where "st1 = (s_release tid st)\<lparr>q_archived := zadd died tid (q_archived st)\<rparr>"
  define z where "z = q_archived (s_trim (archive_old cutoff st1) st1)"
  have "zset_ok (q_archived st)" using qinv_parts(1) [OF assms(1)] by (simp add: qtype_ok_def)
  then have ok: "zset_ok z" by (simp add: z_def st1_def)
  have "q_archived (s_archive tid died cutoff max_size msg st) = zrem_all (zrange_idx 0 (- max_size) z) z"
    by (simp add: s_archive_def Let_def st1_def z_def archive_extra_def)
  also have "\<dots> = drop (nat (int (length z) - max_size + 1)) z"
    using ok assms(2) by (simp add: zrange_idx_prefix zrem_all_prefix zset_ok_def)
  finally show ?thesis using assms(2) by simp
qed

text \<open>
  When more tasks are to be trimmed than \<open>unpack\<close> takes, the script stops half way: the task
  is no longer active, the hashes of the trimmed tasks are gone and the archive still lists them.
\<close>

definition half_trimmed :: "string list \<Rightarrow> queue_state \<Rightarrow> queue_state" where
  "half_trimmed ids st = st\<lparr>q_tasks := (\<lambda>i. if i \<in> set ids then [] else q_tasks st i)\<rparr>"

lemma does_trim_too_many:
  assumes "um < length ids"
  shows "does q (trim_set um (ArchivedKey q) (TaskKeyPrefix q) ids p) st
    (RErr ''too many results to unpack'') (half_trimmed ids st)"
  using assms unfolding trim_set_def key_simps half_trimmed_def
  by (auto intro!: does_lua_for_DEL does_Ret)

lemma does_archive_too_many:
  fixes st :: queue_state and tid :: string and died cutoff :: int
  defines "st1 \<equiv> (s_release tid st)\<lparr>q_archived := zadd died tid (q_archived st)\<rparr>"
  defines "st2 \<equiv> s_trim (archive_old cutoff st1) st1"
  assumes "holds_lease st tid"
  shows "um < length (archive_old cutoff st1) \<Longrightarrow>
      does q (archiveCmd um (TaskKey q tid) (ActiveKey q) (LeaseKey q) (ArchivedKey q) (ProcessedKey q t)
        (FailedKey q t) (ProcessedTotalKey q) (FailedTotalKey q) (TaskKeyPrefix q) tid msg died cutoff
        max_size e max_int64) st (RErr ''too many results to unpack'')
        (half_trimmed (archive_old cutoff st1) st1)"
    and "length (archive_old cutoff st1) \<le> um \<Longrightarrow> um < length (archive_extra max_size st2) \<Longrightarrow>
      does q (archiveCmd um (TaskKey q tid) (ActiveKey q) (LeaseKey q) (ArchivedKey q) (ProcessedKey q t)
        (FailedKey q t) (ProcessedTotalKey q) (FailedTotalKey q) (TaskKeyPrefix q) tid msg died cutoff
        max_size e max_int64) st (RErr ''too many results to unpack'')
        (half_trimmed (archive_extra max_size st2) st2)"
proof -
  have a: "set_zval KArchived (zadd died tid (zval KArchived (s_release tid st))) (s_release tid st) = st1"
    "zval KArchived st1 = q_archived st1" "zval KArchived st2 = q_archived st2"
    by (simp_all add: st1_def)
  show "does q (archiveCmd um (TaskKey q tid) (ActiveKey q) (LeaseKey q) (ArchivedKey q) (ProcessedKey q t)
      (FailedKey q t) (ProcessedTotalKey q) (FailedTotalKey q) (TaskKeyPrefix q) tid msg died cutoff
      max_size e max_int64) st (RErr ''too many results to unpack'') (half_trimmed (archive_old cutoff st1) st1)"
    if "um < length (archive_old cutoff st1)"
    unfolding archiveCmd_def key_simps(5)
    by (rule does_take_active [OF assms(3)], rule does_ZADD, simp, subst a(1),
        rule does_ZRANGEBYSCORE, simp, subst a(2))
       (use does_trim_too_many [OF that, of q _ st1] in
         \<open>simp add: archive_old_def limit_def key_simps(5) del: bulk_list.simps\<close>)
  assume f: "length (archive_old cutoff st1) \<le> um" "um < length (archive_extra max_size st2)"
  have t: "does q (call (ZRANGE (ArchivedKey q) 0 (- max_size)) (\<lambda>extra.
      trim_set um (ArchivedKey q) (TaskKeyPrefix q) (bulk_list extra) p)) st2
      (RErr ''too many results to unpack'') (half_trimmed (archive_extra max_size st2) st2)" for p
    using does_trim_too_many [OF f(2), of q p st2]
    unfolding key_simps(5)
    by (intro does_ZRANGE) (simp_all add: archive_extra_def key_simps a(3) del: bulk_list.simps)
  show "does q (archiveCmd um (TaskKey q tid) (ActiveKey q) (LeaseKey q) (ArchivedKey q) (ProcessedKey q t)
      (FailedKey q t) (ProcessedTotalKey q) (FailedTotalKey q) (TaskKeyPrefix q) tid msg died cutoff
      max_size e max_int64) st (RErr ''too many results to unpack'') (half_trimmed (archive_extra max_size st2) st2)"
    unfolding archiveCmd_def key_simps(5)
    by (rule does_take_active [OF assms(3)], rule does_ZADD, simp, subst a(1),
        rule does_ZRANGEBYSCORE, simp, subst a(2))
       (use does_trim [OF f(1) t [unfolded st2_def]] in
         \<open>simp add: archive_old_def limit_def key_simps(5) st2_def del: bulk_list.simps\<close>)
qed

end
