(* ===== verification/System.thy ===== *)
theory System
  imports Refinement
begin

text \<open>
  The queue system as a whole: any number of clients and servers issue the operations of
  \<open>internal/rdb/rdb.go\<close> against one Redis server, in any order, while time passes. The
  server runs each script without interruption, so an execution is a sequence of such
  operations. \<open>qop\<close> lists them, \<open>qop_prog\<close> gives the program each sends and \<open>qop_effect\<close> its
  meaning on the abstract queue; \<open>reach n db\<close> says that \<open>db\<close> is reached in \<open>n\<close> steps.
\<close>

datatype qop =
    Op_enqueue string string int                 \<comment> \<open>task ID, message, now in ns\<close>
  | Op_enqueue_unique string string int string int \<comment> \<open>lock, task ID, TTL, message, now in ns\<close>
  | Op_schedule string string int
  | Op_schedule_unique string string int int string
  | Op_dequeue int
  | Op_done string int int
  | Op_done_unique string string int int
  | Op_complete string int int int string
  | Op_requeue string
  | Op_retry string string int int int bool
  | Op_archive string string int int int int int
  | Op_forward delayed int int
  | Op_expire int int
  | Op_list_expired int
  | Op_extend "(int \<times> string) list"
  | Op_result string string

fun qop_prog :: "nat \<Rightarrow> string \<Rightarrow> qop \<Rightarrow> reply prog" where
  "qop_prog um q (Op_enqueue tid msg now) = enqueueCmd (TaskKey q tid) (PendingKey q) msg tid now"
| "qop_prog um q (Op_enqueue_unique u tid ttl msg now) =
     enqueueUniqueCmd (kname q (KUnique u)) (TaskKey q tid) (PendingKey q) tid ttl msg now"
| "qop_prog um q (Op_schedule tid msg at) = scheduleCmd (TaskKey q tid) (ScheduledKey q) msg at tid"
| "qop_prog um q (Op_schedule_unique u tid ttl at msg) =
     scheduleUniqueCmd (kname q (KUnique u)) (TaskKey q tid) (ScheduledKey q) tid ttl at msg"
| "qop_prog um q (Op_dequeue e) =
     dequeueCmd (PendingKey q) (PausedKey q) (ActiveKey q) (LeaseKey q) e (TaskKeyPrefix q)"
| "qop_prog um q (Op_done tid t e) =
     doneCmd (ActiveKey q) (LeaseKey q) (TaskKey q tid) (ProcessedKey q t) (ProcessedTotalKey q) tid e max_int64"
| "qop_prog um q (Op_done_unique u tid t e) =
     doneUniqueCmd (ActiveKey q) (LeaseKey q) (TaskKey q tid) (ProcessedKey q t) (ProcessedTotalKey q)
       (kname q (KUnique u)) tid e max_int64"
| "qop_prog um q (Op_complete tid t e at msg) =
     markAsCompleteCmd (ActiveKey q) (LeaseKey q) (CompletedKey q) (TaskKey q tid) (ProcessedKey q t)
       (ProcessedTotalKey q) tid e at msg max_int64"
| "qop_prog um q (Op_requeue tid) =
     requeueCmd (ActiveKey q) (LeaseKey q) (PendingKey q) (TaskKey q tid) tid"
| "qop_prog um q (Op_retry tid msg t at e f) =
     retryCmd (TaskKey q tid) (ActiveKey q) (LeaseKey q) (RetryKey q) (ProcessedKey q t) (FailedKey q t)
       (ProcessedTotalKey q) (FailedTotalKey q) tid msg at e f max_int64"
| "qop_prog um q (Op_archive tid msg t died cutoff ms e) =
     archiveCmd um (TaskKey q tid) (ActiveKey q) (LeaseKey q) (ArchivedKey q) (ProcessedKey q t)
       (FailedKey q t) (ProcessedTotalKey q) (FailedTotalKey q) (TaskKeyPrefix q) tid msg died cutoff ms e
       max_int64"
| "qop_prog um q (Op_forward d now now_ns) =
     forwardCmd (kname q (dkey d)) (PendingKey q) now (TaskKeyPrefix q) now_ns"
| "qop_prog um q (Op_expire now batch) =
     deleteExpiredCompletedTasksCmd (CompletedKey q) now (TaskKeyPrefix q) batch"
| "qop_prog um q (Op_list_expired cutoff) = listLeaseExpiredCmd (LeaseKey q) cutoff (TaskKeyPrefix q)"
| "qop_prog um q (Op_extend ps) = single (ZADDXX (LeaseKey q) ps)"
| "qop_prog um q (Op_result tid data) = single (HSET (TaskKey q tid) [(''result'', data)])"

text \<open>A settling operation: it needs the task in the active list, and does nothing otherwise.\<close>

definition settle :: "string \<Rightarrow> (queue_state \<Rightarrow> queue_state) \<Rightarrow> queue_state \<Rightarrow> reply \<times> queue_state" where
  "settle tid f st =
     (if tid \<in> set (q_active st) then (RStatus ''OK'', f st) else (RErr ''NOT FOUND'', st))"

definition add_unique ::
  "string \<Rightarrow> string \<Rightarrow> int \<Rightarrow> (queue_state \<Rightarrow> queue_state) \<Rightarrow> queue_state \<Rightarrow> reply \<times> queue_state" where
  "add_unique u tid ttl f st =
     (if ttl \<le> 0 then (bad_expire, st)
      else if q_locks st u \<noteq> None then (RInt (- 1), st)
      else if q_tasks st tid \<noteq> [] then (RInt 0, s_lock u tid st)
      else (RInt 1, f (s_lock u tid st)))"

fun qop_effect :: "string \<Rightarrow> qop \<Rightarrow> queue_state \<Rightarrow> reply \<times> queue_state" where
  "qop_effect q (Op_enqueue tid msg now) st =
     (if q_tasks st tid \<noteq> [] then (RInt 0, st) else (RInt 1, s_enqueue msg tid now [] st))"
| "qop_effect q (Op_enqueue_unique u tid ttl msg now) st =
     add_unique u tid ttl (s_enqueue msg tid now [(''unique_key'', kname q (KUnique u))]) st"
| "qop_effect q (Op_schedule tid msg at) st =
     (if q_tasks st tid \<noteq> [] then (RInt 0, st) else (RInt 1, s_schedule msg tid at [] st))"
| "qop_effect q (Op_schedule_unique u tid ttl at msg) st =
     add_unique u tid ttl (s_schedule msg tid at [(''unique_key'', kname q (KUnique u))]) st"
| "qop_effect q (Op_dequeue e) st = (bulk_or_nil (fst (s_dequeue e st)), snd (s_dequeue e st))"
| "qop_effect q (Op_done tid t e) st = settle tid (\<lambda>st. s_count_done (s_done tid st)) st"
| "qop_effect q (Op_done_unique u tid t e) st =
     settle tid (\<lambda>st. s_unlock u tid (s_count_done (s_done tid st))) st"
| "qop_effect q (Op_complete tid t e at msg) st =
     settle tid (\<lambda>st. s_count_done (s_complete tid at msg st)) st"
| "qop_effect q (Op_requeue tid) st = settle tid (s_requeue tid) st"
| "qop_effect q (Op_retry tid msg t at e f) st =
     settle tid (\<lambda>st. (if f then s_count_failed else (\<lambda>st. st)) (s_retry tid at msg st)) st"
| "qop_effect q (Op_archive tid msg t died cutoff ms e) st =
     settle tid (\<lambda>st. s_count_failed (s_archive tid died cutoff ms msg st)) st"
| "qop_effect q (Op_forward d now now_ns) st =
     (RInt (int (length (take 100 (due d now st)))), s_forward d now now_ns st)"
| "qop_effect q (Op_expire now batch) st =
     (RInt (int (length (limit (Some (0, batch)) (zrange_le now (q_completed st))))), s_expire now batch st)"
| "qop_effect q (Op_list_expired cutoff) st =
     (RArr (map RBulk (messages_of st (zrange_le cutoff (q_lease st)))), st)"
| "qop_effect q (Op_extend ps) st = (if ps = [] then (bad_arity, st) else (RInt 0, s_extend ps st))"
| "qop_effect q (Op_result tid data) st =
     (RInt (int (length (hset_all [(''result'', data)] (q_tasks st tid))) - int (length (q_tasks st tid))),
      s_result tid data st)"

text \<open>\<open>unpack\<close> can take the IDs an archiving trims.\<close>

fun trim_fits :: "nat \<Rightarrow> qop \<Rightarrow> queue_state \<Rightarrow> bool" where
  "trim_fits um (Op_archive tid msg t died cutoff ms e) st \<longleftrightarrow>
     (let st1 = (s_release tid st)\<lparr>q_archived := zadd died tid (q_archived st)\<rparr>
      in length (archive_old cutoff st1) \<le> um
         \<and> length (archive_extra ms (s_trim (archive_old cutoff st1) st1)) \<le> um)"
| "trim_fits um _ st \<longleftrightarrow> True"

text \<open>
  The effect of every script, an archiving whose trim fails included: the script stops with the
  hashes of the trimmed tasks deleted. Where the trims fit it is \<open>qop_effect\<close>.
\<close>

definition archive_effect ::
  "nat \<Rightarrow> string \<Rightarrow> int \<Rightarrow> int \<Rightarrow> int \<Rightarrow> string \<Rightarrow> queue_state \<Rightarrow> reply \<times> queue_state" where
  "archive_effect um tid died cutoff ms msg st =
     (let st1 = (s_release tid st)\<lparr>q_archived := zadd died tid (q_archived st)\<rparr>;
          old = archive_old cutoff st1;
          st2 = s_trim old st1;
          extra = archive_extra ms st2
      in if um < length old then (RErr ''too many results to unpack'', half_trimmed old st1)
         else if um < length extra then (RErr ''too many results to unpack'', half_trimmed extra st2)
         else (RStatus ''OK'', s_count_failed (s_archive tid died cutoff ms msg st)))"

fun script_effect :: "nat \<Rightarrow> string \<Rightarrow> qop \<Rightarrow> queue_state \<Rightarrow> reply \<times> queue_state" where
  "script_effect um q (Op_archive tid msg t died cutoff ms e) st =
     (if tid \<in> set (q_active st) then archive_effect um tid died cutoff ms msg st
      else (RErr ''NOT FOUND'', st))"
| "script_effect um q op st = qop_effect q op st"

definition counters_ok :: "queue_state \<Rightarrow> bool" where
  "counters_ok st \<longleftrightarrow> 0 \<le> q_daily st \<and> q_daily st + 1 < max_int64 \<and> q_failed st < max_int64"

lemma qinv_active_facts:
  assumes "qinv st" and "tid \<in> set (q_active st)"
  shows "holds_lease st tid" "q_tasks st tid \<noteq> []" "tid \<notin> set (zmembers (q_completed st))"
proof -
  have act: "tid \<in> in_state st TaskStateActive" using assms(2) by simp
  show "holds_lease st tid" using assms qinv_parts(8) [OF assms(1)] by (simp add: holds_lease_def)
  show "q_tasks st tid \<noteq> []"
    using placed_absent [OF qinv_parts(4) [OF assms(1)], of tid TaskStateActive] act by blast
  show "tid \<notin> set (zmembers (q_completed st))"
    using in_state_disjoint [OF assms(1) act, of TaskStateCompleted] by simp
qed

lemma does_call_err:
  assumes "\<And>db. qrep q db st \<Longrightarrow> exec_cmd c db = (RErr e, db)"
  shows "does q (call c k) st (RErr e) st"
  using assms by (simp add: does_def run_call)

lemma does_settle:
  assumes "tid \<in> set (q_active st) \<Longrightarrow> does q p st (RStatus ''OK'') (f st)"
    and "tid \<notin> set (q_active st) \<Longrightarrow> does q p st (RErr ''NOT FOUND'') st"
  shows "does q p st (fst (settle tid f st)) (snd (settle tid f st))"
  using assms by (simp add: settle_def)

text \<open>Every script implements its abstract operation.\<close>

theorem qop_refines:
  assumes "qinv st" and "counters_ok st" and "trim_fits um op st"
  shows "does q (qop_prog um q op) st (fst (qop_effect q op st)) (snd (qop_effect q op st))"
proof (cases op)
  case (Op_enqueue tid msg now)
  then show ?thesis using does_enqueue by simp
next
  case (Op_enqueue_unique u tid ttl msg now)
  show ?thesis
  proof (cases "ttl \<le> 0")
    case True
    then show ?thesis
      unfolding Op_enqueue_unique qop_prog.simps enqueueUniqueCmd_def
      by (simp add: add_unique_def bad_expire_def) (rule does_call_err, simp add: bad_expire_def)
  next
    case False
    then have "0 < ttl" by simp
    note rules = does_enqueue_unique [OF this, where st = st and u = u and q = q and tid = tid]
    show ?thesis using False rules by (simp add: Op_enqueue_unique add_unique_def)
  qed
next
  case (Op_schedule tid msg at)
  then show ?thesis using does_schedule by simp
next
  case (Op_schedule_unique u tid ttl at msg)
  show ?thesis
  proof (cases "ttl \<le> 0")
    case True
    then show ?thesis
      unfolding Op_schedule_unique qop_prog.simps scheduleUniqueCmd_def
      by (simp add: add_unique_def bad_expire_def) (rule does_call_err, simp add: bad_expire_def)
  next
    case False
    then have "0 < ttl" by simp
    note rules = does_schedule_unique [OF this, where st = st and u = u and q = q and tid = tid]
    show ?thesis using False rules by (simp add: Op_schedule_unique add_unique_def)
  qed
next
  case (Op_dequeue e)
  then show ?thesis using does_dequeue by simp
next
  case (Op_done tid t e)
  show ?thesis
    unfolding Op_done qop_prog.simps qop_effect.simps
    by (rule does_settle)
       (use assms(2) in \<open>auto simp: counters_ok_def intro!: does_done does_settle_not_found qinv_active_facts [OF assms(1)]\<close>)
next
  case (Op_done_unique u tid t e)
  show ?thesis
    unfolding Op_done_unique qop_prog.simps qop_effect.simps
    by (rule does_settle)
       (use assms(2) in \<open>auto simp: counters_ok_def intro!: does_done_unique does_settle_not_found qinv_active_facts [OF assms(1)]\<close>)
next
  case (Op_complete tid t e at msg)
  show ?thesis
    unfolding Op_complete qop_prog.simps qop_effect.simps
    by (rule does_settle)
       (use assms(2) in \<open>auto simp: counters_ok_def intro!: does_complete does_settle_not_found
         dest: qinv_active_facts [OF assms(1)]\<close>)
next
  case (Op_requeue tid)
  show ?thesis
    unfolding Op_requeue qop_prog.simps qop_effect.simps
    by (rule does_settle)
       (auto intro!: does_requeue does_settle_not_found qinv_active_facts [OF assms(1)])
next
  case (Op_retry tid msg t at e f)
  show ?thesis
    unfolding Op_retry qop_prog.simps qop_effect.simps
    by (rule does_settle, rule does_retry)
       (use assms(2) in \<open>auto simp: counters_ok_def intro!: does_settle_not_found qinv_active_facts [OF assms(1)]\<close>)
next
  case (Op_archive tid msg t died cutoff ms e)
  show ?thesis
    unfolding Op_archive qop_prog.simps qop_effect.simps
    by (rule does_settle, rule does_archive)
       (use assms(2,3) Op_archive in \<open>auto simp: counters_ok_def Let_def
         intro!: does_settle_not_found qinv_active_facts [OF assms(1)]\<close>)
next
  case (Op_extend ps)
  show ?thesis
  proof (cases "ps = []")
    case True
    show ?thesis
      unfolding Op_extend qop_prog.simps True qop_effect.simps
      by (simp add: bad_arity_def) (rule does_single, rule does_call_err, simp add: bad_arity_def)
  next
    case False
    then show ?thesis using does_extend [OF False, of q st] by (simp add: Op_extend)
  qed
qed (simp_all add: does_forward does_expire does_list_lease_expired does_write_result del: length_take)

lemma script_effect_fits: "trim_fits um op st \<Longrightarrow> script_effect um q op st = qop_effect q op st"
  by (cases op) (auto simp: archive_effect_def settle_def Let_def)

theorem script_refines:
  assumes "qinv st" and "counters_ok st"
  shows "does q (qop_prog um q op) st (fst (script_effect um q op st)) (snd (script_effect um q op st))"
proof (cases "trim_fits um op st")
  case True
  then show ?thesis using qop_refines [OF assms True] by (simp add: script_effect_fits)
next
  case False
  then obtain tid msg t died cutoff ms e where op: "op = Op_archive tid msg t died cutoff ms e"
    by (cases op) auto
  show ?thesis
  proof (cases "tid \<in> set (q_active st)")
    case active: True
    note rules = does_archive_too_many [OF qinv_active_facts(1) [OF assms(1) active], where um = um]
    show ?thesis
      using False rules active unfolding op by (auto simp: archive_effect_def Let_def)
  next
    case inactive: False
    then show ?thesis by (simp add: op does_settle_not_found)
  qed
qed

text \<open>Every abstract operation keeps the invariant.\<close>

theorem qinv_qop:
  assumes inv: "qinv st"
  shows "qinv (snd (qop_effect q op st))"
proof -
  have uniq: "''state'' \<notin> fst ` set [(''unique_key'', k)]" "''msg'' \<notin> fst ` set [(''unique_key'', k)]" for k :: string
    by simp_all
  have lock: "q_tasks (s_lock u tid st) = q_tasks st" for u tid by (simp add: s_lock_def)
  show ?thesis
    using inv
    by (cases op)
       (simp_all add: settle_def add_unique_def qinv_s_enqueue qinv_s_schedule qinv_s_dequeue qinv_s_done
         qinv_s_complete qinv_s_requeue qinv_s_retry qinv_s_archive qinv_s_forward qinv_s_expire qinv_s_extend
         qinv_s_result qinv_s_count_done qinv_s_count_failed qinv_s_lock qinv_s_unlock lock)
qed

subsection \<open>The counters along an execution\<close>

lemma fold_same:
  assumes "\<And>x st. f (g x st) = f st"
  shows "f (fold g xs st) = f st"
  using assms by (induction xs arbitrary: st) simp_all

lemma set_delayed_counters [simp]:
  "q_daily (set_delayed d z st) = q_daily st" "q_failed (set_delayed d z st) = q_failed st"
  by (cases d; simp)+

lemma forward_counters [simp]:
  "q_daily (s_forward d now ns st) = q_daily st" "q_failed (s_forward d now ns st) = q_failed st"
  by (simp_all add: s_forward_def fold_same [where f = q_daily] fold_same [where f = q_failed]
      s_forward1_def)

lemma expire_counters [simp]:
  "q_daily (s_expire now batch st) = q_daily st" "q_failed (s_expire now batch st) = q_failed st"
  by (simp_all add: s_expire_def fold_same [where f = q_daily] fold_same [where f = q_failed] s_expire1_def)

lemma s_counters [simp]:
  "q_daily (s_enqueue msg tid now ex st) = q_daily st" "q_failed (s_enqueue msg tid now ex st) = q_failed st"
  "q_daily (s_schedule msg tid at ex st) = q_daily st" "q_failed (s_schedule msg tid at ex st) = q_failed st"
  "q_daily (s_done tid st) = q_daily st" "q_failed (s_done tid st) = q_failed st"
  "q_daily (s_complete tid at msg st) = q_daily st" "q_failed (s_complete tid at msg st) = q_failed st"
  "q_daily (s_requeue tid st) = q_daily st" "q_failed (s_requeue tid st) = q_failed st"
  "q_daily (s_retry tid at msg st) = q_daily st" "q_failed (s_retry tid at msg st) = q_failed st"
  "q_daily (s_archive tid died co ms msg st) = q_daily st" "q_failed (s_archive tid died co ms msg st) = q_failed st"
  "q_daily (s_extend ps st) = q_daily st" "q_failed (s_extend ps st) = q_failed st"
  "q_daily (s_result tid data st) = q_daily st" "q_failed (s_result tid data st) = q_failed st"
  "q_daily (s_lock u tid st) = q_daily st" "q_failed (s_lock u tid st) = q_failed st"
  "q_daily (s_unlock u tid st) = q_daily st" "q_failed (s_unlock u tid st) = q_failed st"
  by (simp_all add: s_enqueue_def s_schedule_def s_done_def s_complete_def s_requeue_def s_retry_def s_archive_def s_trim_def Let_def s_extend_def s_result_def s_lock_def s_unlock_def)

lemma s_dequeue_counters [simp]:
  "q_daily (snd (s_dequeue e st)) = q_daily st" "q_failed (snd (s_dequeue e st)) = q_failed st"
  by (simp_all add: s_dequeue_def Let_def)

lemma count_counters [simp]:
  "q_daily (s_count_done st) = q_daily st + 1" "q_failed (s_count_done st) = q_failed st"
  "q_daily (s_count_failed st) = q_daily st + 2"
  "q_failed (s_count_failed st) = (if total_full (q_processed st) then 1 else q_failed st + 1)"
  by (simp_all add: s_count_done_def s_count_failed_def)

definition counts_from :: "queue_state \<Rightarrow> queue_state \<Rightarrow> bool" where
  "counts_from st st' \<longleftrightarrow> q_daily st \<le> q_daily st' \<and> q_daily st' \<le> q_daily st + 2
     \<and> (q_failed st' = q_failed st \<or> q_failed st' = q_failed st + 1 \<or> q_failed st' = 1)"

lemma add_unique_counters:
  "(\<And>st. q_daily (f st) = q_daily st) \<Longrightarrow> (\<And>st. q_failed (f st) = q_failed st) \<Longrightarrow>
   counts_from st (snd (add_unique u tid ttl f st))"
  by (simp add: add_unique_def counts_from_def)

lemma qop_counters: "counts_from st (snd (qop_effect q op st))"
proof (cases op)
  case (Op_retry tid msg t at e f)
  then show ?thesis by (cases f) (simp_all add: settle_def counts_from_def)
qed (simp_all add: add_unique_counters, simp_all add: settle_def counts_from_def)

subsection \<open>Executions\<close>

text \<open>
  \<open>operate\<close>: one operation on one queue; \<open>pass\<close>: time goes by and keys expire;
  \<open>elsewhere\<close>: a program that writes no key of a queue (the queue index, server and worker
  records). \<open>B\<close> are the queues in which a trim of the archive may fail; names of queues
  with a closing brace, whose keys can be those of another queue, are left out.
\<close>

inductive reach :: "nat \<Rightarrow> string set \<Rightarrow> nat \<Rightarrow> keyspace \<Rightarrow> bool" for um :: nat and B :: "string set" where
  fresh: "reach um B 0 \<lparr>ents = [], srv_ms = t\<rparr>"
| operate: "reach um B n db \<Longrightarrow> good_name q \<Longrightarrow> (\<And>st. q \<notin> B \<Longrightarrow> qrep q db st \<Longrightarrow> trim_fits um op st) \<Longrightarrow>
    reach um B (Suc n) (snd (run (qop_prog um q op) db))"
| pass: "reach um B n db \<Longrightarrow> srv_ms db \<le> t \<Longrightarrow> reach um B n (advance t db)"
| elsewhere: "reach um B n db \<Longrightarrow> prog_writes W p \<Longrightarrow> (\<And>q. W \<inter> queue_keys q = {}) \<Longrightarrow>
    reach um B n (snd (run (p :: reply prog) db))"

definition queue_ok :: "nat \<Rightarrow> string \<Rightarrow> keyspace \<Rightarrow> bool" where
  "queue_ok n q db \<longleftrightarrow>
     (\<exists>st. qrep q db st \<and> qinv st \<and> 0 \<le> q_daily st \<and> q_daily st \<le> 2 * int n \<and> q_failed st \<le> int n)"

lemma qop_prog_writes: "prog_writes (queue_keys q) (qop_prog um q op)"
  using scripts_write_queue_keys [of q] prog_writes_dequeue [of q] by (cases op) simp_all

lemma reach_queue_ok:
  assumes "reach um B n db" and "n < 2 ^ 61" and "good_name q" and "q \<notin> B"
  shows "queue_ok n q db"
  using assms
proof (induction arbitrary: q rule: reach.induct)
  case (fresh t)
  then show ?case
    using qrep_empty [of q t] qinv_empty
    by (auto simp: queue_ok_def empty_queue_def intro!: exI [of _ empty_queue])
next
  case (operate n db q' op)
  from operate.IH [of q] operate.prems obtain st where
    st: "qrep q db st" "qinv st" "0 \<le> q_daily st" "q_daily st \<le> 2 * int n" "q_failed st \<le> int n"
    by (auto simp: queue_ok_def)
  show ?case
  proof (cases "q = q'")
    case True
    have "counters_ok st"
      using st operate.prems by (simp add: counters_ok_def max_int64_def)
    from qop_refines [OF st(2) this operate.hyps(3), of q'] st(1) True operate.prems(3)
    have "qrep q (snd (run (qop_prog um q' op) db)) (snd (qop_effect q' op st))"
      by (simp add: doesD)
    then show ?thesis
      using qinv_qop [OF st(2), of q' op] qop_counters [of st q' op] st(3-5)
      unfolding queue_ok_def counts_from_def by (intro exI [of _ "snd (qop_effect q' op st)"]) auto
  next
    case False
    have "qrep q (snd (run (qop_prog um q' op) db)) st"
      using qrep_other [OF qop_prog_writes operate.hyps(2) operate.prems(2) False st(1)] .
    then show ?thesis
      using st(2-5) unfolding queue_ok_def by (intro exI [of _ st]) auto
  qed
next
  case (pass n db t)
  from pass.IH [of q] pass.prems obtain st where
    st: "qrep q db st" "qinv st" "0 \<le> q_daily st" "q_daily st \<le> 2 * int n" "q_failed st \<le> int n"
    by (auto simp: queue_ok_def)
  from qrep_advance [OF st(1) pass.hyps(2)] obtain U where "qrep q (advance t db) (drop_locks U st)" ..
  moreover have "qinv (drop_locks U st)"
    by (rule qinv_same_data [OF st(2)]) (simp_all add: drop_locks_def)
  ultimately show ?case
    using st(3-5) unfolding queue_ok_def by (intro exI [of _ "drop_locks U st"]) (simp add: drop_locks_def)
next
  case (elsewhere n db W p)
  have "lookup (snd (run p db)) (kname q k) = lookup db (kname q k)" for k
    using elsewhere.hyps(3) [of q] by (intro run_frame [OF elsewhere.hyps(2)]) auto
  then show ?case
    using elsewhere.IH [of q] elsewhere.prems qrep_cong unfolding queue_ok_def by blast
qed

end
