(* ===== verification/Json.thy ===== *)
theory Json
  imports Base
begin

text \<open>
  What \<open>EncodeMessage\<close> and \<open>DecodeMessage\<close> of \<open>internal/base/base.go\<close> use of
  \<open>encoding/json\<close>: compact objects whose members are strings, integers, booleans, null and
  objects, with the HTML-safe escaping of \<open>json.Marshal\<close>, the replacement of invalid UTF-8,
  \<open>omitempty\<close> and base64 for byte slices. The reader takes objects in the form
  \<open>json.Marshal\<close> writes them (no white space, no arrays, no fractions, exact member names);
  any other text is an error.
  A \<open>char\<close> is a byte.
\<close>

subsection \<open>UTF-8\<close>

definition byte :: "char \<Rightarrow> nat" where
  "byte c = of_char c"

definition byte_in :: "nat \<Rightarrow> nat \<Rightarrow> char \<Rightarrow> bool" where
  "byte_in lo hi c \<longleftrightarrow> lo \<le> byte c \<and> byte c \<le> hi"

text \<open>The length of the multi-byte sequence at the front, 0 when it is not valid.\<close>

fun utf8_len :: "string \<Rightarrow> nat" where
  "utf8_len (a # b # r) =
     (let x = byte a in
      if 0xC2 \<le> x \<and> x \<le> 0xDF then (if byte_in 0x80 0xBF b then 2 else 0)
      else if 0xE0 \<le> x \<and> x \<le> 0xEF then
        (case r of
           c # _ \<Rightarrow>
             if byte_in (if x = 0xE0 then 0xA0 else 0x80) (if x = 0xED then 0x9F else 0xBF) b
               \<and> byte_in 0x80 0xBF c then 3 else 0
         | [] \<Rightarrow> 0)
      else if 0xF0 \<le> x \<and> x \<le> 0xF4 then
        (case r of
           c # d # _ \<Rightarrow>
             if byte_in (if x = 0xF0 then 0x90 else 0x80) (if x = 0xF4 then 0x8F else 0xBF) b
               \<and> byte_in 0x80 0xBF c \<and> byte_in 0x80 0xBF d then 4 else 0
         | _ \<Rightarrow> 0)
      else 0)"
| "utf8_len _ = 0"

fun valid_utf8 :: "string \<Rightarrow> bool" where
  "valid_utf8 [] = True"
| "valid_utf8 (c # cs) =
     (if byte c < 128 then valid_utf8 cs
      else utf8_len (c # cs) \<noteq> 0 \<and> valid_utf8 (drop (utf8_len (c # cs) - 1) cs))"

definition chr :: "nat \<Rightarrow> char" where
  "chr n = char_of n"

definition utf8_encode :: "nat \<Rightarrow> string" where
  "utf8_encode u =
     (if u < 0x80 then [chr u]
      else if u < 0x800 then [chr (0xC0 + u div 64), chr (0x80 + u mod 64)]
      else if u < 0x10000 then
        [chr (0xE0 + u div 4096), chr (0x80 + (u div 64) mod 64), chr (0x80 + u mod 64)]
      else [chr (0xF0 + u div 262144), chr (0x80 + (u div 4096) mod 64),
            chr (0x80 + (u div 64) mod 64), chr (0x80 + u mod 64)])"

subsection \<open>Strings\<close>

definition hex_digit :: "nat \<Rightarrow> char" where
  "hex_digit d = (if d < 10 then chr (48 + d) else chr (87 + d))"

definition hex_val :: "char \<Rightarrow> nat option" where
  "hex_val c =
     (let n = byte c in
      if 48 \<le> n \<and> n \<le> 57 then Some (n - 48)
      else if 97 \<le> n \<and> n \<le> 102 then Some (n - 87)
      else if 65 \<le> n \<and> n \<le> 70 then Some (n - 55)
      else None)"

definition quote :: char where
  "quote = CHR 0x22"

definition backslash :: char where
  "backslash = CHR 0x5C"

definition u_escape :: "nat \<Rightarrow> string" where
  "u_escape b = [backslash, CHR ''u'', CHR ''0'', CHR ''0'', hex_digit (b div 16), hex_digit (b mod 16)]"

definition esc_ascii :: "char \<Rightarrow> string" where
  "esc_ascii c =
     (let b = byte c in
      if c = quote \<or> c = backslash then [backslash, c]
      else if b = 8 then [backslash, CHR ''b'']
      else if b = 12 then [backslash, CHR ''f'']
      else if b = 10 then [backslash, CHR ''n'']
      else if b = 13 then [backslash, CHR ''r'']
      else if b = 9 then [backslash, CHR ''t'']
      else if b < 32 \<or> c = CHR ''<'' \<or> c = CHR ''>'' \<or> c = CHR ''&'' then u_escape b
      else [c])"

definition line_sep :: string where
  "line_sep = [chr 0xE2, chr 0x80, chr 0xA8]"

definition para_sep :: string where
  "para_sep = [chr 0xE2, chr 0x80, chr 0xA9]"

fun esc :: "string \<Rightarrow> string" where
  "esc [] = []"
| "esc (c # cs) =
     (if byte c < 128 then esc_ascii c @ esc cs
      else (let n = utf8_len (c # cs) in
        if n = 0 then backslash # ''ufffd'' @ esc cs
        else (let u = take n (c # cs) in
          (if u = line_sep then backslash # ''u2028''
           else if u = para_sep then backslash # ''u2029'' else u)
          @ esc (drop (n - 1) cs))))"

definition hex4 :: "string \<Rightarrow> nat option" where
  "hex4 s =
     (case s of
        a # b # c # d # _ \<Rightarrow>
          (case (hex_val a, hex_val b, hex_val c, hex_val d) of
             (Some w, Some x, Some y, Some z) \<Rightarrow> Some (((w * 16 + x) * 16 + y) * 16 + z)
           | _ \<Rightarrow> None)
      | _ \<Rightarrow> None)"

definition cons_str :: "string \<Rightarrow> (string \<times> string) option \<Rightarrow> (string \<times> string) option" where
  "cons_str p = map_option (\<lambda>(s, r). (p @ s, r))"

definition simple_escape :: "char \<Rightarrow> string option" where
  "simple_escape e =
     (if e = quote \<or> e = backslash \<or> e = CHR ''/'' then Some [e]
      else if e = CHR ''b'' then Some [chr 8]
      else if e = CHR ''f'' then Some [chr 12]
      else if e = CHR ''n'' then Some [chr 10]
      else if e = CHR ''r'' then Some [chr 13]
      else if e = CHR ''t'' then Some [chr 9]
      else None)"

definition replacement :: string where
  "replacement = [chr 0xEF, chr 0xBF, chr 0xBD]"

text \<open>\<open>unq\<close> reads up to the closing quote and returns the text and what follows it.\<close>

fun unq :: "string \<Rightarrow> (string \<times> string) option" where
  "unq [] = None"
| "unq (c # cs) =
     (if c = quote then Some ([], cs)
      else if c = backslash then
        (case cs of
           [] \<Rightarrow> None
         | e # r \<Rightarrow>
             (case simple_escape e of
                Some s \<Rightarrow> cons_str s (unq r)
              | None \<Rightarrow>
                  if e = CHR ''u'' then
                    (case hex4 r of
                       None \<Rightarrow> None
                     | Some u \<Rightarrow>
                         if 0xD800 \<le> u \<and> u < 0xDC00 \<and> take 2 (drop 4 r) = [backslash, CHR ''u'']
                           \<and> (case hex4 (drop 6 r) of None \<Rightarrow> False | Some v \<Rightarrow> 0xDC00 \<le> v \<and> v < 0xE000)
                         then cons_str (utf8_encode (0x10000 + (u - 0xD800) * 1024
                                + (the (hex4 (drop 6 r)) - 0xDC00))) (unq (drop 10 r))
                         else if 0xD800 \<le> u \<and> u < 0xE000 then cons_str replacement (unq (drop 4 r))
                         else cons_str (utf8_encode u) (unq (drop 4 r)))
                  else None))
      else if byte c < 32 then None
      else if byte c < 128 then cons_str [c] (unq cs)
      else (let n = utf8_len (c # cs) in
        if n = 0 then cons_str replacement (unq cs)
        else cons_str (take n (c # cs)) (unq (drop (n - 1) cs))))"

declare esc.simps(2) [simp del] unq.simps(2) [simp del]

subsection \<open>Reading back what was written\<close>

lemma byte_chr [simp]: "n < 256 \<Longrightarrow> byte (chr n) = n"
  by (simp add: byte_def chr_def)

lemma chr_byte [simp]: "chr (byte c) = c"
  by (simp add: byte_def chr_def)

lemma byte_less [simp]: "byte c < 256"
  by (simp add: byte_def)

lemma byte_eqI: "byte c = n \<Longrightarrow> c = chr n"
  by auto

lemma hex_val_hex_digit [simp]: "d < 16 \<Longrightarrow> hex_val (hex_digit d) = Some d"
  by (simp add: hex_val_def hex_digit_def Let_def)

lemma hex_val_0 [simp]: "hex_val (CHR ''0'') = Some 0"
  by (simp add: hex_val_def byte_def)

lemma hex4_byte:
  "b < 256 \<Longrightarrow> hex4 (CHR ''0'' # CHR ''0'' # hex_digit (b div 16) # hex_digit (b mod 16) # r) = Some b"
  by (simp add: hex4_def)

lemma utf8_len_cases:
  assumes "utf8_len s = n" and "n \<noteq> 0"
  shows "(\<exists>a b r. s = a # b # r \<and> n = 2) \<or> (\<exists>a b c r. s = a # b # c # r \<and> n = 3)
    \<or> (\<exists>a b c d r. s = a # b # c # d # r \<and> n = 4)"
  using assms
  by (cases s rule: utf8_len.cases)
     (auto simp: Let_def split: if_splits list.splits)

lemma utf8_len_prefix:
  assumes "utf8_len s = n" and "n \<noteq> 0"
  shows "n \<le> length s \<and> 2 \<le> n \<and> utf8_len (take n s @ r) = n"
  using utf8_len_cases [OF assms] assms
  by (elim disjE exE conjE) (auto simp: Let_def numeral_2_eq_2 split: if_splits list.splits)

lemma utf8_len_lead: "utf8_len (c # cs) \<noteq> 0 \<Longrightarrow> 0xC2 \<le> byte c"
  by (cases cs) (auto simp: Let_def split: if_splits)

lemma byte_quote [simp]: "byte quote = 34" and byte_backslash [simp]: "byte backslash = 92"
  by (simp_all add: byte_def quote_def backslash_def)

lemma quote_neq_backslash [simp]: "quote \<noteq> backslash" "backslash \<noteq> quote"
  by (simp_all add: quote_def backslash_def)

lemma unq_simple: "simple_escape e = Some s \<Longrightarrow> unq (backslash # e # r) = cons_str s (unq r)"
  by (simp add: unq.simps(2))

lemma unq_u_escape:
  assumes "b < 128"
  shows "unq (u_escape b @ r) = cons_str [chr b] (unq r)"
proof -
  have "simple_escape (CHR ''u'') = None"
    by (simp add: simple_escape_def quote_def backslash_def)
  moreover have "utf8_encode b = [chr b]" using assms by (simp add: utf8_encode_def)
  ultimately show ?thesis
    using assms by (simp add: unq.simps(2) u_escape_def hex4_byte)
qed

lemma unq_esc_ascii:
  assumes "byte c < 128"
  shows "unq (esc_ascii c @ r) = cons_str [c] (unq r)"
proof -
  have ctl: "byte c = 8 \<Longrightarrow> c = chr 8" "byte c = 9 \<Longrightarrow> c = chr 9" "byte c = 10 \<Longrightarrow> c = chr 10"
    "byte c = 12 \<Longrightarrow> c = chr 12" "byte c = 13 \<Longrightarrow> c = chr 13"
    by (simp_all add: byte_eqI)
  have simple: "simple_escape quote = Some [quote]" "simple_escape backslash = Some [backslash]"
    "simple_escape (CHR ''b'') = Some [chr 8]" "simple_escape (CHR ''f'') = Some [chr 12]"
    "simple_escape (CHR ''n'') = Some [chr 10]" "simple_escape (CHR ''r'') = Some [chr 13]"
    "simple_escape (CHR ''t'') = Some [chr 9]"
    by (simp_all add: simple_escape_def quote_def backslash_def)
  show ?thesis
  proof (cases "c = quote \<or> c = backslash \<or> byte c \<in> {8, 9, 10, 12, 13}")
    case True
    have b: "byte (CHR ''<'') = 60" "byte (CHR ''>'') = 62" "byte (CHR ''&'') = 38"
      by (simp_all add: byte_def)
    have "\<exists>e. esc_ascii c = [backslash, e] \<and> simple_escape e = Some [c]"
    proof (cases "c = quote \<or> c = backslash")
      case True
      then show ?thesis using simple by (auto simp: esc_ascii_def)
    next
      case False
      with True have "byte c = 8 \<or> byte c = 9 \<or> byte c = 10 \<or> byte c = 12 \<or> byte c = 13"
        by simp
      then show ?thesis
        using False ctl simple by (elim disjE) (simp_all add: esc_ascii_def Let_def)
    qed
    then show ?thesis by (auto simp: unq_simple)
  next
    case False
    then have "esc_ascii c = u_escape (byte c) \<or> 32 \<le> byte c \<and> esc_ascii c = [c]"
      by (auto simp: esc_ascii_def Let_def)
    then show ?thesis using assms False by (auto simp: unq_u_escape unq.simps(2))
  qed
qed

lemma unq_line_sep: "unq (backslash # ''u2028'' @ r) = cons_str line_sep (unq r)"
  by (simp add: unq.simps(2) simple_escape_def quote_def backslash_def hex4_def hex_val_def byte_def
      Let_def utf8_encode_def line_sep_def)

lemma unq_para_sep: "unq (backslash # ''u2029'' @ r) = cons_str para_sep (unq r)"
  by (simp add: unq.simps(2) simple_escape_def quote_def backslash_def hex4_def hex_val_def byte_def
      Let_def utf8_encode_def para_sep_def)

lemma unq_multibyte:
  assumes "utf8_len (c # cs) = n" and "n \<noteq> 0"
  shows "unq (take n (c # cs) @ r) = cons_str (take n (c # cs)) (unq r)"
proof -
  have p: "n \<le> length (c # cs)" "2 \<le> n" "utf8_len (take n (c # cs) @ r) = n"
    using utf8_len_prefix [OF assms] by auto
  obtain n' where n: "n = Suc n'" using p by (cases n) auto
  have lead: "0xC2 \<le> byte c" using assms utf8_len_lead by metis
  then have "c \<noteq> quote" "c \<noteq> backslash" by auto
  moreover have "length (take n' cs) = n'" using p n by simp
  then have "take n' (take n' cs @ r) = take n' cs \<and> drop n' (take n' cs @ r) = r"
    by (metis append_eq_conv_conj)
  ultimately show ?thesis
    using lead p(3) assms(2) n
    by (simp add: unq.simps(2) Let_def del: take_append drop_append)
qed

lemma unq_esc:
  "valid_utf8 s \<Longrightarrow> unq (esc s @ quote # r) = Some (s, r)"
proof (induction s rule: valid_utf8.induct)
  case 1
  then show ?case by (simp add: unq.simps(2))
next
  case (2 c cs)
  show ?case
  proof (cases "byte c < 128")
    case True
    with 2 show ?thesis by (simp add: esc.simps(2) unq_esc_ascii cons_str_def)
  next
    case False
    let ?n = "utf8_len (c # cs)"
    have n: "?n \<noteq> 0" and IH: "unq (esc (drop (?n - 1) cs) @ quote # r) = Some (drop (?n - 1) cs, r)"
      using 2 False by auto
    have split: "take ?n (c # cs) @ drop (?n - 1) cs = c # cs"
      using n by (cases ?n) auto
    have "unq ((if take ?n (c # cs) = line_sep then backslash # ''u2028''
           else if take ?n (c # cs) = para_sep then backslash # ''u2029'' else take ?n (c # cs)) @ t)
        = cons_str (take ?n (c # cs)) (unq t)" for t
      using unq_line_sep [of t] unq_para_sep [of t] unq_multibyte [OF refl n, of t] by simp
    then show ?thesis
      using False n IH split by (simp add: esc.simps(2) Let_def cons_str_def)
  qed
qed

subsection \<open>Base64\<close>

definition b64_alphabet :: string where
  "b64_alphabet = ''ABCDEFGHIJKLMNOPQRSTUVWXYZabcdefghijklmnopqrstuvwxyz0123456789+/''"

definition b64_char :: "nat \<Rightarrow> char" where
  "b64_char n = b64_alphabet ! n"

definition b64_val :: "char \<Rightarrow> nat option" where
  "b64_val c = List.find (\<lambda>n. b64_char n = c) [0..<64]"

fun b64enc :: "string \<Rightarrow> string" where
  "b64enc [] = []"
| "b64enc [a] = [b64_char (byte a div 4), b64_char ((byte a mod 4) * 16), CHR ''='', CHR ''='']"
| "b64enc [a, b] =
     [b64_char (byte a div 4), b64_char ((byte a mod 4) * 16 + byte b div 16),
      b64_char ((byte b mod 16) * 4), CHR ''='']"
| "b64enc (a # b # c # r) =
     b64_char (byte a div 4) # b64_char ((byte a mod 4) * 16 + byte b div 16)
     # b64_char ((byte b mod 16) * 4 + byte c div 64) # b64_char (byte c mod 64) # b64enc r"

fun b64dec :: "string \<Rightarrow> string option" where
  "b64dec [] = Some []"
| "b64dec (w # x # y # z # r) =
     (case (b64_val w, b64_val x) of
        (Some p, Some q) \<Rightarrow>
          if z = CHR ''='' then
            (if r \<noteq> [] then None
             else if y = CHR ''='' then Some [chr (p * 4 + q div 16)]
             else (case b64_val y of
                     None \<Rightarrow> None
                   | Some u \<Rightarrow> Some [chr (p * 4 + q div 16), chr ((q mod 16) * 16 + u div 4)]))
          else
            (case (b64_val y, b64_val z, b64dec r) of
               (Some u, Some v, Some s) \<Rightarrow>
                 Some (chr (p * 4 + q div 16) # chr ((q mod 16) * 16 + u div 4)
                       # chr ((u mod 4) * 64 + v) # s)
             | _ \<Rightarrow> None)
      | _ \<Rightarrow> None)"
| "b64dec _ = None"

lemma b64_table: "list_all (\<lambda>n. b64_val (b64_char n) = Some n \<and> b64_char n \<noteq> CHR ''='') [0..<64]"
  by code_simp

lemma b64_val_char [simp]: "n < 64 \<Longrightarrow> b64_val (b64_char n) = Some n"
  and b64_char_neq [simp]: "n < 64 \<Longrightarrow> b64_char n \<noteq> CHR ''=''"
  using b64_table by (auto simp: list_all_iff)

lemma b64_bounds [simp]:
  "byte a div 4 < 64" "(byte a mod 4) * 16 < 64" "(byte a mod 4) * 16 + byte b div 16 < 64"
  "(byte b mod 16) * 4 < 64" "(byte b mod 16) * 4 + byte c div 64 < 64"
  using byte_less [of a] byte_less [of b] byte_less [of c] by linarith+

lemma b64_back1 [simp]:
  assumes "x < 16"
  shows "chr (byte a div 4 * 4 + ((byte a mod 4) * 16 + x) div 16) = a"
proof -
  have "((byte a mod 4) * 16 + x) div 16 = byte a mod 4" using assms by simp
  then show ?thesis by simp
qed

lemma b64_back2 [simp]:
  assumes "y < 4"
  shows "chr (((byte a mod 4) * 16 + byte b div 16) mod 16 * 16 + ((byte b mod 16) * 4 + y) div 4) = b"
proof -
  have "byte b div 16 < 16" using byte_less [of b] by linarith
  then have "((byte a mod 4) * 16 + byte b div 16) mod 16 = byte b div 16" by simp
  moreover have "((byte b mod 16) * 4 + y) div 4 = byte b mod 16" using assms by simp
  ultimately show ?thesis by simp
qed

lemma b64_back3 [simp]:
  "chr (((byte b mod 16) * 4 + byte c div 64) mod 4 * 64 + byte c mod 64) = c"
proof -
  have "byte c div 64 < 4" using byte_less [of c] by linarith
  then have "((byte b mod 16) * 4 + byte c div 64) mod 4 = byte c div 64" by simp
  then show ?thesis by simp
qed

lemma byte_parts [simp]: "byte b div 16 < 16" "byte c div 64 < 4"
  using byte_less [of b] byte_less [of c] by linarith+

lemma b64dec_b64enc: "b64dec (b64enc s) = Some s"
proof (induction s rule: b64enc.induct)
  case (2 a)
  show ?case using b64_back1 [of 0 a] by simp
next
  case (3 a b)
  show ?case using b64_back2 [of 0 a b] by simp
next
  case (4 a b c r)
  then show ?case by simp
qed simp

lemma ascii_b64enc: "c \<in> set (b64enc s) \<Longrightarrow> c \<in> set b64_alphabet \<union> {CHR ''=''}"
proof -
  have m: "n < 64 \<Longrightarrow> b64_char n \<in> set b64_alphabet" for n
    unfolding b64_char_def by (rule nth_mem) (simp add: b64_alphabet_def)
  show "c \<in> set (b64enc s) \<Longrightarrow> c \<in> set b64_alphabet \<union> {CHR ''=''}"
    by (induction s rule: b64enc.induct) (auto simp: m)
qed

lemma valid_utf8_b64enc: "valid_utf8 (b64enc s)"
proof -
  have "list_all (\<lambda>c. byte c < 128) (CHR ''='' # b64_alphabet)"
    by code_simp
  then have "\<forall>c \<in> set (b64enc s). byte c < 128"
    using ascii_b64enc by (fastforce simp: list_all_iff)
  moreover have "\<forall>c \<in> set t. byte c < 128 \<Longrightarrow> valid_utf8 t" for t
    by (induction t) auto
  ultimately show ?thesis by blast
qed

subsection \<open>Objects\<close>

datatype jval = JNull | JBool bool | JStr string | JNum int | JObj "(string \<times> jval) list"

fun render :: "jval \<Rightarrow> string"
  and render_members :: "(string \<times> jval) list \<Rightarrow> string" where
  "render JNull = ''null''"
| "render (JBool b) = (if b then ''true'' else ''false'')"
| "render (JStr s) = quote # esc s @ [quote]"
| "render (JNum i) = show_int i"
| "render (JObj ms) = CHR ''{'' # render_members ms @ ''}''"
| "render_members [] = []"
| "render_members ((k, v) # ms) =
     quote # esc k @ quote # CHR '':'' # render v
     @ (if ms = [] then [] else CHR '','' # render_members ms)"

definition render_object :: "(string \<times> jval) list \<Rightarrow> string" where
  "render_object ms = CHR ''{'' # render_members ms @ ''}''"

definition num_char :: "char \<Rightarrow> bool" where
  "num_char c \<longleftrightarrow> c = CHR ''-'' \<or> digit_val c \<noteq> None"

text \<open>A value that is no object, and the key of a member with its colon.\<close>

definition parse_scalar :: "string \<Rightarrow> (jval \<times> string) option" where
  "parse_scalar s =
     (if take 1 s = [quote] then map_option (\<lambda>(t, r). (JStr t, r)) (unq (tl s))
      else if take 4 s = ''null'' then Some (JNull, drop 4 s)
      else if take 4 s = ''true'' then Some (JBool True, drop 4 s)
      else if take 5 s = ''false'' then Some (JBool False, drop 5 s)
      else (case read_int (takeWhile num_char s) of
              None \<Rightarrow> None
            | Some i \<Rightarrow> Some (JNum i, dropWhile num_char s)))"

definition parse_key :: "string \<Rightarrow> (string \<times> string) option" where
  "parse_key s =
     (if take 1 s = [quote]
      then (case unq (tl s) of
              Some (k, d # r) \<Rightarrow> if d = CHR '':'' then Some (k, r) else None
            | _ \<Rightarrow> None)
      else None)"

text \<open>Every call but the first consumes a character, so the length of the text is enough fuel.\<close>

fun parse_value :: "nat \<Rightarrow> string \<Rightarrow> (jval \<times> string) option"
  and parse_members :: "nat \<Rightarrow> string \<Rightarrow> ((string \<times> jval) list \<times> string) option" where
  "parse_value 0 s = None"
| "parse_value (Suc n) s =
     (if take 2 s = ''{}'' then Some (JObj [], drop 2 s)
      else if take 1 s = ''{'' then map_option (\<lambda>(ms, r). (JObj ms, r)) (parse_members n (tl s))
      else parse_scalar s)"
| "parse_members 0 s = None"
| "parse_members (Suc n) s =
     (case parse_key s of
        None \<Rightarrow> None
      | Some (k, r) \<Rightarrow>
          (case parse_value n r of
             Some (v, c # r') \<Rightarrow>
               if c = CHR ''}'' then Some ([(k, v)], r')
               else if c = CHR '','' then map_option (\<lambda>(ms, t). ((k, v) # ms, t)) (parse_members n r')
               else None
           | _ \<Rightarrow> None))"

definition parse_object :: "string \<Rightarrow> (string \<times> jval) list option" where
  "parse_object s = (case parse_value (length s) s of Some (JObj ms, []) \<Rightarrow> Some ms | _ \<Rightarrow> None)"

fun jval_ok :: "jval \<Rightarrow> bool"
  and members_ok :: "(string \<times> jval) list \<Rightarrow> bool" where
  "jval_ok (JStr s) = valid_utf8 s"
| "jval_ok (JObj ms) = members_ok ms"
| "jval_ok _ = True"
| "members_ok [] = True"
| "members_ok ((k, v) # ms) \<longleftrightarrow> valid_utf8 k \<and> jval_ok v \<and> members_ok ms"

lemma members_ok_append [simp]: "members_ok (xs @ ys) \<longleftrightarrow> members_ok xs \<and> members_ok ys"
proof (induction xs)
  case (Cons m xs)
  then show ?case by (cases m) simp
qed simp

lemma num_char_show_nat: "c \<in> set (show_nat n) \<Longrightarrow> num_char c"
proof (induction n rule: show_nat.induct)
  case (1 n)
  then show ?case
    by (cases "n < 10") (auto simp: show_nat.simps [of n] num_char_def)
qed

lemma num_char_show_int: "c \<in> set (show_int i) \<Longrightarrow> num_char c"
  by (auto simp: show_int_def dest: num_char_show_nat split: if_splits) (simp add: num_char_def)

lemma show_int_Cons: "\<exists>c r. show_int i = c # r \<and> num_char c"
  using num_char_show_int [of _ i] by (cases "show_int i") auto

lemma num_char_facts [simp]: "\<not> num_char quote" "\<not> num_char (CHR '','')" "\<not> num_char (CHR ''}'')"
  "\<not> num_char (CHR ''n'')" "\<not> num_char (CHR ''t'')" "\<not> num_char (CHR ''f'')" "\<not> num_char (CHR ''{'')"
  by (simp_all add: num_char_def quote_def digit_val_def Let_def)

lemma takeWhile_num: "takeWhile num_char (show_int i @ c # r) = show_int i"
  "dropWhile num_char (show_int i @ c # r) = c # r" if "\<not> num_char c"
  using that num_char_show_int [of _ i] by (simp_all add: takeWhile_append2 dropWhile_append2)

lemma parse_scalar_num:
  assumes "\<not> num_char c"
  shows "parse_scalar (show_int i @ c # r) = Some (JNum i, c # r)"
    and "take 1 (show_int i @ c # r) \<noteq> ''{''"
proof -
  obtain d t where d: "show_int i = d # t" "num_char d"
    using show_int_Cons by blast
  then have "d \<noteq> quote" "d \<noteq> CHR ''n''" "d \<noteq> CHR ''t''" "d \<noteq> CHR ''f''" "d \<noteq> CHR ''{''" by auto
  moreover have "read_int (d # t) = Some i" using d read_int_show_int [of i] by simp
  ultimately show "parse_scalar (show_int i @ c # r) = Some (JNum i, c # r)"
    and "take 1 (show_int i @ c # r) \<noteq> ''{''"
    using d takeWhile_num [OF assms, of i r] by (simp_all add: parse_scalar_def)
qed

lemma parse_key_render [simp]:
  "valid_utf8 k \<Longrightarrow> parse_key (quote # esc k @ quote # CHR '':'' # r) = Some (k, r)"
  by (simp add: parse_key_def unq_esc)

lemma quote_neq_brace [simp]: "quote \<noteq> CHR ''{''" "quote \<noteq> CHR ''}''"
  by (simp_all add: quote_def)

lemma render_nonempty [simp]: "render v \<noteq> []"
  by (cases v) auto

lemma parse_render:
  "jval_ok v \<Longrightarrow> length (render v) \<le> n \<Longrightarrow> c = CHR '','' \<or> c = CHR ''}'' \<Longrightarrow>
     parse_value n (render v @ c # r) = Some (v, c # r)"
  "members_ok ms \<Longrightarrow> ms \<noteq> [] \<Longrightarrow> length (render_members ms) \<le> n \<Longrightarrow>
     parse_members n (render_members ms @ CHR ''}'' # t) = Some (ms, t)"
proof (induction v and ms arbitrary: n c r and n t rule: render_render_members.induct)
  case 1
  then show ?case by (cases n) (auto simp: parse_scalar_def quote_def)
next
  case (2 b)
  then show ?case by (cases n) (auto simp: parse_scalar_def quote_def split: if_splits)
next
  case (3 s)
  then show ?case by (cases n) (auto simp: parse_scalar_def unq_esc)
next
  case (4 i)
  then obtain m where n: "n = Suc m" by (cases n) (auto simp: Suc_le_eq)
  have "\<not> num_char c" using 4 by auto
  moreover have "take 2 s = ''{}'' \<Longrightarrow> take 1 s = ''{''" for s :: string
    by (cases s) (auto simp: numeral_2_eq_2)
  ultimately show ?case
    using parse_scalar_num [of c i r] by (auto simp: n simp del: take_append)
next
  case (5 ms)
  then obtain m where n: "n = Suc m" "length (render_members ms) \<le> m" by (cases n) auto
  show ?case
  proof (cases "ms = []")
    case True
    then show ?thesis using n by simp
  next
    case False
    then obtain k v ms' where "ms = (k, v) # ms'" by (metis neq_Nil_conv prod.exhaust)
    then have "take 2 (render (JObj ms) @ c # r) \<noteq> ''{}''" by (simp add: numeral_2_eq_2)
    then show ?thesis using 5 n False by simp
  qed
next
  case 6
  then show ?case by simp
next
  case (7 k v ms)
  then obtain m where n: "n = Suc m" by (cases n) auto
  have v: "length (render v) \<le> m" using 7 n by simp
  show ?case
  proof (cases "ms = []")
    case True
    then show ?thesis using 7(1) [of m "CHR ''}''" t] 7(3) v n by simp
  next
    case False
    have m: "length (render_members ms) \<le> m" using 7(5) n False by simp
    show ?thesis
      using 7(1) [of m "CHR '',''" "render_members ms @ CHR ''}'' # t"] 7(2) [of m t] 7(3) v m n False
      by simp
  qed
qed

lemma parse_object_render:
  assumes "members_ok ms"
  shows "parse_object (render_object ms) = Some ms"
proof (cases "ms = []")
  case True
  then show ?thesis by (simp add: parse_object_def render_object_def)
next
  case False
  then obtain k v ms' where ms: "ms = (k, v) # ms'" by (metis neq_Nil_conv prod.exhaust)
  have "parse_members (Suc (length (render_members ms))) (render_members ms @ ''}'') = Some (ms, [])"
    by (rule parse_render(2)) (use assms False in auto)
  moreover have "take 2 (render_object ms) \<noteq> ''{}''"
    by (simp add: render_object_def ms numeral_2_eq_2)
  ultimately show ?thesis
    by (simp add: parse_object_def render_object_def)
qed

subsection \<open>Encoding a task message\<close>

definition omit_str :: "string \<Rightarrow> string \<Rightarrow> (string \<times> jval) list" where
  "omit_str k s = (if s = [] then [] else [(k, JStr s)])"

definition omit_int :: "string \<Rightarrow> int \<Rightarrow> (string \<times> jval) list" where
  "omit_int k i = (if i = 0 then [] else [(k, JNum i)])"

definition msg_members :: "TaskMessage \<Rightarrow> (string \<times> jval) list" where
  "msg_members m =
     [(''type'', JStr (Type m)),
      (''payload'', (case Payload m of None \<Rightarrow> JNull | Some p \<Rightarrow> JStr (b64enc p))),
      (''id'', JStr (ID m)),
      (''queue'', JStr (Queue m)),
      (''retry'', JNum (Retry m)),
      (''retried'', JNum (Retried m))]
     @ omit_str ''error_msg'' (ErrorMsg m)
     @ omit_int ''last_failed_at'' (LastFailedAt m)
     @ omit_int ''timeout'' (Timeout m)
     @ omit_int ''deadline'' (Deadline m)
     @ omit_str ''unique_key'' (msg_UniqueKey m)
     @ omit_int ''retention'' (Retention m)
     @ omit_int ''completed_at'' (CompletedAt m)"

definition zero_msg :: TaskMessage where
  "zero_msg = \<lparr>Type = [], Payload = None, ID = [], Queue = [], Retry = 0, Retried = 0, ErrorMsg = [],
     LastFailedAt = 0, Timeout = 0, Deadline = 0, msg_UniqueKey = [], Retention = 0, CompletedAt = 0\<rparr>"

definition int64 :: "int \<Rightarrow> bool" where
  "int64 i \<longleftrightarrow> - (2 ^ 63) \<le> i \<and> i < 2 ^ 63"

definition set_str :: "jval \<Rightarrow> (string \<Rightarrow> 'a) \<Rightarrow> 'a \<Rightarrow> 'a option" where
  "set_str v f m = (case v of JStr s \<Rightarrow> Some (f s) | JNull \<Rightarrow> Some m | _ \<Rightarrow> None)"

definition set_int :: "jval \<Rightarrow> (int \<Rightarrow> 'a) \<Rightarrow> 'a \<Rightarrow> 'a option" where
  "set_int v f m =
     (case v of JNum i \<Rightarrow> if int64 i then Some (f i) else None | JNull \<Rightarrow> Some m | _ \<Rightarrow> None)"

definition set_member :: "string \<times> jval \<Rightarrow> TaskMessage \<Rightarrow> TaskMessage option" where
  "set_member mv m =
     (case mv of (k, v) \<Rightarrow>
        if k = ''type'' then set_str v (\<lambda>s. m\<lparr>Type := s\<rparr>) m
        else if k = ''payload'' then
          (case v of JNull \<Rightarrow> Some (m\<lparr>Payload := None\<rparr>)
                   | JStr s \<Rightarrow> map_option (\<lambda>p. m\<lparr>Payload := Some p\<rparr>) (b64dec s)
                   | _ \<Rightarrow> None)
        else if k = ''id'' then set_str v (\<lambda>s. m\<lparr>ID := s\<rparr>) m
        else if k = ''queue'' then set_str v (\<lambda>s. m\<lparr>Queue := s\<rparr>) m
        else if k = ''retry'' then set_int v (\<lambda>i. m\<lparr>Retry := i\<rparr>) m
        else if k = ''retried'' then set_int v (\<lambda>i. m\<lparr>Retried := i\<rparr>) m
        else if k = ''error_msg'' then set_str v (\<lambda>s. m\<lparr>ErrorMsg := s\<rparr>) m
        else if k = ''last_failed_at'' then set_int v (\<lambda>i. m\<lparr>LastFailedAt := i\<rparr>) m
        else if k = ''timeout'' then set_int v (\<lambda>i. m\<lparr>Timeout := i\<rparr>) m
        else if k = ''deadline'' then set_int v (\<lambda>i. m\<lparr>Deadline := i\<rparr>) m
        else if k = ''unique_key'' then set_str v (\<lambda>s. m\<lparr>msg_UniqueKey := s\<rparr>) m
        else if k = ''retention'' then set_int v (\<lambda>i. m\<lparr>Retention := i\<rparr>) m
        else if k = ''completed_at'' then set_int v (\<lambda>i. m\<lparr>CompletedAt := i\<rparr>) m
        else Some m)"

fun set_members :: "(string \<times> jval) list \<Rightarrow> TaskMessage \<Rightarrow> TaskMessage option" where
  "set_members [] m = Some m"
| "set_members (mv # mvs) m =
     (case set_member mv m of None \<Rightarrow> None | Some m' \<Rightarrow> set_members mvs m')"

text \<open>\<open>json.Marshal\<close> of a \<open>TaskMessage\<close> cannot fail; only a nil message is an error.\<close>

definition EncodeMessage :: "TaskMessage option \<Rightarrow> gerror + string" where
  "EncodeMessage msg =
     (case msg of
        None \<Rightarrow> Inl (Plain ''cannot encode nil message'')
      | Some m \<Rightarrow> Inr (render_object (msg_members m)))"

definition DecodeMessage :: "string \<Rightarrow> gerror + TaskMessage" where
  "DecodeMessage data =
     (case parse_object data of
        None \<Rightarrow> Inl (Plain ''invalid JSON'')
      | Some ms \<Rightarrow>
          (case set_members ms zero_msg of
             None \<Rightarrow> Inl (Plain ''json: cannot unmarshal'')
           | Some m \<Rightarrow> Inr m))"

definition msg_ok :: "TaskMessage \<Rightarrow> bool" where
  "msg_ok m \<longleftrightarrow>
     valid_utf8 (Type m) \<and> valid_utf8 (ID m) \<and> valid_utf8 (Queue m) \<and> valid_utf8 (ErrorMsg m)
     \<and> valid_utf8 (msg_UniqueKey m) \<and> int64 (Retry m) \<and> int64 (Retried m) \<and> int64 (LastFailedAt m)
     \<and> int64 (Timeout m) \<and> int64 (Deadline m) \<and> int64 (Retention m) \<and> int64 (CompletedAt m)"

abbreviation encode :: "TaskMessage \<Rightarrow> string" where
  "encode m \<equiv> render_object (msg_members m)"

lemma EncodeMessage_Some [simp]: "EncodeMessage (Some m) = Inr (encode m)"
  by (simp add: EncodeMessage_def)

lemma msg_members_ok: "msg_ok m \<Longrightarrow> members_ok (msg_members m)"
  by (simp add: msg_members_def msg_ok_def omit_str_def omit_int_def
      valid_utf8_b64enc byte_def split: option.split)

lemma set_members_append:
  "set_members (xs @ ys) m =
     (case set_members xs m of None \<Rightarrow> None | Some m' \<Rightarrow> set_members ys m')"
  by (induction xs arbitrary: m) (auto split: option.split)

lemma set_members_msg:
  assumes "msg_ok m"
  shows "set_members (msg_members m) zero_msg = Some m"
proof -
  have s: "set_members (omit_str k s) n = (if s = [] then Some n else set_member (k, JStr s) n)"
    for k s n by (simp add: omit_str_def split: option.split)
  have i: "set_members (omit_int k j) n = (if j = 0 then Some n else set_member (k, JNum j) n)"
    for k j n by (simp add: omit_int_def split: option.split)
  show ?thesis
    using assms
    by (cases m; cases "Payload m")
       (simp_all add: msg_members_def set_members_append s i set_member_def set_str_def set_int_def
         zero_msg_def b64dec_b64enc msg_ok_def)
qed

lemma DecodeMessage_encode: "msg_ok m \<Longrightarrow> DecodeMessage (encode m) = Inr m"
  by (simp add: DecodeMessage_def parse_object_render msg_members_ok set_members_msg)

end
