(* ===== verification/InfoJson.thy ===== *)
theory InfoJson
  imports Json "HOL-Library.AList"
begin

text \<open>
  \<open>EncodeServerInfo\<close>, \<open>DecodeServerInfo\<close>, \<open>EncodeWorkerInfo\<close> and \<open>DecodeWorkerInfo\<close> of
  \<open>internal/base/base.go\<close>: the records the heartbeat writes to Redis and the dashboard reads.
  They differ from task messages by a nested object (the queues of the server, which
  \<open>json.Marshal\<close> writes in the order of their names), a boolean and times. Encoding can fail:
  a time outside the years 0 to 9999 has no text. The argument \<open>zone\<close> is the local time zone.
\<close>

subsection \<open>Encoding\<close>

definition json_time :: "zone \<Rightarrow> int \<Rightarrow> gerror + jval" where
  "json_time zone t =
     (case format_time zone t of
        Inl e \<Rightarrow> Inl (Plain (''json: error calling MarshalJSON for type time.Time: Time.MarshalJSON: '' @ e))
      | Inr s \<Rightarrow> Inr (JStr s))"

definition json_bytes :: "string option \<Rightarrow> jval" where
  "json_bytes p = (case p of None \<Rightarrow> JNull | Some b \<Rightarrow> JStr (b64enc b))"

definition json_map :: "(string \<times> int) list \<Rightarrow> jval" where
  "json_map m = JObj (map (\<lambda>(k, i). (k, JNum i)) (sort_key fst m))"

definition server_members :: "jval \<Rightarrow> ServerInfo \<Rightarrow> (string \<times> jval) list" where
  "server_members started i =
     [(''host'', JStr (si_Host i)),
      (''pid'', JNum (si_PID i)),
      (''server_id'', JStr (si_ServerID i)),
      (''concurrency'', JNum (si_Concurrency i)),
      (''queues'', json_map (si_Queues i)),
      (''strict_priority'', JBool (si_StrictPriority i)),
      (''status'', JStr (si_Status i)),
      (''started'', started),
      (''active_worker_count'', JNum (si_ActiveWorkerCount i))]"

definition EncodeServerInfo :: "zone \<Rightarrow> ServerInfo option \<Rightarrow> gerror + string" where
  "EncodeServerInfo zone info =
     (case info of
        None \<Rightarrow> Inl (Plain ''cannot encode nil server info'')
      | Some i \<Rightarrow>
          (case json_time zone (si_Started i) of
             Inl e \<Rightarrow> Inl e
           | Inr st \<Rightarrow> Inr (render_object (server_members st i))))"

definition worker_members :: "jval \<Rightarrow> jval \<Rightarrow> WorkerInfo \<Rightarrow> (string \<times> jval) list" where
  "worker_members started deadline w =
     [(''host'', JStr (wi_Host w)),
      (''pid'', JNum (wi_PID w)),
      (''server_id'', JStr (wi_ServerID w)),
      (''id'', JStr (wi_ID w)),
      (''type'', JStr (wi_Type w)),
      (''payload'', json_bytes (wi_Payload w)),
      (''queue'', JStr (wi_Queue w)),
      (''started'', started),
      (''deadline'', deadline)]"

definition EncodeWorkerInfo :: "zone \<Rightarrow> WorkerInfo option \<Rightarrow> gerror + string" where
  "EncodeWorkerInfo zone info =
     (case info of
        None \<Rightarrow> Inl (Plain ''cannot encode nil worker info'')
      | Some w \<Rightarrow>
          (case json_time zone (wi_Started w) of
             Inl e \<Rightarrow> Inl e
           | Inr st \<Rightarrow>
               (case json_time zone (wi_Deadline w) of
                  Inl e \<Rightarrow> Inl e
                | Inr dl \<Rightarrow> Inr (render_object (worker_members st dl w)))))"

subsection \<open>Decoding\<close>

fun read_members :: "(string \<times> jval \<Rightarrow> 'a \<Rightarrow> 'a option) \<Rightarrow> (string \<times> jval) list \<Rightarrow> 'a \<Rightarrow> 'a option" where
  "read_members f [] a = Some a"
| "read_members f (m # ms) a = (case f m a of None \<Rightarrow> None | Some b \<Rightarrow> read_members f ms b)"

definition set_bool :: "jval \<Rightarrow> (bool \<Rightarrow> 'a) \<Rightarrow> 'a \<Rightarrow> 'a option" where
  "set_bool v f a = (case v of JBool b \<Rightarrow> Some (f b) | JNull \<Rightarrow> Some a | _ \<Rightarrow> None)"

definition set_time :: "jval \<Rightarrow> (int \<Rightarrow> 'a) \<Rightarrow> 'a \<Rightarrow> 'a option" where
  "set_time v f a =
     (case v of JStr s \<Rightarrow> map_option f (parse_time s) | JNull \<Rightarrow> Some a | _ \<Rightarrow> None)"

definition set_bytes :: "jval \<Rightarrow> (string option \<Rightarrow> 'a) \<Rightarrow> 'a option" where
  "set_bytes v f =
     (case v of JNull \<Rightarrow> Some (f None) | JStr s \<Rightarrow> map_option (\<lambda>p. f (Some p)) (b64dec s) | _ \<Rightarrow> None)"

definition set_entry :: "string \<times> jval \<Rightarrow> (string \<times> int) list \<Rightarrow> (string \<times> int) list option" where
  "set_entry kv m = (case kv of (k, v) \<Rightarrow>
     map_option (\<lambda>i. AList.update k i m) (set_int v (\<lambda>i. i) 0))"

text \<open>An object adds to the map the field already holds; null makes it nil.\<close>

definition set_map :: "jval \<Rightarrow> (string \<times> int) list \<Rightarrow> ((string \<times> int) list \<Rightarrow> 'a) \<Rightarrow> 'a option" where
  "set_map v m f =
     (case v of JNull \<Rightarrow> Some (f [])
              | JObj kvs \<Rightarrow> map_option f (read_members set_entry kvs m)
              | _ \<Rightarrow> None)"

definition zero_server :: ServerInfo where
  "zero_server = \<lparr>si_Host = [], si_PID = 0, si_ServerID = [], si_Concurrency = 0, si_Queues = [],
     si_StrictPriority = False, si_Status = [], si_Started = zero_time, si_ActiveWorkerCount = 0\<rparr>"

definition set_server :: "string \<times> jval \<Rightarrow> ServerInfo \<Rightarrow> ServerInfo option" where
  "set_server kv i =
     (case kv of (k, v) \<Rightarrow>
        if k = ''host'' then set_str v (\<lambda>s. i\<lparr>si_Host := s\<rparr>) i
        else if k = ''pid'' then set_int v (\<lambda>n. i\<lparr>si_PID := n\<rparr>) i
        else if k = ''server_id'' then set_str v (\<lambda>s. i\<lparr>si_ServerID := s\<rparr>) i
        else if k = ''concurrency'' then set_int v (\<lambda>n. i\<lparr>si_Concurrency := n\<rparr>) i
        else if k = ''queues'' then set_map v (si_Queues i) (\<lambda>m. i\<lparr>si_Queues := m\<rparr>)
        else if k = ''strict_priority'' then set_bool v (\<lambda>b. i\<lparr>si_StrictPriority := b\<rparr>) i
        else if k = ''status'' then set_str v (\<lambda>s. i\<lparr>si_Status := s\<rparr>) i
        else if k = ''started'' then set_time v (\<lambda>t. i\<lparr>si_Started := t\<rparr>) i
        else if k = ''active_worker_count'' then set_int v (\<lambda>n. i\<lparr>si_ActiveWorkerCount := n\<rparr>) i
        else Some i)"

definition DecodeServerInfo :: "string \<Rightarrow> gerror + ServerInfo" where
  "DecodeServerInfo b =
     (case parse_object b of
        None \<Rightarrow> Inl (Plain ''invalid JSON'')
      | Some ms \<Rightarrow>
          (case read_members set_server ms zero_server of
             None \<Rightarrow> Inl (Plain ''json: cannot unmarshal'')
           | Some i \<Rightarrow> Inr i))"

definition zero_worker :: WorkerInfo where
  "zero_worker = \<lparr>wi_Host = [], wi_PID = 0, wi_ServerID = [], wi_ID = [], wi_Type = [],
     wi_Payload = None, wi_Queue = [], wi_Started = zero_time, wi_Deadline = zero_time\<rparr>"

definition set_worker :: "string \<times> jval \<Rightarrow> WorkerInfo \<Rightarrow> WorkerInfo option" where
  "set_worker kv w =
     (case kv of (k, v) \<Rightarrow>
        if k = ''host'' then set_str v (\<lambda>s. w\<lparr>wi_Host := s\<rparr>) w
        else if k = ''pid'' then set_int v (\<lambda>n. w\<lparr>wi_PID := n\<rparr>) w
        else if k = ''server_id'' then set_str v (\<lambda>s. w\<lparr>wi_ServerID := s\<rparr>) w
        else if k = ''id'' then set_str v (\<lambda>s. w\<lparr>wi_ID := s\<rparr>) w
        else if k = ''type'' then set_str v (\<lambda>s. w\<lparr>wi_Type := s\<rparr>) w
        else if k = ''payload'' then set_bytes v (\<lambda>p. w\<lparr>wi_Payload := p\<rparr>)
        else if k = ''queue'' then set_str v (\<lambda>s. w\<lparr>wi_Queue := s\<rparr>) w
        else if k = ''started'' then set_time v (\<lambda>t. w\<lparr>wi_Started := t\<rparr>) w
        else if k = ''deadline'' then set_time v (\<lambda>t. w\<lparr>wi_Deadline := t\<rparr>) w
        else Some w)"

definition DecodeWorkerInfo :: "string \<Rightarrow> gerror + WorkerInfo" where
  "DecodeWorkerInfo b =
     (case parse_object b of
        None \<Rightarrow> Inl (Plain ''invalid JSON'')
      | Some ms \<Rightarrow>
          (case read_members set_worker ms zero_worker of
             None \<Rightarrow> Inl (Plain ''json: cannot unmarshal'')
           | Some w \<Rightarrow> Inr w))"

subsection \<open>Reading back what was written\<close>

definition time_ok :: "zone \<Rightarrow> int \<Rightarrow> bool" where
  "time_ok zone t \<longleftrightarrow> zone (t div 1000000000) mod 60 = 0 \<and> (case format_time zone t of Inl _ \<Rightarrow> False | Inr _ \<Rightarrow> True)"

definition server_ok :: "zone \<Rightarrow> ServerInfo \<Rightarrow> bool" where
  "server_ok zone i \<longleftrightarrow>
     valid_utf8 (si_Host i) \<and> valid_utf8 (si_ServerID i) \<and> valid_utf8 (si_Status i)
     \<and> int64 (si_PID i) \<and> int64 (si_Concurrency i) \<and> int64 (si_ActiveWorkerCount i)
     \<and> distinct (map fst (si_Queues i))
     \<and> list_all (\<lambda>(q, p). valid_utf8 q \<and> int64 p) (si_Queues i) \<and> time_ok zone (si_Started i)"

definition worker_ok :: "zone \<Rightarrow> WorkerInfo \<Rightarrow> bool" where
  "worker_ok zone w \<longleftrightarrow>
     valid_utf8 (wi_Host w) \<and> valid_utf8 (wi_ServerID w) \<and> valid_utf8 (wi_ID w) \<and> valid_utf8 (wi_Type w)
     \<and> valid_utf8 (wi_Queue w) \<and> int64 (wi_PID w) \<and> time_ok zone (wi_Started w) \<and> time_ok zone (wi_Deadline w)"

lemma valid_utf8_ascii: "ascii s \<Longrightarrow> valid_utf8 s"
  by (induction s) (simp_all add: byte_def)

lemma json_time_ok:
  assumes "time_ok zone t"
  obtains s where "json_time zone t = Inr (JStr s)" and "valid_utf8 s" and "parse_time s = Some t"
  using assms
  by (auto simp: time_ok_def json_time_def valid_utf8_ascii format_time_ascii parse_format_time split: sum.splits)

lemma read_map:
  assumes "distinct (map fst (xs @ m))" and "list_all (\<lambda>(q, p). int64 p) m"
  shows "read_members set_entry (map (\<lambda>(k, i). (k, JNum i)) m) xs = Some (xs @ m)"
  using assms
proof (induction m arbitrary: xs)
  case (Cons kv m)
  obtain k i where kv: "kv = (k, i)" by fastforce
  have "AList.update k i xs = xs @ [(k, i)]"
    using Cons.prems(1) kv by (induction xs) auto
  then show ?case
    using Cons.IH [of "xs @ [(k, i)]"] Cons.prems kv by (simp add: set_entry_def set_int_def)
qed simp

lemma members_ok_map: "list_all (\<lambda>(q, p). valid_utf8 q) m \<Longrightarrow> members_ok (map (\<lambda>(k, i). (k, JNum i)) m)"
  by (induction m) auto

lemma sorted_queues:
  assumes "server_ok zone i"
  shows "distinct (map fst (sort_key fst (si_Queues i)))"
    and "list_all (\<lambda>(q, p). int64 p) (sort_key fst (si_Queues i))"
    and "list_all (\<lambda>(q, p). valid_utf8 q) (sort_key fst (si_Queues i))"
  using assms by (auto simp: server_ok_def list_all_iff distinct_map)

lemma DecodeServerInfo_encode:
  assumes "server_ok zone i"
  obtains b where "EncodeServerInfo zone (Some i) = Inr b"
    and "DecodeServerInfo b = Inr (i\<lparr>si_Queues := sort_key fst (si_Queues i)\<rparr>)"
proof -
  obtain s where s: "json_time zone (si_Started i) = Inr (JStr s)" "valid_utf8 s" "parse_time s = Some (si_Started i)"
    using assms json_time_ok by (auto simp: server_ok_def)
  let ?ms = "server_members (JStr s) i"
  have "members_ok ?ms"
    using assms s(2) members_ok_map [OF sorted_queues(3) [OF assms]]
    by (simp add: server_ok_def server_members_def json_map_def byte_def)
  moreover have "read_members set_server ?ms zero_server = Some (i\<lparr>si_Queues := sort_key fst (si_Queues i)\<rparr>)"
    using assms s(3) read_map [of "[]" "sort_key fst (si_Queues i)"] sorted_queues [OF assms]
    by (cases i)
       (simp add: server_members_def set_server_def set_str_def set_int_def set_bool_def set_time_def
         set_map_def json_map_def zero_server_def server_ok_def)
  ultimately show ?thesis
    using that [of "render_object ?ms"] s(1)
    by (simp add: EncodeServerInfo_def DecodeServerInfo_def parse_object_render)
qed

lemma DecodeWorkerInfo_encode:
  assumes "worker_ok zone w"
  obtains b where "EncodeWorkerInfo zone (Some w) = Inr b" and "DecodeWorkerInfo b = Inr w"
proof -
  obtain s where s: "json_time zone (wi_Started w) = Inr (JStr s)" "valid_utf8 s" "parse_time s = Some (wi_Started w)"
    using assms json_time_ok by (auto simp: worker_ok_def)
  obtain d where d: "json_time zone (wi_Deadline w) = Inr (JStr d)" "valid_utf8 d" "parse_time d = Some (wi_Deadline w)"
    using assms json_time_ok by (auto simp: worker_ok_def)
  let ?ms = "worker_members (JStr s) (JStr d) w"
  have "members_ok ?ms"
    using assms s(2) d(2)
    by (simp add: worker_ok_def worker_members_def json_bytes_def byte_def valid_utf8_b64enc split: option.split)
  moreover have "read_members set_worker ?ms zero_worker = Some w"
    using assms s(3) d(3)
    by (cases w; cases "wi_Payload w")
       (simp_all add: worker_members_def set_worker_def set_str_def set_int_def set_time_def
         set_bytes_def json_bytes_def zero_worker_def worker_ok_def b64dec_b64enc)
  ultimately show ?thesis
    using that [of "render_object ?ms"] s(1) d(1)
    by (simp add: EncodeWorkerInfo_def DecodeWorkerInfo_def parse_object_render)
qed

end
