(* ===== verification/Rdb.thy ===== *)
theory Rdb
  imports System InfoJson
begin

text \<open>
  \<open>internal/rdb/rdb.go\<close>: the Go methods around the scripts.

  The Redis client library is a function \<open>send\<close>: it takes the state of the connection,
  whether the context passed to the call is done, and the program to run, and gives an
  error or the server's reply, with the new state. The \<open>redis_client\<close> locale of the theory
  \<open>RedisClient\<close> states what is relied on. The clock is an argument: the value \<open>Now()\<close> returns
  during the call, or \<open>clk i\<close> for its \<open>i\<close>-th call in a method that reads it several times.
  \<open>um\<close> is the number of results the Lua runtime's \<open>unpack\<close> takes. Error texts leave out
  the unexpected value some of them end with.
\<close>

type_synonym 's client = "'s \<Rightarrow> bool \<Rightarrow> reply prog \<Rightarrow> (gerror + reply) \<times> 's"

record 's rdb =
  conn :: 's
  queuesPublished :: "string list"

definition NewRDB :: "'s \<Rightarrow> 's rdb" where
  "NewRDB client = \<lparr>conn = client, queuesPublished = []\<rparr>"

definition statsTTL :: int where
  "statsTTL = 90 * 24 * 3600 * second_ns"

definition LeaseDuration :: int where
  "LeaseDuration = 30 * second_ns"

definition maxArchiveSize :: int where
  "maxArchiveSize = 10000"

definition archivedExpirationInDays :: int where
  "archivedExpirationInDays = 90"

subsection \<open>Results of a call\<close>

definition redis_Nil :: gerror where
  "redis_Nil = Foreign ''redis: nil''"

text \<open>\<open>Cmd.Result()\<close>: an error reply and a nil reply are Go errors.\<close>

fun go_result :: "gerror + reply \<Rightarrow> gerror + reply" where
  "go_result (Inl e) = Inl e"
| "go_result (Inr (RErr m)) = Inl (Foreign m)"
| "go_result (Inr RNil) = Inl redis_Nil"
| "go_result (Inr v) = Inr v"

definition issue :: "'s client \<Rightarrow> bool \<Rightarrow> reply prog \<Rightarrow> 's rdb \<Rightarrow> (gerror + reply) \<times> 's rdb" where
  "issue send ctx p r = (case send (conn r) ctx p of (res, s) \<Rightarrow> (go_result res, r\<lparr>conn := s\<rparr>))"

text \<open>A reply printed with \<open>%v\<close>.\<close>

fun show_reply :: "reply \<Rightarrow> string" where
  "show_reply (RInt i) = show_int i"
| "show_reply (RBulk s) = s"
| "show_reply (RStatus s) = s"
| "show_reply (RErr m) = m"
| "show_reply RNil = ''<nil>''"
| "show_reply (RArr rs) =
     ''['' @ (case map show_reply rs of [] \<Rightarrow> [] | s # ss \<Rightarrow> s @ concat (map (\<lambda>t. '' '' @ t) ss)) @ '']''"

definition eval_error :: "gerror \<Rightarrow> gerror" where
  "eval_error e = Plain (''redis eval error: '' @ Error e)"

definition runScript ::
  "'s client \<Rightarrow> bool \<Rightarrow> string \<Rightarrow> reply prog \<Rightarrow> 's rdb \<Rightarrow> gerror option \<times> 's rdb" where
  "runScript send ctx op p r =
     (case issue send ctx p r of
        (Inl e, r') \<Rightarrow> (Some (EOpCode op Internal (eval_error e)), r')
      | (Inr _, r') \<Rightarrow> (None, r'))"

definition runScriptWithErrorCode ::
  "'s client \<Rightarrow> bool \<Rightarrow> string \<Rightarrow> reply prog \<Rightarrow> 's rdb \<Rightarrow> (gerror + int) \<times> 's rdb" where
  "runScriptWithErrorCode send ctx op p r =
     (case issue send ctx p r of
        (Inl e, r') \<Rightarrow> (Inl (EOpCode op Unknown (eval_error e)), r')
      | (Inr (RInt n), r') \<Rightarrow> (Inr n, r')
      | (Inr v, r') \<Rightarrow>
          (Inl (EOpCode op Internal (Plain (''unexpected return value from Lua script: '' @ show_reply v))), r'))"

text \<open>\<open>github.com/spf13/cast\<close> on the replies of the scripts.\<close>

fun ToStringE :: "reply \<Rightarrow> gerror + string" where
  "ToStringE (RBulk s) = Inr s"
| "ToStringE (RStatus s) = Inr s"
| "ToStringE (RInt n) = Inr (show_int n)"
| "ToStringE _ = Inl (Foreign ''unable to cast to string'')"

fun ToIntE :: "reply \<Rightarrow> gerror + int" where
  "ToIntE (RInt n) = Inr n"
| "ToIntE (RBulk s) = (case read_int s of None \<Rightarrow> Inl (Foreign ''unable to cast to int'') | Some n \<Rightarrow> Inr n)"
| "ToIntE _ = Inl (Foreign ''unable to cast to int'')"

fun ToString :: "reply \<Rightarrow> string" where
  "ToString v = (case ToStringE v of Inl _ \<Rightarrow> [] | Inr s \<Rightarrow> s)"

fun ToStringSliceE :: "reply \<Rightarrow> gerror + string list" where
  "ToStringSliceE (RArr rs) = Inr (map ToString rs)"
| "ToStringSliceE _ = Inl (Foreign ''unable to cast to []string'')"

text \<open>\<open>int(ttl.Seconds())\<close>, truncated toward zero.\<close>

definition whole_seconds :: "int \<Rightarrow> int" where
  "whole_seconds d = sgn d * (\<bar>d\<bar> div second_ns)"

subsection \<open>Connection\<close>

definition Ping :: "'s client \<Rightarrow> 's rdb \<Rightarrow> gerror option \<times> 's rdb" where
  "Ping send r = (case issue send False (single PING) r of (Inl e, r') \<Rightarrow> (Some e, r') | (Inr _, r') \<Rightarrow> (None, r'))"

text \<open>
  Closing the connection and the channel of cancelations, over the library's own \<open>Close\<close>,
  \<open>Publish\<close>, \<open>Subscribe\<close> and \<open>Receive\<close>.
\<close>

definition RDB_Close :: "('s \<Rightarrow> gerror option \<times> 's) \<Rightarrow> 's rdb \<Rightarrow> gerror option \<times> 's rdb" where
  "RDB_Close close r = (case close (conn r) of (e, s) \<Rightarrow> (e, r\<lparr>conn := s\<rparr>))"

definition PublishCancelation ::
  "('s \<Rightarrow> string \<Rightarrow> string \<Rightarrow> gerror option \<times> 's) \<Rightarrow> string \<Rightarrow> 's rdb \<Rightarrow> gerror option \<times> 's rdb" where
  "PublishCancelation publish taskID r =
     (let op = ''rdb.PublishCancelation'' in
      case publish (conn r) CancelChannel taskID of
        (Some err, s) \<Rightarrow>
          (Some (EOpCode op Unknown (Plain (''redis pubsub publish error: '' @ Error err))), r\<lparr>conn := s\<rparr>)
      | (None, s) \<Rightarrow> (None, r\<lparr>conn := s\<rparr>))"

definition CancelationPubSub ::
  "('s \<Rightarrow> string \<Rightarrow> 'p \<times> 's) \<Rightarrow> ('s \<Rightarrow> 'p \<Rightarrow> gerror option \<times> 's) \<Rightarrow> 's rdb \<Rightarrow> (gerror + 'p) \<times> 's rdb" where
  "CancelationPubSub subscribe receive r =
     (let op = ''rdb.CancelationPubSub'' in
      case subscribe (conn r) CancelChannel of (pubsub, s) \<Rightarrow>
      case receive s pubsub of
        (Some err, s1) \<Rightarrow>
          (Inl (EOpCode op Unknown (Plain (''redis pubsub receive error: '' @ Error err))), r\<lparr>conn := s1\<rparr>)
      | (None, s1) \<Rightarrow> (Inr pubsub, r\<lparr>conn := s1\<rparr>))"

text \<open>The queue index: a queue is added once per process.\<close>

definition publishQueue ::
  "'s client \<Rightarrow> bool \<Rightarrow> string \<Rightarrow> string \<Rightarrow> 's rdb \<Rightarrow> gerror option \<times> 's rdb" where
  "publishQueue send ctx op qname r =
     (if qname \<in> set (queuesPublished r) then (None, r)
      else (case issue send ctx (single (SADD AllQueues qname)) r of
              (Inl e, r') \<Rightarrow> (Some (EOpCode op Unknown (RedisCommandError ''sadd'' e)), r')
            | (Inr _, r') \<Rightarrow> (None, r'\<lparr>queuesPublished := qname # queuesPublished r'\<rparr>)))"

subsection \<open>Enqueueing and scheduling\<close>

definition cannot_encode :: "string \<Rightarrow> Code \<Rightarrow> gerror \<Rightarrow> gerror" where
  "cannot_encode op c e = EOpCode op c (Plain (''cannot encode message: '' @ Error e))"

text \<open>What the adding methods make of the script's return value.\<close>

definition add_result :: "string \<Rightarrow> gerror + int \<Rightarrow> gerror option" where
  "add_result op res =
     (case res of
        Inl e \<Rightarrow> Some e
      | Inr n \<Rightarrow> if n = 0 then Some (EOpCode op AlreadyExists (Sentinel ErrTaskIdConflict)) else None)"

definition add_unique_result :: "string \<Rightarrow> gerror + int \<Rightarrow> gerror option" where
  "add_unique_result op res =
     (case res of
        Inl e \<Rightarrow> Some e
      | Inr n \<Rightarrow> if n = - 1 then Some (EOpCode op AlreadyExists (Sentinel ErrDuplicateTask))
                 else if n = 0 then Some (EOpCode op AlreadyExists (Sentinel ErrTaskIdConflict)) else None)"

definition Enqueue ::
  "'s client \<Rightarrow> bool \<Rightarrow> int \<Rightarrow> TaskMessage \<Rightarrow> 's rdb \<Rightarrow> gerror option \<times> 's rdb" where
  "Enqueue send ctx now msg r =
     (let op = ''rdb.Enqueue'' in
      case EncodeMessage (Some msg) of
        Inl e \<Rightarrow> (Some (cannot_encode op Unknown e), r)
      | Inr encoded \<Rightarrow>
          (case publishQueue send ctx op (Queue msg) r of
             (Some e, r1) \<Rightarrow> (Some e, r1)
           | (None, r1) \<Rightarrow>
               (case runScriptWithErrorCode send ctx op
                       (enqueueCmd (TaskKey (Queue msg) (ID msg)) (PendingKey (Queue msg)) encoded (ID msg) now) r1 of
                  (res, r2) \<Rightarrow> (add_result op res, r2))))"

definition EnqueueUnique ::
  "'s client \<Rightarrow> bool \<Rightarrow> int \<Rightarrow> TaskMessage \<Rightarrow> int \<Rightarrow> 's rdb \<Rightarrow> gerror option \<times> 's rdb" where
  "EnqueueUnique send ctx now msg ttl r =
     (let op = ''rdb.EnqueueUnique'' in
      case EncodeMessage (Some msg) of
        Inl e \<Rightarrow> (Some (EOpCode op Internal e), r)
      | Inr encoded \<Rightarrow>
          (case publishQueue send ctx op (Queue msg) r of
             (Some e, r1) \<Rightarrow> (Some e, r1)
           | (None, r1) \<Rightarrow>
               (case runScriptWithErrorCode send ctx op
                       (enqueueUniqueCmd (msg_UniqueKey msg) (TaskKey (Queue msg) (ID msg))
                          (PendingKey (Queue msg)) (ID msg) (whole_seconds ttl) encoded now) r1 of
                  (res, r2) \<Rightarrow> (add_unique_result op res, r2))))"

definition Schedule ::
  "'s client \<Rightarrow> bool \<Rightarrow> TaskMessage \<Rightarrow> int \<Rightarrow> 's rdb \<Rightarrow> gerror option \<times> 's rdb" where
  "Schedule send ctx msg processAt r =
     (let op = ''rdb.Schedule'' in
      case EncodeMessage (Some msg) of
        Inl e \<Rightarrow> (Some (cannot_encode op Unknown e), r)
      | Inr encoded \<Rightarrow>
          (case publishQueue send ctx op (Queue msg) r of
             (Some e, r1) \<Rightarrow> (Some e, r1)
           | (None, r1) \<Rightarrow>
               (case runScriptWithErrorCode send ctx op
                       (scheduleCmd (TaskKey (Queue msg) (ID msg)) (ScheduledKey (Queue msg)) encoded
                          (unix processAt) (ID msg)) r1 of
                  (res, r2) \<Rightarrow> (add_result op res, r2))))"

definition ScheduleUnique ::
  "'s client \<Rightarrow> bool \<Rightarrow> TaskMessage \<Rightarrow> int \<Rightarrow> int \<Rightarrow> 's rdb \<Rightarrow> gerror option \<times> 's rdb" where
  "ScheduleUnique send ctx msg processAt ttl r =
     (let op = ''rdb.ScheduleUnique'' in
      case EncodeMessage (Some msg) of
        Inl e \<Rightarrow> (Some (EOpCode op Internal (Plain (''cannot encode task message: '' @ Error e))), r)
      | Inr encoded \<Rightarrow>
          (case publishQueue send ctx op (Queue msg) r of
             (Some e, r1) \<Rightarrow> (Some e, r1)
           | (None, r1) \<Rightarrow>
               (case runScriptWithErrorCode send ctx op
                       (scheduleUniqueCmd (msg_UniqueKey msg) (TaskKey (Queue msg) (ID msg))
                          (ScheduledKey (Queue msg)) (ID msg) (whole_seconds ttl) (unix processAt) encoded) r1 of
                  (res, r2) \<Rightarrow> (add_unique_result op res, r2))))"

subsection \<open>Dequeueing\<close>

fun Dequeue ::
  "'s client \<Rightarrow> (nat \<Rightarrow> int) \<Rightarrow> nat \<Rightarrow> string list \<Rightarrow> 's rdb \<Rightarrow> (gerror + TaskMessage \<times> int) \<times> 's rdb" where
  "Dequeue send clk i [] r =
     (Inl (EOpCode ''rdb.Dequeue'' NotFound (Sentinel ErrNoProcessableTask)), r)"
| "Dequeue send clk i (qname # qnames) r =
     (let op = ''rdb.Dequeue'';
          leaseExpirationTime = clk i + LeaseDuration
      in case issue send False
                (dequeueCmd (PendingKey qname) (PausedKey qname) (ActiveKey qname) (LeaseKey qname)
                   (unix leaseExpirationTime) (TaskKeyPrefix qname)) r of
           (Inl e, r') \<Rightarrow>
             if e = redis_Nil then Dequeue send clk (Suc i) qnames r'
             else (Inl (EOpCode op Unknown (eval_error e)), r')
         | (Inr res, r') \<Rightarrow>
             (case ToStringE res of
                Inl _ \<Rightarrow> (Inl (EOpCode op Internal
                  (Plain (''cast error: unexpected return value from Lua script: '' @ show_reply res))), r')
              | Inr encoded \<Rightarrow>
                  (case DecodeMessage encoded of
                     Inl e \<Rightarrow> (Inl (EOpCode op Internal (Plain (''cannot decode message: '' @ Error e))), r')
                   | Inr msg \<Rightarrow> (Inr (msg, leaseExpirationTime), r'))))"

subsection \<open>Settling\<close>

definition Done :: "'s client \<Rightarrow> bool \<Rightarrow> int \<Rightarrow> TaskMessage \<Rightarrow> 's rdb \<Rightarrow> gerror option \<times> 's rdb" where
  "Done send ctx now msg r =
     (let op = ''rdb.Done''; q = Queue msg; expireAt = now + statsTTL in
      if 0 < length (msg_UniqueKey msg)
      then runScript send ctx op
             (doneUniqueCmd (ActiveKey q) (LeaseKey q) (TaskKey q (ID msg)) (ProcessedKey q now)
                (ProcessedTotalKey q) (msg_UniqueKey msg) (ID msg) (unix expireAt) max_int64) r
      else runScript send ctx op
             (doneCmd (ActiveKey q) (LeaseKey q) (TaskKey q (ID msg)) (ProcessedKey q now)
                (ProcessedTotalKey q) (ID msg) (unix expireAt) max_int64) r)"

text \<open>The message the caller holds is changed: its \<open>CompletedAt\<close> is set.\<close>

definition MarkAsComplete ::
  "'s client \<Rightarrow> bool \<Rightarrow> int \<Rightarrow> TaskMessage \<Rightarrow> 's rdb \<Rightarrow> gerror option \<times> TaskMessage \<times> 's rdb" where
  "MarkAsComplete send ctx now msg0 r =
     (let op = ''rdb.MarkAsComplete''; statsExpireAt = now + statsTTL;
          msg = msg0\<lparr>CompletedAt := unix now\<rparr>; q = Queue msg in
      case EncodeMessage (Some msg) of
        Inl e \<Rightarrow> (Some (cannot_encode op Unknown e), msg, r)
      | Inr encoded \<Rightarrow>
          (case runScript send ctx op
                  (markAsCompleteCmd (ActiveKey q) (LeaseKey q) (CompletedKey q) (TaskKey q (ID msg))
                     (ProcessedKey q now) (ProcessedTotalKey q) (ID msg) (unix statsExpireAt)
                     (wrap64 (unix now + Retention msg)) encoded max_int64) r of
             (e, r') \<Rightarrow> (e, msg, r')))"

definition Requeue :: "'s client \<Rightarrow> bool \<Rightarrow> TaskMessage \<Rightarrow> 's rdb \<Rightarrow> gerror option \<times> 's rdb" where
  "Requeue send ctx msg r =
     (let q = Queue msg in
      runScript send ctx ''rdb.Requeue''
        (requeueCmd (ActiveKey q) (LeaseKey q) (PendingKey q) (TaskKey q (ID msg)) (ID msg)) r)"

definition retry_message :: "int \<Rightarrow> string \<Rightarrow> bool \<Rightarrow> TaskMessage \<Rightarrow> TaskMessage" where
  "retry_message now errMsg isFailure msg =
     (if isFailure then msg\<lparr>Retried := wrap64 (Retried msg + 1)\<rparr> else msg)
       \<lparr>ErrorMsg := errMsg, LastFailedAt := unix now\<rparr>"

definition RDB_Retry ::
  "'s client \<Rightarrow> bool \<Rightarrow> int \<Rightarrow> TaskMessage \<Rightarrow> int \<Rightarrow> string \<Rightarrow> bool \<Rightarrow> 's rdb \<Rightarrow> gerror option \<times> 's rdb" where
  "RDB_Retry send ctx now msg processAt errMsg isFailure r =
     (let op = ''rdb.Retry''; q = Queue msg; expireAt = now + statsTTL in
      case EncodeMessage (Some (retry_message now errMsg isFailure msg)) of
        Inl e \<Rightarrow> (Some (cannot_encode op Internal e), r)
      | Inr encoded \<Rightarrow>
          runScript send ctx op
            (retryCmd (TaskKey q (ID msg)) (ActiveKey q) (LeaseKey q) (RetryKey q) (ProcessedKey q now)
               (FailedKey q now) (ProcessedTotalKey q) (FailedTotalKey q) (ID msg) encoded (unix processAt)
               (unix expireAt) isFailure max_int64) r)"

definition archive_message :: "int \<Rightarrow> string \<Rightarrow> TaskMessage \<Rightarrow> TaskMessage" where
  "archive_message now errMsg msg = msg\<lparr>ErrorMsg := errMsg, LastFailedAt := unix now\<rparr>"

text \<open>\<open>AddDate\<close> counts days of 24 hours, as it does in UTC.\<close>

definition archive_cutoff :: "int \<Rightarrow> int" where
  "archive_cutoff now = now - archivedExpirationInDays * 24 * 3600 * second_ns"

definition Archive ::
  "nat \<Rightarrow> 's client \<Rightarrow> bool \<Rightarrow> int \<Rightarrow> TaskMessage \<Rightarrow> string \<Rightarrow> 's rdb \<Rightarrow> gerror option \<times> 's rdb" where
  "Archive um send ctx now msg errMsg r =
     (let op = ''rdb.Archive''; q = Queue msg; cutoff = archive_cutoff now; expireAt = now + statsTTL in
      case EncodeMessage (Some (archive_message now errMsg msg)) of
        Inl e \<Rightarrow> (Some (cannot_encode op Internal e), r)
      | Inr encoded \<Rightarrow>
          runScript send ctx op
            (archiveCmd um (TaskKey q (ID msg)) (ActiveKey q) (LeaseKey q) (ArchivedKey q) (ProcessedKey q now)
               (FailedKey q now) (ProcessedTotalKey q) (FailedTotalKey q) (TaskKeyPrefix q) (ID msg) encoded
               (unix now) (unix cutoff) maxArchiveSize (unix expireAt) max_int64) r)"

subsection \<open>Forwarding\<close>

definition forward ::
  "'s client \<Rightarrow> int \<Rightarrow> string \<Rightarrow> string \<Rightarrow> string \<Rightarrow> 's rdb \<Rightarrow> (gerror + int) \<times> 's rdb" where
  "forward send now delayedKey pendingKey taskKeyPrefix r =
     (case issue send False (forwardCmd delayedKey pendingKey (unix now) taskKeyPrefix now) r of
        (Inl e, r') \<Rightarrow> (Inl (EErr Internal [] (Some (eval_error e))), r')
      | (Inr res, r') \<Rightarrow>
          (case ToIntE res of
             Inl _ \<Rightarrow> (Inl (EErr Internal []
               (Some (Plain (''cast error: Lua script returned unexpected value: '' @ show_reply res)))), r')
           | Inr n \<Rightarrow> (Inr n, r')))"

text \<open>The inner loop \<open>for n != 0\<close>; \<open>i\<close> counts the readings of the clock.\<close>

partial_function (option) forward_loop ::
  "'s client \<Rightarrow> (nat \<Rightarrow> int) \<Rightarrow> string \<Rightarrow> string \<Rightarrow> string \<Rightarrow> nat \<Rightarrow> 's rdb \<Rightarrow>
   (gerror option \<times> nat \<times> 's rdb) option" where
  "forward_loop send clk delayedKey pendingKey taskKeyPrefix i r =
     (case forward send (clk i) delayedKey pendingKey taskKeyPrefix r of
        (Inl e, r') \<Rightarrow> Some (Some e, Suc i, r')
      | (Inr n, r') \<Rightarrow>
          if n = 0 then Some (None, Suc i, r')
          else forward_loop send clk delayedKey pendingKey taskKeyPrefix (Suc i) r')"

fun forward_keys ::
  "'s client \<Rightarrow> (nat \<Rightarrow> int) \<Rightarrow> string \<Rightarrow> string \<Rightarrow> string list \<Rightarrow> nat \<Rightarrow> 's rdb \<Rightarrow>
   (gerror option \<times> nat \<times> 's rdb) option" where
  "forward_keys send clk pendingKey taskKeyPrefix [] i r = Some (None, i, r)"
| "forward_keys send clk pendingKey taskKeyPrefix (k # ks) i r =
     (case forward_loop send clk k pendingKey taskKeyPrefix i r of
        None \<Rightarrow> None
      | Some (Some e, i', r') \<Rightarrow> Some (Some e, i', r')
      | Some (None, i', r') \<Rightarrow> forward_keys send clk pendingKey taskKeyPrefix ks i' r')"

definition forwardAll ::
  "'s client \<Rightarrow> (nat \<Rightarrow> int) \<Rightarrow> nat \<Rightarrow> string \<Rightarrow> 's rdb \<Rightarrow> (gerror option \<times> nat \<times> 's rdb) option" where
  "forwardAll send clk i qname r =
     forward_keys send clk (PendingKey qname) (TaskKeyPrefix qname) [ScheduledKey qname, RetryKey qname] i r"

fun ForwardIfReady ::
  "'s client \<Rightarrow> (nat \<Rightarrow> int) \<Rightarrow> nat \<Rightarrow> string list \<Rightarrow> 's rdb \<Rightarrow> (gerror option \<times> nat \<times> 's rdb) option" where
  "ForwardIfReady send clk i [] r = Some (None, i, r)"
| "ForwardIfReady send clk i (qname # qnames) r =
     (case forwardAll send clk i qname r of
        None \<Rightarrow> None
      | Some (Some e, i', r') \<Rightarrow>
          Some (Some (EOpCode ''rdb.ForwardIfReady'' (CanonicalCode (Some e)) e), i', r')
      | Some (None, i', r') \<Rightarrow> ForwardIfReady send clk i' qnames r')"

subsection \<open>Retention\<close>

definition deleteExpiredCompletedTasks ::
  "'s client \<Rightarrow> int \<Rightarrow> string \<Rightarrow> int \<Rightarrow> 's rdb \<Rightarrow> (gerror + int) \<times> 's rdb" where
  "deleteExpiredCompletedTasks send now qname batchSize r =
     (let op = ''rdb.DeleteExpiredCompletedTasks'' in
      case issue send False
             (deleteExpiredCompletedTasksCmd (CompletedKey qname) (unix now) (TaskKeyPrefix qname) batchSize) r of
        (Inl e, r') \<Rightarrow> (Inl (EOpCode op Internal (eval_error e)), r')
      | (Inr (RInt n), r') \<Rightarrow> (Inr n, r')
      | (Inr v, r') \<Rightarrow>
          (Inl (EOpCode op Internal (Plain (''unexpected return value from Lua script: '' @ show_reply v))), r'))"

partial_function (option) DeleteExpiredCompletedTasks ::
  "'s client \<Rightarrow> (nat \<Rightarrow> int) \<Rightarrow> nat \<Rightarrow> string \<Rightarrow> int \<Rightarrow> 's rdb \<Rightarrow> (gerror option \<times> nat \<times> 's rdb) option" where
  "DeleteExpiredCompletedTasks send clk i qname batchSize r =
     (case deleteExpiredCompletedTasks send (clk i) qname batchSize r of
        (Inl e, r') \<Rightarrow> Some (Some e, Suc i, r')
      | (Inr n, r') \<Rightarrow>
          if n = 0 then Some (None, Suc i, r')
          else DeleteExpiredCompletedTasks send clk (Suc i) qname batchSize r')"

subsection \<open>Leases\<close>

fun decode_all :: "string list \<Rightarrow> TaskMessage list \<Rightarrow> gerror + TaskMessage list" where
  "decode_all [] msgs = Inr msgs"
| "decode_all (s # data) msgs =
     (case DecodeMessage s of
        Inl e \<Rightarrow> Inl (EOpCode ''rdb.ListLeaseExpired'' Internal (Plain (''cannot decode message: '' @ Error e)))
      | Inr m \<Rightarrow> decode_all data (msgs @ [m]))"

fun list_expired_loop ::
  "'s client \<Rightarrow> int \<Rightarrow> string list \<Rightarrow> TaskMessage list \<Rightarrow> 's rdb \<Rightarrow> (gerror + TaskMessage list) \<times> 's rdb" where
  "list_expired_loop send cutoff [] msgs r = (Inr msgs, r)"
| "list_expired_loop send cutoff (qname # qnames) msgs r =
     (let op = ''rdb.ListLeaseExpired'' in
      case issue send False (listLeaseExpiredCmd (LeaseKey qname) (unix cutoff) (TaskKeyPrefix qname)) r of
        (Inl e, r') \<Rightarrow> (Inl (EOpCode op Internal (eval_error e)), r')
      | (Inr res, r') \<Rightarrow>
          (case ToStringSliceE res of
             Inl _ \<Rightarrow> (Inl (EOpCode op Internal
               (Plain (''cast error: Lua script returned unexpected value: '' @ show_reply res))), r')
           | Inr data \<Rightarrow>
               (case decode_all data msgs of
                  Inl e \<Rightarrow> (Inl e, r')
                | Inr msgs' \<Rightarrow> list_expired_loop send cutoff qnames msgs' r')))"

definition ListLeaseExpired ::
  "'s client \<Rightarrow> int \<Rightarrow> string list \<Rightarrow> 's rdb \<Rightarrow> (gerror + TaskMessage list) \<times> 's rdb" where
  "ListLeaseExpired send cutoff qnames r = list_expired_loop send cutoff qnames [] r"

definition ExtendLease ::
  "'s client \<Rightarrow> int \<Rightarrow> string \<Rightarrow> string list \<Rightarrow> 's rdb \<Rightarrow> (gerror + int) \<times> 's rdb" where
  "ExtendLease send now qname ids r =
     (let expireAt = now + LeaseDuration;
          zs = map (\<lambda>i. (unix expireAt, i)) ids
      in case issue send False (single (ZADDXX (LeaseKey qname) zs)) r of
           (Inl e, r') \<Rightarrow> (Inl e, r')
         | (Inr _, r') \<Rightarrow> (Inr expireAt, r'))"

subsection \<open>Server state and results\<close>

fun encode_workers :: "zone \<Rightarrow> WorkerInfo list \<Rightarrow> (string \<times> string) list" where
  "encode_workers zone [] = []"
| "encode_workers zone (w # ws) =
     (case EncodeWorkerInfo zone (Some w) of
        Inl _ \<Rightarrow> encode_workers zone ws
      | Inr b \<Rightarrow> (wi_ID w, b) # encode_workers zone ws)"

text \<open>
  The script gets \<open>ttl.Seconds()\<close>, a floating-point number: with a fraction it is no argument
  \<open>SETEX\<close>, the first command of the script, takes.
\<close>

definition WriteServerState ::
  "zone \<Rightarrow> 's client \<Rightarrow> int \<Rightarrow> ServerInfo \<Rightarrow> WorkerInfo list \<Rightarrow> int \<Rightarrow> 's rdb \<Rightarrow> gerror option \<times> 's rdb" where
  "WriteServerState zone send now info workers ttl r =
     (let op = ''rdb.WriteServerState'' in
      case EncodeServerInfo zone (Some info) of
        Inl e \<Rightarrow> (Some (EOpCode op Internal (Plain (''cannot encode server info: '' @ Error e))), r)
      | Inr bytes \<Rightarrow>
          (let expu = unix (now + ttl);
               args = encode_workers zone workers;
               skey = ServerInfoKey (si_Host info) (si_PID info) (si_ServerID info);
               wkey = WorkersKey (si_Host info) (si_PID info) (si_ServerID info)
           in case issue send False (single (ZADD AllServers expu skey)) r of
                (Inl e, r1) \<Rightarrow> (Some (EOpCode op Unknown (RedisCommandError ''sadd'' e)), r1)
              | (Inr _, r1) \<Rightarrow>
                  (case issue send False (single (ZADD AllWorkers expu wkey)) r1 of
                     (Inl e, r2) \<Rightarrow> (Some (EOpCode op Unknown (RedisCommandError ''zadd'' e)), r2)
                   | (Inr _, r2) \<Rightarrow>
                       runScript send False op
                         (if second_ns dvd ttl then writeServerStateCmd skey wkey (ttl div second_ns) bytes args
                          else Ret (RErr ''ERR value is not an integer or out of range'')) r2)))"

definition ClearServerState ::
  "'s client \<Rightarrow> string \<Rightarrow> int \<Rightarrow> string \<Rightarrow> 's rdb \<Rightarrow> gerror option \<times> 's rdb" where
  "ClearServerState send host pid serverID r =
     (let op = ''rdb.ClearServerState'';
          skey = ServerInfoKey host pid serverID;
          wkey = WorkersKey host pid serverID
      in case issue send False (single (ZREM AllServers [skey])) r of
           (Inl e, r1) \<Rightarrow> (Some (EOpCode op Internal (RedisCommandError ''zrem'' e)), r1)
         | (Inr _, r1) \<Rightarrow>
             (case issue send False (single (ZREM AllWorkers [wkey])) r1 of
                (Inl e, r2) \<Rightarrow> (Some (EOpCode op Internal (RedisCommandError ''zrem'' e)), r2)
              | (Inr _, r2) \<Rightarrow> runScript send False op (clearServerStateCmd skey wkey) r2))"

definition WriteResult ::
  "'s client \<Rightarrow> string \<Rightarrow> string \<Rightarrow> string \<Rightarrow> 's rdb \<Rightarrow> (gerror + nat) \<times> 's rdb" where
  "WriteResult send qname taskID data r =
     (case issue send False (single (HSET (TaskKey qname taskID) [(''result'', data)])) r of
        (Inl e, r') \<Rightarrow> (Inl (EOpCode ''rdb.WriteResult'' Unknown (RedisCommandError ''hset'' e)), r')
      | (Inr _, r') \<Rightarrow> (Inr (length data), r'))"

end
