(* ===== verification/RedisClient.thy ===== *)
theory RedisClient
  imports Rdb
begin

text \<open>
  What the methods of \<open>rdb.go\<close> rely on in the Redis client library, as a locale, and the
  client the development computes with. The library documents that a call whose context is
  done is not sent, that a command is executed at the server before its reply arrives, and
  that a command may be sent again after a network error: an answered call was executed at
  least once, a failed one any number of times.
\<close>

definition apply_prog :: "reply prog \<Rightarrow> keyspace \<Rightarrow> keyspace" where
  "apply_prog p db = snd (run p db)"

locale redis_client =
  fixes send :: "'s client" and db_of :: "'s \<Rightarrow> keyspace"
  assumes context_done: "send s True p = (res, s') \<Longrightarrow> (\<exists>e. res = Inl e) \<and> db_of s' = db_of s"
    and answered: "send s ctx p = (Inr v, s') \<Longrightarrow>
      \<exists>n. v = fst (run p ((apply_prog p ^^ n) (db_of s))) \<and> db_of s' = (apply_prog p ^^ Suc n) (db_of s)"
    and failed: "send s ctx p = (Inl e, s') \<Longrightarrow> \<exists>n. db_of s' = (apply_prog p ^^ n) (db_of s)"
begin

lemma issue_context_done:
  assumes "issue send True p r = (res, r')"
  shows "(\<exists>e. res = Inl e) \<and> db_of (conn r') = db_of (conn r)"
proof -
  obtain res0 s where s: "send (conn r) True p = (res0, s)" by fastforce
  from context_done [OF s] show ?thesis using s assms by (auto simp: issue_def)
qed

lemma issue_ok:
  assumes "issue send ctx p r = (Inr v, r')"
  shows "\<exists>n. v = fst (run p ((apply_prog p ^^ n) (db_of (conn r)))) \<and> \<not> is_err v \<and> v \<noteq> RNil
    \<and> db_of (conn r') = (apply_prog p ^^ Suc n) (db_of (conn r))"
proof -
  obtain res0 s where s: "send (conn r) ctx p = (res0, s)" by fastforce
  then have g: "go_result res0 = Inr v" "r' = r\<lparr>conn := s\<rparr>" using assms by (auto simp: issue_def)
  then have "res0 = Inr v" "\<not> is_err v" "v \<noteq> RNil" by (cases res0 rule: go_result.cases; auto)+
  with answered [of "conn r" ctx p v s] s g(2) show ?thesis by auto
qed

lemma issue_any:
  assumes "issue send ctx p r = (res, r')"
  shows "\<exists>n. db_of (conn r') = (apply_prog p ^^ n) (db_of (conn r))"
proof -
  obtain res0 s where s: "send (conn r) ctx p = (res0, s)" by fastforce
  then have r: "r' = r\<lparr>conn := s\<rparr>" using assms by (auto simp: issue_def)
  show ?thesis
  proof (cases res0)
    case (Inl e)
    with failed [of "conn r" ctx p e s] s r show ?thesis by auto
  next
    case (Inr v)
    with answered [of "conn r" ctx p v s] s r show ?thesis by (metis rdb.select_convs(1) rdb.surjective rdb.update_convs(1))
  qed
qed

text \<open>
  A program that has an effect only the first time is executed at most once in effect,
  whatever the client repeats.
\<close>

lemma apply_once:
  assumes first: "does q p st a st1" and again: "does q p st1 b st1" and "qrep q db st"
  shows "qrep q ((apply_prog p ^^ Suc n) db) st1"
proof (induction n)
  case 0
  show ?case using doesD(2) [OF first assms(3)] by (simp add: apply_prog_def)
next
  case (Suc n)
  then show ?case using doesD(2) [OF again Suc] by (simp add: apply_prog_def)
qed

lemma apply_at_most_once:
  assumes "does q p st a st1" and "does q p st1 b st1" and "qrep q db st"
  shows "qrep q ((apply_prog p ^^ n) db) st \<or> qrep q ((apply_prog p ^^ n) db) st1"
  using apply_once [OF assms] assms(3) by (cases n) auto

lemma issue_once:
  assumes "does q p st a st1" and "does q p st1 b st1" and "qrep q (db_of (conn r)) st"
    and "issue send ctx p r = (res, r')"
  shows "qrep q (db_of (conn r')) st1 \<and> (res = Inr a \<or> res = Inr b)
    \<or> (\<exists>e. res = Inl e) \<and> (qrep q (db_of (conn r')) st \<or> qrep q (db_of (conn r')) st1)"
proof (cases res)
  case (Inl e)
  then show ?thesis
    using issue_any [OF assms(4)] apply_at_most_once [OF assms(1-3)] by metis
next
  case (Inr v)
  from issue_ok [OF assms(4) [unfolded Inr]] obtain n where
    n: "v = fst (run p ((apply_prog p ^^ n) (db_of (conn r))))"
      "db_of (conn r') = (apply_prog p ^^ Suc n) (db_of (conn r))"
    by blast
  have "v = a \<or> v = b"
  proof (cases n)
    case 0
    then show ?thesis using n(1) doesD(1) [OF assms(1,3)] by simp
  next
    case (Suc k)
    then show ?thesis
      using n(1) doesD(1) [OF assms(2) apply_once [OF assms(1-3), of k]] by simp
  qed
  then show ?thesis using n(2) apply_once [OF assms(1-3), of n] Inr by auto
qed

lemma runScript_once:
  assumes "does q p st a st1" and "does q p st1 (RErr m) st1" and "qrep q (db_of (conn r)) st"
    and "runScript send ctx op p r = (res, r')"
  shows "res = None \<Longrightarrow> qrep q (db_of (conn r')) st1"
    and "res \<noteq> None \<Longrightarrow> qrep q (db_of (conn r')) st \<or> qrep q (db_of (conn r')) st1"
proof -
  obtain res0 r0 where i: "issue send ctx p r = (res0, r0)" by fastforce
  then have r: "r' = r0" "res = None \<longleftrightarrow> (\<exists>v. res0 = Inr v)"
    using assms(4) by (auto simp: runScript_def split: sum.splits)
  show "res = None \<Longrightarrow> qrep q (db_of (conn r')) st1"
    "res \<noteq> None \<Longrightarrow> qrep q (db_of (conn r')) st \<or> qrep q (db_of (conn r')) st1"
    using issue_once [OF assms(1-3) i] r by auto
qed

lemma runScript_context_done:
  assumes "runScript send True op p r = (res, r')"
  shows "res \<noteq> None \<and> db_of (conn r') = db_of (conn r)"
proof -
  obtain res0 r0 where i: "issue send True p r = (res0, r0)" by fastforce
  with issue_context_done [OF i] assms show ?thesis by (auto simp: runScript_def)
qed

lemma runScriptWithErrorCode_once:
  assumes "does q p st (RInt a) st1" and "does q p st1 (RInt b) st1" and "qrep q (db_of (conn r)) st"
    and "runScriptWithErrorCode send ctx op p r = (res, r')"
  shows "qrep q (db_of (conn r')) st1 \<and> (res = Inr a \<or> res = Inr b)
    \<or> (\<exists>e. res = Inl (EOpCode op Unknown (eval_error e)))
      \<and> (qrep q (db_of (conn r')) st \<or> qrep q (db_of (conn r')) st1)"
proof -
  obtain res0 r0 where i: "issue send ctx p r = (res0, r0)" by fastforce
  show ?thesis
    using issue_once [OF assms(1-3) i] i assms(4) by (auto simp: runScriptWithErrorCode_def)
qed

end

subsection \<open>A client over one server\<close>

text \<open>
  What can happen to one transmission of a command: \<open>Lost\<close> requests do not reach the server,
  \<open>Unanswered\<close> ones are executed but the reply is lost, and \<open>GiveUp\<close> ends the retries. A
  connection is a server with the transmissions still to come, one list per call; a call
  whose list ends, and every call after the last list, gets its reply.
\<close>

datatype transmission = Lost | Unanswered | GiveUp

fun transmit :: "reply prog \<Rightarrow> transmission list \<Rightarrow> keyspace \<Rightarrow> (gerror + reply) \<times> keyspace" where
  "transmit p [] db = (Inr (fst (run p db)), apply_prog p db)"
| "transmit p (Lost # ts) db = transmit p ts db"
| "transmit p (Unanswered # ts) db = transmit p ts (apply_prog p db)"
| "transmit p (GiveUp # ts) db = (Inl (Foreign ''i/o timeout''), db)"

record net =
  server :: keyspace
  faults :: "transmission list list"

definition net_send :: "net client" where
  "net_send s ctx p =
     (if ctx then (Inl (Sentinel Context_Canceled), s)
      else (case transmit p (case faults s of [] \<Rightarrow> [] | ts # _ \<Rightarrow> ts) (server s) of
              (res, db) \<Rightarrow> (res, \<lparr>server = db, faults = tl (faults s)\<rparr>)))"

lemma transmit_answered:
  "transmit p ts db = (Inr v, db') \<Longrightarrow>
   \<exists>n. v = fst (run p ((apply_prog p ^^ n) db)) \<and> db' = (apply_prog p ^^ Suc n) db"
proof (induction p ts db rule: transmit.induct)
  case (1 p db)
  then show ?case by (intro exI [of _ 0]) auto
next
  case (3 p ts db)
  then obtain n where
    "v = fst (run p ((apply_prog p ^^ n) (apply_prog p db)))"
    "db' = (apply_prog p ^^ Suc n) (apply_prog p db)"
    by auto
  then show ?case by (intro exI [of _ "Suc n"]) (simp add: funpow_swap1)
qed auto

lemma transmit_failed:
  "transmit p ts db = (Inl e, db') \<Longrightarrow> \<exists>n. db' = (apply_prog p ^^ n) db"
proof (induction p ts db rule: transmit.induct)
  case (3 p ts db)
  then obtain n where "db' = (apply_prog p ^^ n) (apply_prog p db)"
    by auto
  then show ?case by (intro exI [of _ "Suc n"]) (simp add: funpow_swap1)
next
  case (4 p ts db)
  then show ?case by (intro exI [of _ 0]) auto
qed auto

interpretation net: redis_client net_send server
proof unfold_locales
  fix s :: net and p res s' and ctx :: bool and v e
  show "net_send s True p = (res, s') \<Longrightarrow> (\<exists>e. res = Inl e) \<and> server s' = server s"
    by (auto simp: net_send_def)
  show "\<exists>n. v = fst (run p ((apply_prog p ^^ n) (server s))) \<and> server s' = (apply_prog p ^^ Suc n) (server s)"
    if "net_send s ctx p = (Inr v, s')"
    using that transmit_answered by (fastforce simp: net_send_def split: if_splits prod.splits)
  show "\<exists>n. server s' = (apply_prog p ^^ n) (server s)" if "net_send s ctx p = (Inl e, s')"
  proof (cases ctx)
    case True
    then show ?thesis using that by (intro exI [of _ 0]) (simp add: net_send_def)
  next
    case False
    then show ?thesis
      using that transmit_failed by (fastforce simp: net_send_def split: prod.splits)
  qed
qed

end
