(* ===== verification/RdbFacts.thy ===== *)
theory RdbFacts
  imports RedisClient
begin

text \<open>
  What the methods of \<open>rdb.go\<close> achieve over any Redis client: the settling methods take
  effect at most once and report success only when they did, \<open>Dequeue\<close> hands out a task
  that is active and leased, and the loops that forward tasks and delete expired ones end.
\<close>

subsection \<open>Settling operations\<close>

fun settles :: "qop \<Rightarrow> string option" where
  "settles (Op_done tid _ _) = Some tid"
| "settles (Op_done_unique _ tid _ _) = Some tid"
| "settles (Op_complete tid _ _ _ _) = Some tid"
| "settles (Op_requeue tid) = Some tid"
| "settles (Op_retry tid _ _ _ _ _) = Some tid"
| "settles (Op_archive tid _ _ _ _ _ _) = Some tid"
| "settles _ = None"

lemma does_not_found:
  "settles op = Some tid \<Longrightarrow> tid \<notin> set (q_active st) \<Longrightarrow>
   does q (qop_prog um q op) st (RErr ''NOT FOUND'') st"
  by (cases op) (simp_all add: does_settle_not_found)

lemma q_active_count [simp]:
  "q_active (s_count_done st) = q_active st" "q_active (s_count_failed st) = q_active st"
  "q_active (s_unlock u tid st) = q_active st"
  by (simp_all add: s_count_done_def s_count_failed_def s_unlock_def)

lemma settled_not_active:
  assumes "settles op = Some tid" and "tid \<in> set (q_active st)"
  shows "fst (qop_effect q op st) = RStatus ''OK''" "tid \<notin> set (q_active (snd (qop_effect q op st)))"
  using assms
  by (cases op; simp add: settle_def s_done_def s_complete_def s_requeue_def s_retry_def s_archive_def Let_def)+

context redis_client
begin

lemma settle_call:
  assumes op: "settles op = Some tid"
    and st: "qinv st" "counters_ok st" "trim_fits um op st" "qrep q (db_of (conn r)) st"
    and run: "runScript send ctx name (qop_prog um q op) r = (res, r')"
  shows "(res = None \<longrightarrow> tid \<in> set (q_active st) \<and> qrep q (db_of (conn r')) (snd (qop_effect q op st)))
    \<and> (res \<noteq> None \<longrightarrow> qrep q (db_of (conn r')) st
        \<or> tid \<in> set (q_active st) \<and> qrep q (db_of (conn r')) (snd (qop_effect q op st)))"
proof (cases "tid \<in> set (q_active st)")
  case True
  have first: "does q (qop_prog um q op) st (fst (qop_effect q op st)) (snd (qop_effect q op st))"
    by (rule qop_refines [OF st(1-3)])
  have again: "does q (qop_prog um q op) (snd (qop_effect q op st)) (RErr ''NOT FOUND'') (snd (qop_effect q op st))"
    by (rule does_not_found [OF op settled_not_active(2) [OF op True]])
  show ?thesis using runScript_once [OF first again st(4) run] True by blast
next
  case False
  note d = does_not_found [OF op False]
  have "\<exists>v. res = Some v"
  proof -
    obtain res0 r0 where i: "issue send ctx (qop_prog um q op) r = (res0, r0)" by fastforce
    have "\<exists>e. res0 = Inl e"
    proof (cases res0)
      case (Inr v)
      from issue_ok [OF i [unfolded Inr]] obtain n where
        "v = fst (run (qop_prog um q op) ((apply_prog (qop_prog um q op) ^^ n) (db_of (conn r))))" "\<not> is_err v"
        by blast
      moreover have "qrep q ((apply_prog (qop_prog um q op) ^^ n) (db_of (conn r))) st"
        using apply_at_most_once [OF d d st(4)] by blast
      ultimately show ?thesis using doesD(1) [OF d] by fastforce
    qed simp
    then show ?thesis using run i by (auto simp: runScript_def)
  qed
  then show ?thesis using runScript_once [OF d d st(4) run] by blast
qed

end

text \<open>
  The outcome of a call that ends the processing of a task: success means that the task was
  active and the queue is now \<open>st1\<close>; after an error that has happened or nothing has.
\<close>

definition settled :: "string \<Rightarrow> keyspace \<Rightarrow> gerror option \<Rightarrow> string \<Rightarrow> queue_state \<Rightarrow> queue_state \<Rightarrow> bool" where
  "settled q db res tid st st1 \<longleftrightarrow>
     (res = None \<longrightarrow> tid \<in> set (q_active st) \<and> qrep q db st1)
     \<and> (res \<noteq> None \<longrightarrow> qrep q db st \<or> tid \<in> set (q_active st) \<and> qrep q db st1)"

lemma settledD: "settled q db res tid st st1 \<Longrightarrow> res = None \<Longrightarrow> qrep q db st1"
  by (simp add: settled_def)

lemma settle_active: "tid \<in> set (q_active st) \<Longrightarrow> settle tid f st = (RStatus ''OK'', f st)"
  by (simp add: settle_def)

context redis_client
begin

lemma settled_call:
  assumes "settles op = Some tid" and "qinv st" "counters_ok st" "trim_fits um op st"
    and "qrep q (db_of (conn r)) st" and "runScript send ctx name (qop_prog um q op) r = (res, r')"
    and "tid \<in> set (q_active st) \<Longrightarrow> qop_effect q op st = (RStatus ''OK'', st1)"
  shows "settled q (db_of (conn r')) res tid st st1"
  using settle_call [OF assms(1-6)] assms(7) by (auto simp: settled_def)

end

text \<open>The programs of the methods are those of the system's operations.\<close>

lemma Done_plain:
  "msg_UniqueKey msg = [] \<Longrightarrow>
   Done send ctx now msg r =
     runScript send ctx ''rdb.Done''
       (qop_prog um (Queue msg) (Op_done (ID msg) now (unix (now + statsTTL)))) r"
  by (simp add: Done_def Let_def)

lemma kname_nonempty [simp]: "kname q k \<noteq> []"
  by (simp add: kname_def QueueKeyPrefix_def)

lemma Done_unique:
  "msg_UniqueKey msg = kname (Queue msg) (KUnique u) \<Longrightarrow>
   Done send ctx now msg r =
     runScript send ctx ''rdb.Done''
       (qop_prog um (Queue msg) (Op_done_unique u (ID msg) now (unix (now + statsTTL)))) r"
  by (simp add: Done_def Let_def)

lemma Requeue_qop:
  "Requeue send ctx msg r =
     runScript send ctx ''rdb.Requeue'' (qop_prog um (Queue msg) (Op_requeue (ID msg))) r"
  by (simp add: Requeue_def Let_def)

lemma MarkAsComplete_qop:
  "MarkAsComplete send ctx now msg r =
     (let m = msg\<lparr>CompletedAt := unix now\<rparr> in
      case runScript send ctx ''rdb.MarkAsComplete''
             (qop_prog um (Queue msg) (Op_complete (ID msg) now (unix (now + statsTTL))
               (wrap64 (unix now + Retention msg)) (encode m))) r of
        (e, r') \<Rightarrow> (e, m, r'))"
  by (simp add: MarkAsComplete_def Let_def)

lemma Retry_qop:
  "RDB_Retry send ctx now msg processAt errMsg isFailure r =
     runScript send ctx ''rdb.Retry''
       (qop_prog um (Queue msg) (Op_retry (ID msg) (encode (retry_message now errMsg isFailure msg)) now
         (unix processAt) (unix (now + statsTTL)) isFailure)) r"
  by (simp add: RDB_Retry_def Let_def)

lemma Archive_qop:
  "Archive um send ctx now msg errMsg r =
     runScript send ctx ''rdb.Archive''
       (qop_prog um (Queue msg) (Op_archive (ID msg) (encode (archive_message now errMsg msg)) now
         (unix now) (unix (archive_cutoff now)) maxArchiveSize (unix (now + statsTTL)))) r"
  by (simp add: Archive_def Let_def)

subsection \<open>Dequeueing\<close>

definition dequeued :: "int \<Rightarrow> nat \<Rightarrow> queue_state \<Rightarrow> queue_state" where
  "dequeued e n st = ((\<lambda>st. snd (s_dequeue e st)) ^^ n) st"

lemma dequeued_0 [simp]: "dequeued e 0 st = st"
  by (simp add: dequeued_def)

lemma dequeued_Suc: "dequeued e (Suc n) st = snd (s_dequeue e (dequeued e n st))"
  by (simp add: dequeued_def)

lemma dequeued_pending: "set (q_pending (dequeued e n st)) \<subseteq> set (q_pending st)"
proof (induction n)
  case (Suc n)
  have "set (q_pending (snd (s_dequeue e st'))) \<subseteq> set (q_pending st')" for st'
    by (auto simp: s_dequeue_def Let_def dest: in_set_butlastD)
  then show ?case using Suc by (auto simp: dequeued_Suc)
qed simp

lemma qinv_dequeued: "qinv st \<Longrightarrow> qinv (dequeued e n st)"
  by (induction n) (simp_all add: dequeued_Suc qinv_s_dequeue)

lemma apply_dequeue:
  "qrep q db st \<Longrightarrow>
   qrep q ((apply_prog (qop_prog um q (Op_dequeue e)) ^^ n) db) (dequeued e n st)"
proof (induction n)
  case (Suc n)
  then show ?case
    using doesD(2) [OF does_dequeue] by (simp add: dequeued_Suc apply_prog_def)
qed simp

text \<open>The task the dequeue at state \<open>st\<close> hands out, with its message \<open>m\<close> and lease.\<close>

definition holds_task :: "queue_state \<Rightarrow> string \<Rightarrow> string \<Rightarrow> int \<Rightarrow> bool" where
  "holds_task st tid m e \<longleftrightarrow>
     tid \<in> set (q_active st) \<and> (e, tid) \<in> set (q_lease st) \<and> field_of st tid ''msg'' = Some m"

lemma s_dequeue_holds:
  assumes "fst (s_dequeue e st) = Some m"
  shows "\<exists>tid. tid \<in> set (q_pending st) \<and> holds_task (snd (s_dequeue e st)) tid m e"
proof -
  have ne: "\<not> q_paused st" "q_pending st \<noteq> []"
    using assms by (auto simp: s_dequeue_def split: if_splits)
  have "holds_task (snd (s_dequeue e st)) (last (q_pending st)) m e"
    using assms
    by (simp add: s_dequeue_Some [OF ne] holds_task_def set_zadd field_of_def delete_conv'
        map_of_hset_all map_add_def)
  then show ?thesis using ne(2) by (intro exI [of _ "last (q_pending st)"]) simp
qed

definition queues_ok :: "string list \<Rightarrow> keyspace \<Rightarrow> bool" where
  "queues_ok qs db \<longleftrightarrow> (\<forall>q\<in>set qs. good_name q \<and> (\<exists>st. qrep q db st \<and> qinv st))"

definition same_elsewhere :: "string \<Rightarrow> keyspace \<Rightarrow> keyspace \<Rightarrow> bool" where
  "same_elsewhere q db db' \<longleftrightarrow> (\<forall>key. key \<notin> queue_keys q \<longrightarrow> lookup db' key = lookup db key)"

lemma same_elsewhere_refl [simp]: "same_elsewhere q db db"
  by (simp add: same_elsewhere_def)

lemma same_elsewhere_trans: "same_elsewhere q a b \<Longrightarrow> same_elsewhere q b c \<Longrightarrow> same_elsewhere q a c"
  by (simp add: same_elsewhere_def)

lemma same_elsewhere_apply: "same_elsewhere q db ((apply_prog (qop_prog um q op) ^^ n) db)"
proof (induction n)
  case (Suc n)
  have "same_elsewhere q db' (apply_prog (qop_prog um q op) db')" for db'
    by (simp add: same_elsewhere_def apply_prog_def run_frame [OF qop_prog_writes])
  then show ?case using Suc by (auto intro: same_elsewhere_trans)
qed simp

lemma qrep_same_elsewhere:
  assumes "same_elsewhere q db db'" and "good_name q" "good_name q'" "q' \<noteq> q" and "qrep q' db st"
  shows "qrep q' db' st"
proof (rule qrep_cong [OF assms(5)])
  fix k
  have "kname q' k \<notin> queue_keys q"
    using assms(2-4) by (auto simp: queue_keys_def good_name_def kname_inject2)
  then show "lookup db' (kname q' k) = lookup db (kname q' k)"
    using assms(1) by (simp add: same_elsewhere_def)
qed

lemma queues_ok_step:
  assumes "queues_ok qs db" and "good_name q" and "same_elsewhere q db db'"
    and "qrep q db' st" "qinv st"
  shows "queues_ok qs db'"
  unfolding queues_ok_def
proof
  fix q'
  assume "q' \<in> set qs"
  then obtain st' where g: "good_name q'" "qrep q' db st'" "qinv st'"
    using assms(1) by (auto simp: queues_ok_def)
  show "good_name q' \<and> (\<exists>st. qrep q' db' st \<and> qinv st)"
  proof (cases "q' = q")
    case True
    then show ?thesis using g(1) assms(4,5) by blast
  next
    case False
    then show ?thesis using qrep_same_elsewhere [OF assms(3,2) g(1)] g by blast
  qed
qed

context redis_client
begin

lemma Dequeue_holds:
  assumes "Dequeue send clk i qnames r = (Inr (msg, lease), r')"
    and "queues_ok qnames (db_of (conn r))"
  shows "\<exists>q\<in>set qnames. \<exists>st tid m. qrep q (db_of (conn r')) st \<and> qinv st
    \<and> holds_task st tid m (unix lease) \<and> DecodeMessage m = Inr msg"
  using assms
proof (induction qnames arbitrary: i r)
  case (Cons q qs)
  let ?e = "unix (clk i + LeaseDuration)"
  let ?p = "qop_prog undefined q (Op_dequeue ?e)"
  obtain st where st: "good_name q" "qrep q (db_of (conn r)) st" "qinv st"
    using Cons.prems(2) by (auto simp: queues_ok_def)
  obtain res r1 where i: "issue send False ?p r = (res, r1)" by fastforce
  show ?case
  proof (cases res)
    case (Inl err)
    then have nil: "err = redis_Nil" "Dequeue send clk (Suc i) qs r1 = (Inr (msg, lease), r')"
      using Cons.prems(1) i by (auto simp: Let_def split: if_splits)
    obtain n where n: "db_of (conn r1) = (apply_prog ?p ^^ n) (db_of (conn r))"
      using issue_any [OF i] by blast
    have "queues_ok qs (db_of (conn r))" using Cons.prems(2) by (simp add: queues_ok_def)
    then have "queues_ok qs (db_of (conn r1))"
      unfolding n
      by (rule queues_ok_step [OF _ st(1) same_elsewhere_apply apply_dequeue [OF st(2)] qinv_dequeued [OF st(3)]])
    from Cons.IH [OF nil(2) this] show ?thesis by auto
  next
    case (Inr v)
    from issue_ok [OF i [unfolded Inr]] obtain n where
      n: "v = fst (run ?p ((apply_prog ?p ^^ n) (db_of (conn r))))" "v \<noteq> RNil"
        "db_of (conn r1) = (apply_prog ?p ^^ Suc n) (db_of (conn r))"
      by blast
    have "v = bulk_or_nil (fst (s_dequeue ?e (dequeued ?e n st)))"
      using n(1) doesD(1) [OF does_dequeue apply_dequeue [OF st(2)]] by simp
    with n(2) obtain m where m: "fst (s_dequeue ?e (dequeued ?e n st)) = Some m" "v = RBulk m"
      by (auto simp: bulk_or_nil_def split: option.splits)
    then have res: "DecodeMessage m = Inr msg" "lease = clk i + LeaseDuration" "r' = r1"
      using Cons.prems(1) i Inr by (auto simp: Let_def split: sum.splits)
    have "qrep q (db_of (conn r1)) (dequeued ?e (Suc n) st)"
      unfolding n(3) by (rule apply_dequeue [OF st(2)])
    moreover obtain tid where "holds_task (dequeued ?e (Suc n) st) tid m ?e"
      using s_dequeue_holds [OF m(1)] by (auto simp: dequeued_Suc)
    ultimately show ?thesis
      using res qinv_dequeued [OF st(3)] by auto
  qed
qed simp

end

subsection \<open>The forwarding loop\<close>

lemma get_delayed_fold:
  "get_delayed d (fold (s_forward1 d now) ids st) = zrem_all ids (get_delayed d st)"
proof (induction ids arbitrary: st)
  case Nil
  then show ?case by (simp add: zrem_all_def)
next
  case (Cons i ids)
  have "zrem_all ids (zrem i z) = zrem_all (i # ids) z" for z
    unfolding zrem_all_def zrem_def filter_filter by (rule filter_cong) auto
  then show ?case using Cons by simp
qed

lemma get_delayed_s_forward:
  "get_delayed d (s_forward d now ns st) = zrem_all (take 100 (due d now st)) (get_delayed d st)"
  by (simp add: s_forward_def get_delayed_fold)

lemma get_delayed_other_set [simp]:
  "d' \<noteq> d \<Longrightarrow> get_delayed d' (set_delayed d z st) = get_delayed d' st"
  "get_delayed d' (put_fields tid ps st) = get_delayed d' st"
  by (cases d; cases d'; simp)+

lemma get_delayed_s_forward_other:
  assumes "d' \<noteq> d"
  shows "get_delayed d' (s_forward d now ns st) = get_delayed d' st"
  unfolding s_forward_def
  by (rule fold_same) (simp add: s_forward1_def assms)

lemma length_zrem_all_le: "length (zrem_all ids z) \<le> length z"
  by (simp add: zrem_all_def)

lemma length_zrem_all_less:
  "i \<in> set ids \<Longrightarrow> i \<in> set (zmembers z) \<Longrightarrow> length (zrem_all ids z) < length z"
  unfolding zrem_all_def zmembers_def by (auto intro: length_filter_less)

lemma s_forward_none: "due d now st = [] \<Longrightarrow> s_forward d now ns st = st"
  by (simp add: s_forward_def)

lemma s_forward_shrinks:
  "due d now st \<noteq> [] \<Longrightarrow> length (get_delayed d (s_forward d now ns st)) < length (get_delayed d st)"
proof -
  assume a: "due d now st \<noteq> []"
  then have "hd (due d now st) \<in> set (take 100 (due d now st))"
    by (cases "due d now st") simp_all
  moreover have "hd (due d now st) \<in> set (zmembers (get_delayed d st))"
    using hd_in_set [OF a] set_zrange_le_sub by (auto simp: due_def)
  ultimately show ?thesis
    unfolding get_delayed_s_forward by (rule length_zrem_all_less)
qed

definition forwarded :: "delayed \<Rightarrow> int \<Rightarrow> nat \<Rightarrow> queue_state \<Rightarrow> queue_state" where
  "forwarded d now n st = ((\<lambda>st. s_forward d (unix now) now st) ^^ n) st"

lemma forwarded_simps [simp]:
  "forwarded d now 0 st = st"
  "forwarded d now (Suc n) st = s_forward d (unix now) now (forwarded d now n st)"
  by (simp_all add: forwarded_def)

lemma forwarded_facts:
  "qinv st \<Longrightarrow> qinv (forwarded d now n st)"
  "length (get_delayed d (forwarded d now n st)) \<le> length (get_delayed d st)"
  "d' \<noteq> d \<Longrightarrow> get_delayed d' (forwarded d now n st) = get_delayed d' st"
proof (induction n)
  case (Suc n)
  show "qinv st \<Longrightarrow> qinv (forwarded d now (Suc n) st)"
    using Suc(1) by (simp add: qinv_s_forward)
  show "length (get_delayed d (forwarded d now (Suc n) st)) \<le> length (get_delayed d st)"
    using Suc(2) length_zrem_all_le le_trans by (fastforce simp: get_delayed_s_forward)
  show "d' \<noteq> d \<Longrightarrow> get_delayed d' (forwarded d now (Suc n) st) = get_delayed d' st"
    using Suc(3) by (simp add: get_delayed_s_forward_other)
qed simp_all

lemma apply_forward:
  "qrep q db st \<Longrightarrow>
   qrep q ((apply_prog (qop_prog um q (Op_forward d (unix now) now)) ^^ n) db) (forwarded d now n st)"
proof (induction n)
  case (Suc n)
  then show ?case using doesD(2) [OF does_forward] by (simp add: apply_prog_def)
qed simp

text \<open>The tasks that wait for a worker: forwarding moves them, and loses or adds none.\<close>

definition waiting :: "queue_state \<Rightarrow> string set" where
  "waiting st = set (q_pending st) \<union> set (zmembers (q_scheduled st)) \<union> set (zmembers (q_retry st))"

lemma zmembers_zrem: "set (zmembers (zrem i z)) = set (zmembers z) - {i}"
  by (force simp: zmembers_def zrem_def)

lemma waiting_s_forward1:
  "tid \<in> set (zmembers (get_delayed d st)) \<Longrightarrow> waiting (s_forward1 d now tid st) = waiting st"
  by (cases d) (auto simp: waiting_def s_forward1_def zmembers_zrem)

lemma waiting_fold:
  "distinct ids \<Longrightarrow> set ids \<subseteq> set (zmembers (get_delayed d st)) \<Longrightarrow>
   waiting (fold (s_forward1 d now) ids st) = waiting st
     \<and> q_active (fold (s_forward1 d now) ids st) = q_active st"
proof (induction ids arbitrary: st)
  case (Cons i ids)
  then have "set ids \<subseteq> set (zmembers (get_delayed d (s_forward1 d now i st)))"
    by (auto simp: zmembers_zrem)
  with Cons show ?case by (simp add: waiting_s_forward1)
qed simp

lemma waiting_s_forward:
  assumes "qinv st"
  shows "waiting (s_forward d now ns st) = waiting st" "q_active (s_forward d now ns st) = q_active st"
proof -
  note zset_ok_get_delayed [OF assms]
  then have "distinct (due d now st)" by (simp add: due_def distinct_zrange_le)
  then have "distinct (take 100 (due d now st))" by simp
  moreover have "set (take 100 (due d now st)) \<subseteq> set (zmembers (get_delayed d st))"
    using set_zrange_le_sub set_take_subset unfolding due_def by fastforce
  ultimately show "waiting (s_forward d now ns st) = waiting st" "q_active (s_forward d now ns st) = q_active st"
    using waiting_fold unfolding s_forward_def by blast+
qed

lemma waiting_forwarded:
  assumes "qinv st"
  shows "waiting (forwarded d now n st) = waiting st" "q_active (forwarded d now n st) = q_active st"
  using forwarded_facts(1) [OF assms] by (induction n) (simp_all add: waiting_s_forward)

text \<open>What a run of the loop leaves: \<open>e\<close> is its error, \<open>t\<close> the time of its last round.\<close>

definition forward_post ::
  "string \<Rightarrow> delayed \<Rightarrow> keyspace \<Rightarrow> queue_state \<Rightarrow> gerror option \<Rightarrow> int \<Rightarrow> keyspace \<Rightarrow> queue_state \<Rightarrow> bool" where
  "forward_post q d db st e t db' st' \<longleftrightarrow>
     qrep q db' st' \<and> qinv st' \<and> same_elsewhere q db db'
     \<and> waiting st' = waiting st \<and> q_active st' = q_active st
     \<and> (\<forall>d'. d' \<noteq> d \<longrightarrow> get_delayed d' st' = get_delayed d' st)
     \<and> (e = None \<longrightarrow> due d (unix t) st' = [])"

context redis_client
begin

lemma forward_step:
  assumes rep: "qrep q (db_of (conn r)) st"
    and run: "forward send now (kname q (dkey d)) (PendingKey q) (TaskKeyPrefix q) r = (res, r')"
  shows "\<exists>n. qrep q (db_of (conn r')) (forwarded d now n st) \<and> same_elsewhere q (db_of (conn r)) (db_of (conn r'))
    \<and> (\<forall>k. res = Inr k \<longrightarrow> n \<noteq> 0 \<and> k = int (length (take 100 (due d (unix now) (forwarded d now (n - 1) st)))))"
proof -
  let ?p = "qop_prog undefined q (Op_forward d (unix now) now)"
  obtain res0 r0 where i: "issue send False ?p r = (res0, r0)" by fastforce
  obtain m where m: "db_of (conn r0) = (apply_prog ?p ^^ m) (db_of (conn r))"
    using issue_any [OF i] by blast
  have se: "same_elsewhere q (db_of (conn r)) (db_of (conn r0))"
    unfolding m by (rule same_elsewhere_apply)
  have r0: "r' = r0" using run i by (auto simp: forward_def split: sum.splits)
  show ?thesis
  proof (cases res0)
    case (Inl e)
    then have "\<exists>e. res = Inl e" using run i by (auto simp: forward_def)
    then show ?thesis using apply_forward [OF rep, where n = m] m se r0 by auto
  next
    case (Inr v)
    from issue_ok [OF i [unfolded Inr]] obtain n where
      n: "v = fst (run ?p ((apply_prog ?p ^^ n) (db_of (conn r))))"
        "db_of (conn r0) = (apply_prog ?p ^^ Suc n) (db_of (conn r))"
      by blast
    have "v = RInt (int (length (take 100 (due d (unix now) (forwarded d now n st)))))"
      using n(1) doesD(1) [OF does_forward apply_forward [OF rep]] by simp
    then have "res = Inr (int (length (take 100 (due d (unix now) (forwarded d now n st)))))"
      using run i Inr by (auto simp: forward_def)
    then show ?thesis
      using apply_forward [OF rep, where n = "Suc n"] n(2) se r0 by (intro exI [of _ "Suc n"]) simp
  qed
qed

lemma forward_loop_returns:
  assumes "qrep q (db_of (conn r)) st" and "qinv st"
  shows "\<exists>e i' r' st'. i \<le> i' \<and>
    forward_loop send clk (kname q (dkey d)) (PendingKey q) (TaskKeyPrefix q) i r = Some (e, Suc i', r')
    \<and> forward_post q d (db_of (conn r)) st e (clk i') (db_of (conn r')) st'"
  using assms
proof (induction "length (get_delayed d st)" arbitrary: st i r rule: less_induct)
  case less
  let ?fwd = "forward send (clk i) (kname q (dkey d)) (PendingKey q) (TaskKeyPrefix q) r"
  obtain res r1 where f: "?fwd = (res, r1)" by fastforce
  obtain n where n: "qrep q (db_of (conn r1)) (forwarded d (clk i) n st)"
    "same_elsewhere q (db_of (conn r)) (db_of (conn r1))"
    "\<And>k. res = Inr k \<Longrightarrow> n \<noteq> 0 \<and> k = int (length (take 100 (due d (unix (clk i)) (forwarded d (clk i) (n - 1) st))))"
    using forward_step [OF less.prems(1) f] by blast
  note facts = forwarded_facts [where d = d and now = "clk i" and st = st]
  note inv = facts(1) [OF less.prems(2)]
  note wait = waiting_forwarded [OF less.prems(2)]
  show ?case
  proof (cases res)
    case (Inl e)
    then have "forward_loop send clk (kname q (dkey d)) (PendingKey q) (TaskKeyPrefix q) i r = Some (Some e, Suc i, r1)"
      using f by (subst forward_loop.simps) simp
    then show ?thesis
      using n(1,2) inv facts(3) wait by (auto simp: forward_post_def)
  next
    case (Inr k)
    from n(3) [OF Inr] obtain m where m: "n = Suc m"
      "k = int (length (take 100 (due d (unix (clk i)) (forwarded d (clk i) m st))))"
      by (cases n) auto
    show ?thesis
    proof (cases "k = 0")
      case True
      then have "take 100 (due d (unix (clk i)) (forwarded d (clk i) m st)) = []"
        using m(2) by (simp del: length_take)
      then have "due d (unix (clk i)) (forwarded d (clk i) m st) = []" by simp
      moreover from this have "forwarded d (clk i) n st = forwarded d (clk i) m st"
        using m(1) s_forward_none by simp
      moreover have "forward_loop send clk (kname q (dkey d)) (PendingKey q) (TaskKeyPrefix q) i r = Some (None, Suc i, r1)"
        using f Inr True by (subst forward_loop.simps) simp
      ultimately show ?thesis
        using n(1,2) inv facts(3) wait by (auto simp: forward_post_def)
    next
      case False
      then have ne: "due d (unix (clk i)) (forwarded d (clk i) m st) \<noteq> []" using m(2) by auto
      have "length (get_delayed d (forwarded d (clk i) n st)) < length (get_delayed d st)"
        using s_forward_shrinks [OF ne, of "clk i"] facts(2) [of m] m(1) by simp
      from less.hyps [OF this n(1) inv, of "Suc i"] obtain e i' r' st' where
        l: "Suc i \<le> i'" "forward_loop send clk (kname q (dkey d)) (PendingKey q) (TaskKeyPrefix q) (Suc i) r1 = Some (e, Suc i', r')"
          "forward_post q d (db_of (conn r1)) (forwarded d (clk i) n st) e (clk i') (db_of (conn r')) st'"
        by blast
      have "forward_loop send clk (kname q (dkey d)) (PendingKey q) (TaskKeyPrefix q) i r = Some (e, Suc i', r')"
        using f Inr False l(2) by (subst forward_loop.simps) simp
      moreover have "forward_post q d (db_of (conn r)) st e (clk i') (db_of (conn r')) st'"
        using l(3) n(2) facts(3) wait by (auto simp: forward_post_def intro: same_elsewhere_trans)
      moreover have "i \<le> i'" using l(1) by simp
      ultimately show ?thesis by blast
    qed
  qed
qed

lemma forwardAll_returns:
  assumes "qrep q (db_of (conn r)) st" and "qinv st"
  shows "\<exists>e i' r' st'. forwardAll send clk i q r = Some (e, i', r')
    \<and> qrep q (db_of (conn r')) st' \<and> qinv st' \<and> same_elsewhere q (db_of (conn r)) (db_of (conn r'))
    \<and> waiting st' = waiting st \<and> q_active st' = q_active st
    \<and> (e = None \<longrightarrow> (\<exists>j k. i \<le> j \<and> j < k \<and> k < i' \<and> due From_scheduled (unix (clk j)) st' = [] \<and> due From_retry (unix (clk k)) st' = []))"
proof -
  obtain e1 i1 r1 st1 where 1:
    "i \<le> i1" "forward_loop send clk (kname q (dkey From_scheduled)) (PendingKey q) (TaskKeyPrefix q) i r = Some (e1, Suc i1, r1)"
    "forward_post q From_scheduled (db_of (conn r)) st e1 (clk i1) (db_of (conn r1)) st1"
    using forward_loop_returns [OF assms] by blast
  show ?thesis
  proof (cases e1)
    case (Some e)
    then show ?thesis
      using 1 by (auto simp: forwardAll_def key_simps forward_post_def)
  next
    case None
    obtain e2 i2 r2 st2 where 2:
      "Suc i1 \<le> i2" "forward_loop send clk (kname q (dkey From_retry)) (PendingKey q) (TaskKeyPrefix q) (Suc i1) r1 = Some (e2, Suc i2, r2)"
      "forward_post q From_retry (db_of (conn r1)) st1 e2 (clk i2) (db_of (conn r2)) st2"
      using forward_loop_returns [where i = "Suc i1" and q = q and r = r1 and st = st1 and d = From_retry and clk = clk] 1(3)
      unfolding forward_post_def by blast
    have sched: "get_delayed From_scheduled st2 = get_delayed From_scheduled st1"
      using 2(3) unfolding forward_post_def by blast
    have "forwardAll send clk i q r = Some (e2, Suc i2, r2)"
      using 1(2) 2(2) None by (cases e2) (simp_all add: forwardAll_def key_simps)
    moreover have "due From_scheduled (unix (clk i1)) st2 = []"
      using 1(3) None sched by (simp add: forward_post_def due_def)
    moreover have "e2 = None \<Longrightarrow> due From_retry (unix (clk i2)) st2 = []"
      using 2(3) by (simp add: forward_post_def)
    moreover have "i \<le> i1" "i1 < i2" "i2 < Suc i2" using 1(1) 2(1) by simp_all
    moreover have "qrep q (db_of (conn r2)) st2" "qinv st2" "waiting st2 = waiting st"
      "q_active st2 = q_active st" "same_elsewhere q (db_of (conn r)) (db_of (conn r2))"
      using 1(3) 2(3) unfolding forward_post_def by (auto intro: same_elsewhere_trans)
    ultimately show ?thesis by blast
  qed
qed

lemma ForwardIfReady_returns:
  assumes "queues_ok qs (db_of (conn r))" and "set qnames \<subseteq> set qs"
  shows "\<exists>e i' r'. ForwardIfReady send clk i qnames r = Some (e, i', r') \<and> queues_ok qs (db_of (conn r'))"
  using assms
proof (induction qnames arbitrary: i r)
  case (Cons q qnames)
  then obtain st where st: "good_name q" "qrep q (db_of (conn r)) st" "qinv st"
    by (auto simp: queues_ok_def)
  obtain e i' r' st' where f: "forwardAll send clk i q r = Some (e, i', r')"
    "qrep q (db_of (conn r')) st'" "qinv st'" "same_elsewhere q (db_of (conn r)) (db_of (conn r'))"
    using forwardAll_returns [OF st(2,3)] by blast
  have ok: "queues_ok qs (db_of (conn r'))"
    by (rule queues_ok_step [OF Cons.prems(1) st(1) f(4,2,3)])
  show ?case
  proof (cases e)
    case None
    then show ?thesis using Cons.IH [OF ok, of i'] Cons.prems(2) f(1) by simp
  next
    case (Some x)
    then show ?thesis using f(1) ok by simp
  qed
qed simp

end

subsection \<open>Deleting expired tasks\<close>

definition expired_batch :: "int \<Rightarrow> int \<Rightarrow> queue_state \<Rightarrow> string list" where
  "expired_batch now batch st = limit (Some (0, batch)) (zrange_le now (q_completed st))"

lemma q_completed_fold: "q_completed (fold s_expire1 ids st) = zrem_all ids (q_completed st)"
proof (induction ids arbitrary: st)
  case Nil
  then show ?case by (simp add: zrem_all_def)
next
  case (Cons i ids)
  have "zrem_all ids (zrem i z) = zrem_all (i # ids) z" for z
    unfolding zrem_all_def zrem_def filter_filter by (rule filter_cong) auto
  then show ?case using Cons by (simp add: s_expire1_def)
qed

lemma q_completed_s_expire:
  "q_completed (s_expire now batch st) = zrem_all (expired_batch now batch st) (q_completed st)"
  by (simp add: s_expire_def expired_batch_def q_completed_fold)

lemma s_expire_none: "expired_batch now batch st = [] \<Longrightarrow> s_expire now batch st = st"
  by (simp add: s_expire_def expired_batch_def)

lemma s_expire_shrinks:
  assumes "expired_batch now batch st \<noteq> []"
  shows "length (q_completed (s_expire now batch st)) < length (q_completed st)"
  unfolding q_completed_s_expire
proof (rule length_zrem_all_less [OF hd_in_set [OF assms]])
  show "hd (expired_batch now batch st) \<in> set (zmembers (q_completed st))"
    using hd_in_set [OF assms] subset_trans [OF set_limit_sub set_zrange_le_sub]
    unfolding expired_batch_def by blast
qed

definition expired :: "int \<Rightarrow> int \<Rightarrow> nat \<Rightarrow> queue_state \<Rightarrow> queue_state" where
  "expired now batch n st = (s_expire now batch ^^ n) st"

lemma expired_simps [simp]:
  "expired now batch 0 st = st" "expired now batch (Suc n) st = s_expire now batch (expired now batch n st)"
  by (simp_all add: expired_def)

lemma expired_facts:
  "qinv st \<Longrightarrow> qinv (expired now batch n st)"
  "length (q_completed (expired now batch n st)) \<le> length (q_completed st)"
proof (induction n)
  case (Suc n)
  show "qinv st \<Longrightarrow> qinv (expired now batch (Suc n) st)"
    using Suc(1) by (simp add: qinv_s_expire)
  show "length (q_completed (expired now batch (Suc n) st)) \<le> length (q_completed st)"
    using Suc(2) length_zrem_all_le le_trans by (fastforce simp: q_completed_s_expire)
qed simp_all

lemma apply_expire:
  "qrep q db st \<Longrightarrow>
   qrep q ((apply_prog (qop_prog um q (Op_expire now batch)) ^^ n) db) (expired now batch n st)"
proof (induction n)
  case (Suc n)
  then show ?case using doesD(2) [OF does_expire] by (simp add: apply_prog_def)
qed simp

context redis_client
begin

lemma expire_step:
  assumes rep: "qrep q (db_of (conn r)) st"
    and run: "deleteExpiredCompletedTasks send now q batch r = (res, r')"
  shows "\<exists>n. qrep q (db_of (conn r')) (expired (unix now) batch n st)
    \<and> same_elsewhere q (db_of (conn r)) (db_of (conn r')) \<and> (\<forall>k. res = Inr k \<longrightarrow>
         n \<noteq> 0 \<and> k = int (length (expired_batch (unix now) batch (expired (unix now) batch (n - 1) st))))"
proof -
  let ?p = "qop_prog undefined q (Op_expire (unix now) batch)"
  obtain res0 r0 where i: "issue send False ?p r = (res0, r0)" by fastforce
  obtain m where m: "db_of (conn r0) = (apply_prog ?p ^^ m) (db_of (conn r))"
    using issue_any [OF i] by blast
  have se: "same_elsewhere q (db_of (conn r)) (db_of (conn r0))"
    unfolding m by (rule same_elsewhere_apply)
  have r0: "r' = r0"
    using run i by (auto simp: deleteExpiredCompletedTasks_def Let_def split: sum.splits reply.splits)
  show ?thesis
  proof (cases res0)
    case (Inl e)
    then have "\<exists>e. res = Inl e" using run i by (auto simp: deleteExpiredCompletedTasks_def)
    then show ?thesis using apply_expire [OF rep, where n = m] m r0 se by auto
  next
    case (Inr v)
    from issue_ok [OF i [unfolded Inr]] obtain n where
      n: "v = fst (run ?p ((apply_prog ?p ^^ n) (db_of (conn r))))"
        "db_of (conn r0) = (apply_prog ?p ^^ Suc n) (db_of (conn r))"
      by blast
    have "v = RInt (int (length (expired_batch (unix now) batch (expired (unix now) batch n st))))"
      using n(1) doesD(1) [OF does_expire apply_expire [OF rep]] by (simp add: expired_batch_def)
    then have "res = Inr (int (length (expired_batch (unix now) batch (expired (unix now) batch n st))))"
      using run i Inr by (auto simp: deleteExpiredCompletedTasks_def)
    then show ?thesis
      using apply_expire [OF rep, where n = "Suc n"] n(2) r0 se by (intro exI [of _ "Suc n"]) simp
  qed
qed

lemma DeleteExpired_returns:
  assumes "qrep q (db_of (conn r)) st" and "qinv st"
  shows "\<exists>e i' r' st'. DeleteExpiredCompletedTasks send clk i q batch r = Some (e, Suc i', r')
    \<and> i \<le> i' \<and> qrep q (db_of (conn r')) st' \<and> qinv st' \<and> same_elsewhere q (db_of (conn r)) (db_of (conn r'))
    \<and> (e = None \<longrightarrow> expired_batch (unix (clk i')) batch st' = [])"
  using assms
proof (induction "length (q_completed st)" arbitrary: st i r rule: less_induct)
  case less
  obtain res r1 where f: "deleteExpiredCompletedTasks send (clk i) q batch r = (res, r1)" by fastforce
  let ?st = "\<lambda>n. expired (unix (clk i)) batch n st"
  obtain n where n: "qrep q (db_of (conn r1)) (?st n)"
    "same_elsewhere q (db_of (conn r)) (db_of (conn r1))" "\<And>k. res = Inr k \<Longrightarrow> n \<noteq> 0 \<and> k = int (length (expired_batch (unix (clk i)) batch (?st (n - 1))))"
    using expire_step [OF less.prems(1) f] by blast
  note inv = expired_facts(1) [OF less.prems(2), of "unix (clk i)" batch n]
  show ?case
  proof (cases res)
    case (Inl e)
    then have "DeleteExpiredCompletedTasks send clk i q batch r = Some (Some e, Suc i, r1)"
      using f by (subst DeleteExpiredCompletedTasks.simps) simp
    then show ?thesis using n(1,2) inv by auto
  next
    case (Inr k)
    from n(3) [OF Inr] obtain m where m: "n = Suc m"
      "k = int (length (expired_batch (unix (clk i)) batch (?st m)))"
      by (cases n) auto
    show ?thesis
    proof (cases "k = 0")
      case True
      then have none: "expired_batch (unix (clk i)) batch (?st m) = []" using m(2) by simp
      have "DeleteExpiredCompletedTasks send clk i q batch r = Some (None, Suc i, r1)"
        using f Inr True by (subst DeleteExpiredCompletedTasks.simps) simp
      then show ?thesis using n(1,2) inv m(1) s_expire_none [OF none] none by auto
    next
      case False
      then have ne: "expired_batch (unix (clk i)) batch (?st m) \<noteq> []" using m(2) by auto
      have "length (q_completed (?st n)) < length (q_completed st)"
        using s_expire_shrinks [OF ne] expired_facts(2) [of "unix (clk i)" batch m st] m(1) by simp
      from less.hyps [OF this n(1) inv, of "Suc i"] obtain e i' r' st' where
        "DeleteExpiredCompletedTasks send clk (Suc i) q batch r1 = Some (e, Suc i', r')"
        "Suc i \<le> i'" "qrep q (db_of (conn r')) st'" "qinv st'"
        "same_elsewhere q (db_of (conn r1)) (db_of (conn r'))" "e = None \<longrightarrow> expired_batch (unix (clk i')) batch st' = []"
        by blast
      moreover have "DeleteExpiredCompletedTasks send clk i q batch r
          = DeleteExpiredCompletedTasks send clk (Suc i) q batch r1"
        using f Inr False by (subst DeleteExpiredCompletedTasks.simps) simp
      ultimately show ?thesis
        using same_elsewhere_trans [OF n(2)] by (metis Suc_leD)
    qed
  qed
qed

end

end
