(* ===== verification/Client.thy ===== *)
theory Client
  imports RdbFacts
begin

text \<open>
  \<open>client.go\<close>, with the types \<open>Task\<close>, \<open>TaskInfo\<close> and \<open>ResultWriter\<close> of \<open>titanqueue.go\<close>: the
  options of a task, how they are merged and checked, the message built from them, and the
  call of the broker. \<open>clk i\<close> is the \<open>i\<close>-th reading of the wall clock, \<open>uuid\<close> the fresh ID
  \<open>uuid.NewString()\<close> returns, \<open>md5hex\<close> the checksum of \<open>base.UniqueKey\<close>.
\<close>

subsection \<open>Options\<close>

datatype Option =
    retryOption int
  | queueOption string
  | taskIDOption string
  | timeoutOption int
  | deadlineOption int
  | uniqueOption int
  | processAtOption int
  | processInOption int
  | retentionOption int
  | otherOption \<comment> \<open>an implementation of the interface from outside the package\<close>

datatype OptionType =
    MaxRetryOpt | QueueOpt | TimeoutOpt | DeadlineOpt | UniqueOpt | ProcessAtOpt | ProcessInOpt
  | TaskIDOpt | RetentionOpt

fun Option_Type :: "Option \<Rightarrow> OptionType option" where
  "Option_Type (retryOption _) = Some MaxRetryOpt"
| "Option_Type (queueOption _) = Some QueueOpt"
| "Option_Type (taskIDOption _) = Some TaskIDOpt"
| "Option_Type (timeoutOption _) = Some TimeoutOpt"
| "Option_Type (deadlineOption _) = Some DeadlineOpt"
| "Option_Type (uniqueOption _) = Some UniqueOpt"
| "Option_Type (processAtOption _) = Some ProcessAtOpt"
| "Option_Type (processInOption _) = Some ProcessInOpt"
| "Option_Type (retentionOption _) = Some RetentionOpt"
| "Option_Type otherOption = None"

definition MaxRetry :: "int \<Rightarrow> Option" where
  "MaxRetry n = retryOption (if n < 0 then 0 else n)"

record option_rec =
  o_retry :: int
  o_queue :: string
  o_taskID :: string
  o_timeout :: int
  o_deadline :: int
  o_uniqueTTL :: int
  o_processAt :: int
  o_retention :: int

definition defaultMaxRetry :: int where
  "defaultMaxRetry = 25"

definition defaultTimeout :: int where
  "defaultTimeout = 30 * 60 * second_ns"

definition noTimeout :: int where
  "noTimeout = 0"

definition noDeadline :: int where
  "noDeadline = 0"

definition isBlank :: "string \<Rightarrow> bool" where
  "isBlank s \<longleftrightarrow> TrimSpace s = []"

text \<open>One option; \<open>now\<close> is the clock reading of a \<open>ProcessIn\<close>.\<close>

fun apply_option :: "int \<Rightarrow> Option \<Rightarrow> option_rec \<Rightarrow> gerror + option_rec" where
  "apply_option now (retryOption n) res = Inr (res\<lparr>o_retry := n\<rparr>)"
| "apply_option now (queueOption qname) res =
     (case ValidateQueueName qname of Some e \<Rightarrow> Inl e | None \<Rightarrow> Inr (res\<lparr>o_queue := qname\<rparr>))"
| "apply_option now (taskIDOption tid) res =
     (if isBlank tid then Inl (Plain ''task ID cannot be empty'') else Inr (res\<lparr>o_taskID := tid\<rparr>))"
| "apply_option now (timeoutOption d) res = Inr (res\<lparr>o_timeout := d\<rparr>)"
| "apply_option now (deadlineOption t) res = Inr (res\<lparr>o_deadline := t\<rparr>)"
| "apply_option now (uniqueOption ttl) res =
     (if ttl < 1 * second_ns then Inl (Plain ''Unique TTL cannot be less than 1s'')
      else Inr (res\<lparr>o_uniqueTTL := ttl\<rparr>))"
| "apply_option now (processAtOption t) res = Inr (res\<lparr>o_processAt := t\<rparr>)"
| "apply_option now (processInOption d) res = Inr (res\<lparr>o_processAt := now + d\<rparr>)"
| "apply_option now (retentionOption d) res = Inr (res\<lparr>o_retention := d\<rparr>)"
| "apply_option now otherOption res = Inr res"

fun compose_loop :: "(nat \<Rightarrow> int) \<Rightarrow> nat \<Rightarrow> Option list \<Rightarrow> option_rec \<Rightarrow> gerror + nat \<times> option_rec" where
  "compose_loop clk i [] res = Inr (i, res)"
| "compose_loop clk i (opt # opts) res =
     (case apply_option (clk i) opt res of
        Inl e \<Rightarrow> Inl e
      | Inr res' \<Rightarrow>
          compose_loop clk (case opt of processInOption _ \<Rightarrow> Suc i | _ \<Rightarrow> i) opts res')"

definition default_options :: "string \<Rightarrow> int \<Rightarrow> option_rec" where
  "default_options uuid now =
     \<lparr>o_retry = defaultMaxRetry, o_queue = DefaultQueueName, o_taskID = uuid, o_timeout = 0,
      o_deadline = zero_time, o_uniqueTTL = 0, o_processAt = now, o_retention = 0\<rparr>"

definition composeOptions :: "string \<Rightarrow> (nat \<Rightarrow> int) \<Rightarrow> Option list \<Rightarrow> gerror + nat \<times> option_rec" where
  "composeOptions uuid clk opts = compose_loop clk 1 opts (default_options uuid (clk 0))"

subsection \<open>Tasks\<close>

text \<open>A \<open>ResultWriter\<close> without the references it holds: to the broker and to the context of its task.\<close>

record ResultWriter =
  rw_id :: string
  rw_qname :: string

record Task =
  typename :: string
  payload :: "string option"
  opts :: "Option list"
  t_w :: "ResultWriter option"

definition NewTask :: "string \<Rightarrow> string option \<Rightarrow> Option list \<Rightarrow> Task" where
  "NewTask ty pl os = \<lparr>typename = ty, payload = pl, opts = os, t_w = None\<rparr>"

definition newTask :: "string \<Rightarrow> string option \<Rightarrow> ResultWriter \<Rightarrow> Task" where
  "newTask ty pl rw = \<lparr>typename = ty, payload = pl, opts = [], t_w = Some rw\<rparr>"

text \<open>The public \<open>TaskState\<close>, an \<open>int\<close>; \<open>String\<close> panics on any other value.\<close>

type_synonym PublicTaskState = int

fun public_state :: "TaskState \<Rightarrow> PublicTaskState" where
  "public_state TaskStateActive = 1"
| "public_state TaskStatePending = 2"
| "public_state TaskStateScheduled = 3"
| "public_state TaskStateRetry = 4"
| "public_state TaskStateArchived = 5"
| "public_state TaskStateCompleted = 6"

definition PublicTaskState_String :: "PublicTaskState \<Rightarrow> string option" where
  "PublicTaskState_String s =
     (if s = 1 then Some ''active'' else if s = 2 then Some ''pending'' else if s = 3 then Some ''scheduled''
      else if s = 4 then Some ''retry'' else if s = 5 then Some ''archived'' else if s = 6 then Some ''completed''
      else None)"

lemma public_state_String: "PublicTaskState_String (public_state s) = Some (TaskState_String s)"
  by (cases s) (simp_all add: PublicTaskState_String_def)

record TaskInfo =
  ti_ID :: string
  ti_Queue :: string
  ti_Type :: string
  ti_Payload :: "string option"
  ti_State :: PublicTaskState
  ti_MaxRetry :: int
  ti_Retried :: int
  ti_LastErr :: string
  ti_LastFailedAt :: int
  ti_Timeout :: int
  ti_Deadline :: int
  ti_NextProcessAt :: int
  ti_IsOrphaned :: bool
  ti_Retention :: int
  ti_CompletedAt :: int
  ti_Result :: "string option"

definition fromUnixTimeOrZero :: "int \<Rightarrow> int" where
  "fromUnixTimeOrZero t = (if t = 0 then zero_time else t * second_ns)"

definition newTaskInfo :: "TaskMessage \<Rightarrow> TaskState \<Rightarrow> int \<Rightarrow> string option \<Rightarrow> TaskInfo" where
  "newTaskInfo msg state nextProcessAt result =
     \<lparr>ti_ID = ID msg, ti_Queue = Queue msg, ti_Type = Type msg, ti_Payload = Payload msg,
      ti_State = public_state state, ti_MaxRetry = Retry msg, ti_Retried = Retried msg, ti_LastErr = ErrorMsg msg,
      ti_LastFailedAt = fromUnixTimeOrZero (LastFailedAt msg),
      ti_Timeout = wrap64 (Timeout msg * second_ns),
      ti_Deadline = fromUnixTimeOrZero (Deadline msg),
      ti_NextProcessAt = nextProcessAt,
      ti_IsOrphaned = False,
      ti_Retention = wrap64 (Retention msg * second_ns),
      ti_CompletedAt = fromUnixTimeOrZero (CompletedAt msg),
      ti_Result = result\<rparr>"

subsection \<open>Enqueueing\<close>

text \<open>The effective timeout and deadline of the merged options.\<close>

definition effective_deadline :: "option_rec \<Rightarrow> int" where
  "effective_deadline opt = (if o_deadline opt = zero_time then noDeadline else o_deadline opt)"

definition effective_timeout :: "option_rec \<Rightarrow> int" where
  "effective_timeout opt =
     (let timeout = (if o_timeout opt \<noteq> 0 then o_timeout opt else noTimeout)
      in if effective_deadline opt = noDeadline \<and> timeout = noTimeout then defaultTimeout else timeout)"

definition client_message :: "(string \<Rightarrow> string) \<Rightarrow> Task \<Rightarrow> option_rec \<Rightarrow> TaskMessage" where
  "client_message md5hex task opt =
     \<lparr>Type = typename task, Payload = payload task, ID = o_taskID opt, Queue = o_queue opt,
      Retry = o_retry opt, Retried = 0, ErrorMsg = [], LastFailedAt = 0,
      Timeout = whole_seconds (effective_timeout opt),
      Deadline = unix (effective_deadline opt),
      msg_UniqueKey = (if o_uniqueTTL opt > 0 then UniqueKey md5hex (o_queue opt) (typename task) (payload task)
                       else []),
      Retention = whole_seconds (o_retention opt), CompletedAt = 0\<rparr>"

record 's Client =
  broker :: "'s rdb"
  sharedConnection :: bool

definition NewClientFromRedisClient :: "'s \<Rightarrow> 's Client" where
  "NewClientFromRedisClient c = \<lparr>broker = NewRDB c, sharedConnection = True\<rparr>"

definition NewClient :: "'s \<Rightarrow> 's Client" where
  "NewClient c = (NewClientFromRedisClient c)\<lparr>sharedConnection := False\<rparr>"

definition Client_Close :: "('s rdb \<Rightarrow> gerror option \<times> 's rdb) \<Rightarrow> 's Client \<Rightarrow> gerror option \<times> 's Client" where
  "Client_Close close c =
     (if sharedConnection c
      then (Some (Plain ''redis connection is shared so the Client can't be closed through titanqueue''), c)
      else (case close (broker c) of (e, b) \<Rightarrow> (e, c\<lparr>broker := b\<rparr>)))"

definition Client_Ping :: "'s client \<Rightarrow> 's Client \<Rightarrow> gerror option \<times> 's Client" where
  "Client_Ping send c = (case Ping send (broker c) of (e, b) \<Rightarrow> (e, c\<lparr>broker := b\<rparr>))"

definition Client_enqueue ::
  "'s client \<Rightarrow> bool \<Rightarrow> int \<Rightarrow> TaskMessage \<Rightarrow> int \<Rightarrow> 's rdb \<Rightarrow> gerror option \<times> 's rdb" where
  "Client_enqueue send ctx now msg uniqueTTL b =
     (if uniqueTTL > 0 then Rdb.EnqueueUnique send ctx now msg uniqueTTL b
      else Rdb.Enqueue send ctx now msg b)"

text \<open>\<open>time.Until(t.Add(uniqueTTL))\<close>, read at \<open>now\<close>.\<close>

definition Client_schedule ::
  "'s client \<Rightarrow> bool \<Rightarrow> int \<Rightarrow> TaskMessage \<Rightarrow> int \<Rightarrow> int \<Rightarrow> 's rdb \<Rightarrow> gerror option \<times> 's rdb" where
  "Client_schedule send ctx now msg t uniqueTTL b =
     (if uniqueTTL > 0 then Rdb.ScheduleUnique send ctx msg t (t + uniqueTTL - now) b
      else Rdb.Schedule send ctx msg t b)"

definition client_error :: "gerror \<Rightarrow> gerror" where
  "client_error e =
     (if Is e ErrDuplicateTask then Wrapf [] (Sentinel Client_ErrDuplicateTask)
      else if Is e ErrTaskIdConflict then Wrapf [] (Sentinel Client_ErrTaskIDConflict)
      else e)"

definition EnqueueContext ::
  "(string \<Rightarrow> string) \<Rightarrow> 's client \<Rightarrow> bool \<Rightarrow> string \<Rightarrow> (nat \<Rightarrow> int) \<Rightarrow> Task option \<Rightarrow> Option list \<Rightarrow>
   's rdb \<Rightarrow> (gerror + TaskInfo) \<times> 's rdb" where
  "EnqueueContext md5hex send ctx uuid clk task os b =
     (case task of
        None \<Rightarrow> (Inl (Plain ''task cannot be nil''), b)
      | Some t \<Rightarrow>
          if TrimSpace (typename t) = [] then (Inl (Plain ''task typename cannot be empty''), b)
          else
            (case composeOptions uuid clk (opts t @ os) of
               Inl e \<Rightarrow> (Inl e, b)
             | Inr (i, opt) \<Rightarrow>
                 (let msg = client_message md5hex t opt;
                      now = clk i;
                      later = o_processAt opt > now;
                      state = (if later then TaskStateScheduled else TaskStatePending);
                      processAt = (if later then o_processAt opt else now)
                  in case (if later
                           then Client_schedule send ctx (clk (Suc i)) msg (o_processAt opt) (o_uniqueTTL opt) b
                           else Client_enqueue send ctx (clk (Suc i)) msg (o_uniqueTTL opt) b) of
                       (Some e, b') \<Rightarrow> (Inl (client_error e), b')
                     | (None, b') \<Rightarrow> (Inr (newTaskInfo msg state processAt None), b'))))"

definition Client_Enqueue where
  "Client_Enqueue md5hex send uuid clk task os b = EnqueueContext md5hex send False uuid clk task os b"

subsection \<open>Writing results\<close>

text \<open>\<open>ctx_err\<close> is the error of the task's context when it is done.\<close>

definition ResultWriter_Write ::
  "'s client \<Rightarrow> gerror option \<Rightarrow> ResultWriter \<Rightarrow> string \<Rightarrow> 's rdb \<Rightarrow> (gerror + nat) \<times> 's rdb" where
  "ResultWriter_Write send ctx_err rw data b =
     (case ctx_err of
        Some e \<Rightarrow> (Inl (Wrapf ''failed to write task result: '' e), b)
      | None \<Rightarrow> Rdb.WriteResult send (rw_qname rw) (rw_id rw) data b)"

definition ResultWriter_TaskID :: "ResultWriter \<Rightarrow> string" where
  "ResultWriter_TaskID rw = rw_id rw"

subsection \<open>Facts about options\<close>

text \<open>What the merged options satisfy, whatever the caller passed.\<close>

definition options_ok :: "option_rec \<Rightarrow> bool" where
  "options_ok opt \<longleftrightarrow>
     ValidateQueueName (o_queue opt) = None \<and> \<not> isBlank (o_taskID opt)
     \<and> (o_uniqueTTL opt = 0 \<or> second_ns \<le> o_uniqueTTL opt)"

lemma apply_option_ok:
  "options_ok res \<Longrightarrow> apply_option now opt res = Inr res' \<Longrightarrow> options_ok res'"
  by (cases opt) (auto simp: options_ok_def split: if_splits option.splits)

lemma compose_loop_ok:
  "options_ok res \<Longrightarrow> compose_loop clk i os res = Inr (j, res') \<Longrightarrow> options_ok res'"
  by (induction clk i os res rule: compose_loop.induct) (auto split: sum.splits dest: apply_option_ok)

lemma DefaultQueueName_valid: "ValidateQueueName DefaultQueueName = None"
  by code_simp

lemma default_options_ok: "\<not> isBlank uuid \<Longrightarrow> options_ok (default_options uuid now)"
  using DefaultQueueName_valid by (simp add: options_ok_def default_options_def)

text \<open>The last option of a kind decides.\<close>

fun last_timeout :: "int \<Rightarrow> Option list \<Rightarrow> int" where
  "last_timeout d [] = d"
| "last_timeout d (timeoutOption t # os) = last_timeout t os"
| "last_timeout d (_ # os) = last_timeout d os"

fun last_retry :: "int \<Rightarrow> Option list \<Rightarrow> int" where
  "last_retry d [] = d"
| "last_retry d (retryOption t # os) = last_retry t os"
| "last_retry d (_ # os) = last_retry d os"

fun last_queue :: "string \<Rightarrow> Option list \<Rightarrow> string" where
  "last_queue d [] = d"
| "last_queue d (queueOption t # os) = last_queue t os"
| "last_queue d (_ # os) = last_queue d os"

fun last_retention :: "int \<Rightarrow> Option list \<Rightarrow> int" where
  "last_retention d [] = d"
| "last_retention d (retentionOption t # os) = last_retention t os"
| "last_retention d (_ # os) = last_retention d os"

lemma compose_loop_last:
  "compose_loop clk i os res = Inr (j, res') \<Longrightarrow>
   o_timeout res' = last_timeout (o_timeout res) os \<and> o_retry res' = last_retry (o_retry res) os
   \<and> o_queue res' = last_queue (o_queue res) os \<and> o_retention res' = last_retention (o_retention res) os"
proof (induction clk i os res rule: compose_loop.induct)
  case (2 clk i opt os res)
  then show ?case by (cases opt) (auto split: sum.splits if_splits option.splits)
qed simp

text \<open>
  A message carries a limit: its timeout or its deadline is not zero, unless the timeout
  asked for is shorter than a second or the deadline falls in the second of the epoch.
\<close>

lemma whole_seconds_0: "whole_seconds d = 0 \<longleftrightarrow> \<bar>d\<bar> < second_ns"
  by (auto simp: whole_seconds_def second_ns_def sgn_if div_eq_0_iff zdiv_eq_0_iff)

lemma client_message_limit:
  assumes "o_timeout opt = 0 \<or> second_ns \<le> \<bar>o_timeout opt\<bar>"
    and "o_deadline opt = zero_time \<or> second_ns \<le> \<bar>o_deadline opt\<bar> \<or> o_deadline opt = 0"
  shows "Timeout (client_message md5hex t opt) \<noteq> 0 \<or> Deadline (client_message md5hex t opt) \<noteq> 0"
proof -
  have u: "unix d = 0 \<longleftrightarrow> 0 \<le> d \<and> d < second_ns" for d
    by (auto simp: unix_def second_ns_def zdiv_eq_0_iff)
  show ?thesis
    using assms
    by (auto simp: client_message_def whole_seconds_0 u effective_timeout_def effective_deadline_def
        Let_def noTimeout_def noDeadline_def defaultTimeout_def second_ns_def)
qed

subsection \<open>What enqueueing leaves in Redis\<close>

lemma AllQueues_not_kname [simp]: "AllQueues \<noteq> kname q k" "kname q k \<noteq> AllQueues"
  by (simp_all add: AllQueues_def kname_def QueueKeyPrefix_def)

text \<open>
  The four adding methods publish the queue, run their script and translate its answer. What
  they leave behind, in terms of what their script does to the queue.
\<close>

definition added :: "string \<Rightarrow> keyspace \<Rightarrow> gerror option \<Rightarrow> queue_state \<Rightarrow> queue_state \<Rightarrow> bool" where
  "added q db res st st1 \<longleftrightarrow> (res = None \<longrightarrow> qrep q db st1) \<and> (qrep q db st \<or> qrep q db st1)"

definition refused :: "string \<Rightarrow> keyspace \<Rightarrow> gerror option \<Rightarrow> queue_state \<Rightarrow> bool" where
  "refused q db res st \<longleftrightarrow> res \<noteq> None \<and> qrep q db st"

context redis_client
begin

lemma qrep_publish:
  assumes "publishQueue send ctx op q' r = (e, r1)" and "qrep q (db_of (conn r)) st"
  shows "qrep q (db_of (conn r1)) st"
proof (cases "q' \<in> set (queuesPublished r)")
  case True
  then show ?thesis using assms by (simp add: publishQueue_def)
next
  case False
  let ?p = "single (SADD AllQueues q')"
  obtain res r0 where i: "issue send ctx ?p r = (res, r0)" by fastforce
  then have "conn r1 = conn r0"
    using assms(1) False by (auto simp: publishQueue_def split: sum.splits)
  moreover obtain n where n: "db_of (conn r0) = (apply_prog ?p ^^ n) (db_of (conn r))"
    using issue_any [OF i] by blast
  moreover have "qrep q ((apply_prog ?p ^^ n) (db_of (conn r))) st"
  proof (induction n)
    case (Suc n)
    have "lookup (apply_prog ?p db) (kname q k) = lookup db (kname q k)" for db k
      unfolding apply_prog_def by (rule run_frame [where W = "{AllQueues}"]) simp_all
    then show ?case using qrep_cong [OF Suc] by simp
  qed (simp add: assms(2))
  ultimately show ?thesis by simp
qed

text \<open>
  The shape of the four adding methods: publish the queue, then run a script that adds the
  task at most once.
\<close>

lemma add_call:
  assumes pub: "publishQueue send ctx op q r = (None, r1)"
    and run: "runScriptWithErrorCode send ctx op (qop_prog um q qop) r1 = (res, r2)"
    and first: "does q (qop_prog um q qop) st (RInt a) st1"
    and again: "does q (qop_prog um q qop) st1 (RInt b) st1"
    and rep: "qrep q (db_of (conn r)) st"
  shows "qrep q (db_of (conn r2)) st1 \<and> (res = Inr a \<or> res = Inr b)
    \<or> (\<exists>e. res = Inl (EOpCode op Unknown (eval_error e)))
      \<and> (qrep q (db_of (conn r2)) st \<or> qrep q (db_of (conn r2)) st1)"
  by (rule runScriptWithErrorCode_once [OF first again qrep_publish [OF pub rep] run])

lemma q_tasks_added [simp]:
  "q_tasks (s_enqueue m tid now ex st) tid \<noteq> []" "q_tasks (s_schedule m tid at ex st) tid \<noteq> []"
  by (simp_all add: s_enqueue_def s_schedule_def)

lemma plain_add_outcome:
  assumes meth: "(case publishQueue send ctx op q r of
        (Some e, r1) \<Rightarrow> (Some e, r1)
      | (None, r1) \<Rightarrow> (case runScriptWithErrorCode send ctx op (qop_prog um q qop) r1 of
                        (res, r2) \<Rightarrow> (add_result op res, r2))) = (res, r')"
    and rep: "qrep q (db_of (conn r)) st"
    and free: "q_tasks st i = [] \<Longrightarrow>
      does q (qop_prog um q qop) st (RInt 1) st1 \<and> does q (qop_prog um q qop) st1 (RInt 0) st1"
    and conflict: "q_tasks st i \<noteq> [] \<Longrightarrow> does q (qop_prog um q qop) st (RInt 0) st"
  shows "if q_tasks st i = [] then added q (db_of (conn r')) res st st1
    else refused q (db_of (conn r')) res st"
proof -
  obtain e1 r1 where p: "publishQueue send ctx op q r = (e1, r1)" by fastforce
  show ?thesis
  proof (cases e1)
    case (Some e)
    then have "res = Some e" "r' = r1" using meth p by auto
    then show ?thesis using qrep_publish [OF p rep] by (simp add: added_def refused_def)
  next
    case None
    obtain n r2 where s: "runScriptWithErrorCode send ctx op (qop_prog um q qop) r1 = (n, r2)"
      by fastforce
    then have r: "res = add_result op n" "r' = r2" using meth p None by auto
    note call = add_call [OF p [unfolded None] s _ _ rep]
    show ?thesis
    proof (cases "q_tasks st i = []")
      case True
      from call [OF conjunct1 [OF free [OF True]] conjunct2 [OF free [OF True]]] True r show ?thesis
        by (auto simp: add_result_def added_def)
    next
      case False
      from call [OF conflict [OF False] conflict [OF False]] False r show ?thesis
        by (auto simp: add_result_def refused_def)
    qed
  qed
qed

lemma unique_add_outcome:
  assumes meth: "(case publishQueue send ctx op q r of
        (Some e, r1) \<Rightarrow> (Some e, r1)
      | (None, r1) \<Rightarrow> (case runScriptWithErrorCode send ctx op (qop_prog um q qop) r1 of
                        (res, r2) \<Rightarrow> (add_unique_result op res, r2))) = (res, r')"
    and rep: "qrep q (db_of (conn r)) st"
    and held: "\<And>st'. q_locks st' u \<noteq> None \<Longrightarrow> does q (qop_prog um q qop) st' (RInt (- 1)) st'"
    and free: "q_locks st u = None \<Longrightarrow> q_tasks st i = [] \<Longrightarrow>
      does q (qop_prog um q qop) st (RInt 1) st1 \<and> q_locks st1 u \<noteq> None"
    and conflict: "q_locks st u = None \<Longrightarrow> q_tasks st i \<noteq> [] \<Longrightarrow>
      does q (qop_prog um q qop) st (RInt 0) (s_lock u i st)"
  shows "if q_locks st u \<noteq> None then refused q (db_of (conn r')) res st
    else if q_tasks st i = [] then added q (db_of (conn r')) res st st1
    else refused q (db_of (conn r')) res st \<or> refused q (db_of (conn r')) res (s_lock u i st)"
proof -
  obtain e1 r1 where p: "publishQueue send ctx op q r = (e1, r1)" by fastforce
  show ?thesis
  proof (cases e1)
    case (Some e)
    then have "res = Some e" "r' = r1" using meth p by auto
    then show ?thesis using qrep_publish [OF p rep] by (simp add: added_def refused_def)
  next
    case None
    obtain n r2 where s: "runScriptWithErrorCode send ctx op (qop_prog um q qop) r1 = (n, r2)"
      by fastforce
    then have r: "res = add_unique_result op n" "r' = r2" using meth p None by auto
    note call = add_call [OF p [unfolded None] s _ _ rep]
    consider (locked) "q_locks st u \<noteq> None" | (fresh) "q_locks st u = None" "q_tasks st i = []"
      | (taken) "q_locks st u = None" "q_tasks st i \<noteq> []" by blast
    then show ?thesis
    proof cases
      case locked
      from call [OF held [OF locked] held [OF locked]] locked r show ?thesis
        by (auto simp: add_unique_result_def refused_def)
    next
      case fresh
      note f = free [OF fresh]
      from call [OF conjunct1 [OF f] held [OF conjunct2 [OF f]]] fresh r show ?thesis
        by (auto simp: add_unique_result_def added_def)
    next
      case taken
      have "q_locks (s_lock u i st) u \<noteq> None" by (simp add: s_lock_def)
      from call [OF conflict [OF taken] held [OF this]] taken r show ?thesis
        by (auto simp: add_unique_result_def refused_def)
    qed
  qed
qed

lemma locks_added [simp]:
  "q_locks (s_enqueue m tid now ex (s_lock u i st)) u \<noteq> None"
  "q_locks (s_schedule m tid now ex (s_lock u i st)) u \<noteq> None"
  by (simp_all add: s_lock_def s_enqueue_def s_schedule_def put_fields_def)

lemma whole_seconds_pos: "second_ns \<le> ttl \<Longrightarrow> 0 < whole_seconds ttl"
  by (simp add: whole_seconds_def second_ns_def sgn_if pos_imp_zdiv_pos_iff)

text \<open>A lock with less than a second to live is refused by Redis.\<close>

lemma whole_seconds_nonpos: "ttl < second_ns \<Longrightarrow> whole_seconds ttl \<le> 0"
  by (auto simp: whole_seconds_def second_ns_def sgn_if)

lemma ScheduleUnique_needs_second:
  assumes "Rdb.ScheduleUnique send ctx msg processAt ttl r = (None, r')"
  shows "second_ns \<le> ttl"
proof (rule ccontr)
  let ?p = "scheduleUniqueCmd (msg_UniqueKey msg) (TaskKey (Queue msg) (ID msg)) (ScheduledKey (Queue msg))
    (ID msg) (whole_seconds ttl) (unix processAt) (encode msg)"
  assume "\<not> second_ns \<le> ttl"
  then have "whole_seconds ttl \<le> 0" by (intro whole_seconds_nonpos) simp
  then have refused: "is_err (fst (run ?p db))" for db
    by (simp add: scheduleUniqueCmd_def run_call bad_expire_def)
  obtain e1 r1 where p: "publishQueue send ctx ''rdb.ScheduleUnique'' (Queue msg) r = (e1, r1)" by fastforce
  obtain res0 r2 where i: "issue send ctx ?p r1 = (res0, r2)" by fastforce
  have "\<exists>e. res0 = Inl e"
  proof (cases res0)
    case (Inr v)
    then show ?thesis using issue_ok [OF i [unfolded Inr]] refused by blast
  qed simp
  then show False
    using assms p i by (cases e1) (auto simp: ScheduleUnique_def Let_def runScriptWithErrorCode_def add_unique_result_def)
qed

lemma Enqueue_outcome:
  assumes run: "Rdb.Enqueue send ctx now msg r = (res, r')"
    and rep: "qrep (Queue msg) (db_of (conn r)) st"
  shows "if q_tasks st (ID msg) = []
    then added (Queue msg) (db_of (conn r')) res st (s_enqueue (encode msg) (ID msg) now [] st)
    else refused (Queue msg) (db_of (conn r')) res st"
proof (rule plain_add_outcome [where um = undefined and qop = "Op_enqueue (ID msg) (encode msg) now"])
  show "(case publishQueue send ctx ''rdb.Enqueue'' (Queue msg) r of
        (Some e, r1) \<Rightarrow> (Some e, r1)
      | (None, r1) \<Rightarrow> (case runScriptWithErrorCode send ctx ''rdb.Enqueue''
            (qop_prog undefined (Queue msg) (Op_enqueue (ID msg) (encode msg) now)) r1 of
          (res, r2) \<Rightarrow> (add_result ''rdb.Enqueue'' res, r2))) = (res, r')"
    unfolding qop_prog.simps using run by (simp add: Enqueue_def Let_def)
qed (use rep does_enqueue in simp_all)

lemma Schedule_outcome:
  assumes run: "Rdb.Schedule send ctx msg processAt r = (res, r')"
    and rep: "qrep (Queue msg) (db_of (conn r)) st"
  shows "if q_tasks st (ID msg) = []
    then added (Queue msg) (db_of (conn r')) res st
      (s_schedule (encode msg) (ID msg) (unix processAt) [] st)
    else refused (Queue msg) (db_of (conn r')) res st"
proof (rule plain_add_outcome [where um = undefined and qop = "Op_schedule (ID msg) (encode msg) (unix processAt)"])
  show "(case publishQueue send ctx ''rdb.Schedule'' (Queue msg) r of
        (Some e, r1) \<Rightarrow> (Some e, r1)
      | (None, r1) \<Rightarrow> (case runScriptWithErrorCode send ctx ''rdb.Schedule''
            (qop_prog undefined (Queue msg) (Op_schedule (ID msg) (encode msg) (unix processAt))) r1 of
          (res, r2) \<Rightarrow> (add_result ''rdb.Schedule'' res, r2))) = (res, r')"
    unfolding qop_prog.simps using run by (simp add: Schedule_def Let_def)
qed (use rep does_schedule in simp_all)

lemma EnqueueUnique_outcome:
  assumes run: "Rdb.EnqueueUnique send ctx now msg ttl r = (res, r')"
    and rep: "qrep (Queue msg) (db_of (conn r)) st"
    and u: "msg_UniqueKey msg = kname (Queue msg) (KUnique u)" and ttl: "second_ns \<le> ttl"
  shows "if q_locks st u \<noteq> None then refused (Queue msg) (db_of (conn r')) res st
    else if q_tasks st (ID msg) = []
    then added (Queue msg) (db_of (conn r')) res st
      (s_enqueue (encode msg) (ID msg) now [(''unique_key'', msg_UniqueKey msg)] (s_lock u (ID msg) st))
    else refused (Queue msg) (db_of (conn r')) res st
      \<or> refused (Queue msg) (db_of (conn r')) res (s_lock u (ID msg) st)"
proof (rule unique_add_outcome [where um = undefined
      and qop = "Op_enqueue_unique u (ID msg) (whole_seconds ttl) (encode msg) now"])
  show "(case publishQueue send ctx ''rdb.EnqueueUnique'' (Queue msg) r of
        (Some e, r1) \<Rightarrow> (Some e, r1)
      | (None, r1) \<Rightarrow> (case runScriptWithErrorCode send ctx ''rdb.EnqueueUnique''
            (qop_prog undefined (Queue msg)
               (Op_enqueue_unique u (ID msg) (whole_seconds ttl) (encode msg) now)) r1 of
          (res, r2) \<Rightarrow> (add_unique_result ''rdb.EnqueueUnique'' res, r2))) = (res, r')"
    unfolding qop_prog.simps u [symmetric] using run by (simp add: EnqueueUnique_def Let_def)
qed (use rep u does_enqueue_unique [OF whole_seconds_pos [OF ttl]] in simp_all)

lemma ScheduleUnique_outcome:
  assumes run: "Rdb.ScheduleUnique send ctx msg processAt ttl r = (res, r')"
    and rep: "qrep (Queue msg) (db_of (conn r)) st"
    and u: "msg_UniqueKey msg = kname (Queue msg) (KUnique u)" and ttl: "second_ns \<le> ttl"
  shows "if q_locks st u \<noteq> None then refused (Queue msg) (db_of (conn r')) res st
    else if q_tasks st (ID msg) = []
    then added (Queue msg) (db_of (conn r')) res st
      (s_schedule (encode msg) (ID msg) (unix processAt) [(''unique_key'', msg_UniqueKey msg)]
         (s_lock u (ID msg) st))
    else refused (Queue msg) (db_of (conn r')) res st
      \<or> refused (Queue msg) (db_of (conn r')) res (s_lock u (ID msg) st)"
proof (rule unique_add_outcome [where um = undefined
      and qop = "Op_schedule_unique u (ID msg) (whole_seconds ttl) (unix processAt) (encode msg)"])
  show "(case publishQueue send ctx ''rdb.ScheduleUnique'' (Queue msg) r of
        (Some e, r1) \<Rightarrow> (Some e, r1)
      | (None, r1) \<Rightarrow> (case runScriptWithErrorCode send ctx ''rdb.ScheduleUnique''
            (qop_prog undefined (Queue msg)
               (Op_schedule_unique u (ID msg) (whole_seconds ttl) (unix processAt) (encode msg))) r1 of
          (res, r2) \<Rightarrow> (add_unique_result ''rdb.ScheduleUnique'' res, r2))) = (res, r')"
    unfolding qop_prog.simps u [symmetric] using run by (simp add: ScheduleUnique_def Let_def)
qed (use rep u does_schedule_unique [OF whole_seconds_pos [OF ttl]] in simp_all)

end

end
