(* ===== verification/Processor.thy ===== *)
theory Processor
  imports Client "HOL-Library.Multiset"
begin

text \<open>
  \<open>processor.go\<close>: the choice of the queues to poll, the deadline of a task, what happens to
  a task when its handler has returned (or its lease, its deadline or the server ended), the
  requests handed to the syncer, and the concurrency limit.

  A map from queue names to priorities is an association list; the order of the list is the
  order in which Go happens to iterate over the map. Contexts live in a table (\<open>p_ctx\<close>): a
  request kept for later refers to its context by index, so that canceling the context when
  the method returns is seen by the request.
\<close>

subsection \<open>Queue selection\<close>

definition go_rem :: "int \<Rightarrow> int \<Rightarrow> int" where
  "go_rem x y = sgn x * (\<bar>x\<bar> mod \<bar>y\<bar>)"

definition go_quot :: "int \<Rightarrow> int \<Rightarrow> int" where
  "go_quot x y = sgn x * sgn y * (\<bar>x\<bar> div \<bar>y\<bar>)"

function gcd_fn :: "int \<Rightarrow> int \<Rightarrow> int" where
  "gcd_fn x y = (if y > 0 then gcd_fn y (go_rem x y) else x)"
  by pat_completeness auto
termination
proof (relation "measure (\<lambda>(x, y). nat y)")
  fix x y :: int
  assume "0 < y"
  define m where "m = \<bar>x\<bar> mod \<bar>y\<bar>"
  have "0 \<le> m" "m < y" using \<open>0 < y\<close> by (simp_all add: m_def)
  moreover have "go_rem x y = sgn x * m" by (simp add: go_rem_def m_def)
  ultimately have "go_rem x y < y" by (cases "x = 0"; cases "0 < x") auto
  with \<open>0 < y\<close> show "((y, go_rem x y), x, y) \<in> measure (\<lambda>(x, y). nat y)" by auto
qed simp

declare gcd_fn.simps [simp del]

fun gcd_loop :: "int list \<Rightarrow> int \<Rightarrow> int" where
  "gcd_loop [] res = res"
| "gcd_loop (x # xs) res = (let r = gcd_fn x res in if r = 1 then 1 else gcd_loop xs r)"

text \<open>\<open>xs[0]\<close> of an empty slice panics: \<open>None\<close>.\<close>

definition gcd_list :: "int list \<Rightarrow> int option" where
  "gcd_list xs = (case xs of [] \<Rightarrow> None | x # _ \<Rightarrow> Some (gcd_loop xs x))"

definition normalizeQueues :: "(string \<times> int) list \<Rightarrow> (string \<times> int) list option" where
  "normalizeQueues queues =
     (case gcd_list (map snd queues) of
        None \<Rightarrow> None
      | Some d \<Rightarrow> if d = 0 then None else Some (map (\<lambda>(q, x). (q, go_quot x d)) queues))"

text \<open>
  \<open>sort.Sort(sort.Reverse(byPriority(queues)))\<close>: descending priorities. The order of equal
  priorities is left open by \<open>sort.Sort\<close>; here it is the order of the map iteration.
\<close>

definition sortByPriority :: "(string \<times> int) list \<Rightarrow> string list" where
  "sortByPriority qcfg = map fst (sort_key (\<lambda>p. - snd p) qcfg)"

fun uniq_loop :: "nat \<Rightarrow> string list \<Rightarrow> string list \<Rightarrow> string list" where
  "uniq_loop l [] res = res"
| "uniq_loop l (s # names) res =
     (let res' = (if s \<in> set res then res else res @ [s])
      in if length res' = l then res' else uniq_loop l names res')"

definition uniq :: "string list \<Rightarrow> nat \<Rightarrow> string list" where
  "uniq names l = uniq_loop l names []"

text \<open>\<open>shuffle\<close> is \<open>rand.Shuffle\<close>: some permutation of its argument.\<close>

definition queues ::
  "(string list \<Rightarrow> string list) \<Rightarrow> (string \<times> int) list \<Rightarrow> string list option \<Rightarrow> string list" where
  "queues shuffle queueConfig orderedQueues =
     (if length queueConfig = 1 then map fst queueConfig
      else case orderedQueues of
             Some qs \<Rightarrow> qs
           | None \<Rightarrow>
               uniq (shuffle (concat (map (\<lambda>(q, priority). replicate (nat priority) q) queueConfig)))
                 (length queueConfig))"

subsection \<open>The deadline of a task\<close>

definition computeDeadline :: "int \<Rightarrow> TaskMessage \<Rightarrow> int" where
  "computeDeadline now msg =
     (if Timeout msg = 0 \<and> Deadline msg = 0 then now + defaultTimeout
      else if Timeout msg \<noteq> 0 \<and> Deadline msg \<noteq> 0
      then min (to_double (wrap64 (unix now + Timeout msg))) (to_double (Deadline msg)) * second_ns
      else if Timeout msg \<noteq> 0 then now + wrap64 (Timeout msg * second_ns)
      else Deadline msg * second_ns)"

subsection \<open>Contexts and requests to the syncer\<close>

datatype sync_fn =
    Sync_MarkAsComplete TaskMessage
  | Sync_Done TaskMessage
  | Sync_Retry TaskMessage int string bool
  | Sync_Archive TaskMessage string

record syncRequest =
  sr_fn :: sync_fn
  sr_ctx :: nat
  sr_errMsg :: string
  sr_deadline :: int

record 's proc_env =
  p_broker :: "'s rdb"
  p_ctx :: "(int \<times> bool) list" \<comment> \<open>deadline and whether canceled\<close>
  p_sync :: "syncRequest list" \<comment> \<open>what was sent on \<open>syncRequestCh\<close>\<close>

text \<open>\<open>context.WithDeadline(context.Background(), d)\<close>\<close>

definition new_ctx :: "int \<Rightarrow> 's proc_env \<Rightarrow> nat \<times> 's proc_env" where
  "new_ctx d env = (length (p_ctx env), env\<lparr>p_ctx := p_ctx env @ [(d, False)]\<rparr>)"

definition cancel_ctx :: "nat \<Rightarrow> 's proc_env \<Rightarrow> 's proc_env" where
  "cancel_ctx c env = env\<lparr>p_ctx := (p_ctx env)[c := (fst (p_ctx env ! c), True)]\<rparr>"

definition ctx_done :: "int \<Rightarrow> nat \<Rightarrow> 's proc_env \<Rightarrow> bool" where
  "ctx_done now c env =
     (if c < length (p_ctx env) then (case p_ctx env ! c of (d, canceled) \<Rightarrow> canceled \<or> d \<le> now) else False)"

definition run_sync_fn ::
  "nat \<Rightarrow> 's client \<Rightarrow> int \<Rightarrow> nat \<Rightarrow> sync_fn \<Rightarrow> 's proc_env \<Rightarrow> gerror option \<times> 's proc_env" where
  "run_sync_fn um send now c fn env =
     (let ctx = ctx_done now c env; b = p_broker env in
      case (case fn of
              Sync_MarkAsComplete msg \<Rightarrow> (case MarkAsComplete send ctx now msg b of (e, _, b') \<Rightarrow> (e, b'))
            | Sync_Done msg \<Rightarrow> Done send ctx now msg b
            | Sync_Retry msg retryAt errMsg isFailure \<Rightarrow> RDB_Retry send ctx now msg retryAt errMsg isFailure b
            | Sync_Archive msg errMsg \<Rightarrow> Archive um send ctx now msg errMsg b) of
        (e, b') \<Rightarrow> (e, env\<lparr>p_broker := b'\<rparr>))"

text \<open>
  The common shape of \<open>markAsComplete\<close>, \<open>markAsDone\<close>, \<open>retry\<close> and \<open>archive\<close>: nothing when
  the lease is not valid (checked at \<open>t0\<close>); otherwise the call, at \<open>t1\<close>, under a context that
  ends with the lease; on an error a request with the same closure; and the deferred
  \<open>cancel()\<close>. \<open>t1\<close> is the clock of the broker; \<open>tr\<close> below is the reading \<open>retry\<close> makes before that.
\<close>

definition with_lease_ctx ::
  "nat \<Rightarrow> 's client \<Rightarrow> int \<Rightarrow> int \<Rightarrow> Lease \<Rightarrow> sync_fn \<Rightarrow> (gerror \<Rightarrow> string) \<Rightarrow> 's proc_env \<Rightarrow>
   's proc_env" where
  "with_lease_ctx um send t0 t1 l fn errMsg env =
     (if \<not> IsValid t0 l then env
      else
        (case new_ctx (Lease_Deadline l) env of
           (c, env1) \<Rightarrow>
             (case run_sync_fn um send t1 c fn env1 of
                (None, env2) \<Rightarrow> cancel_ctx c env2
              | (Some e, env2) \<Rightarrow>
                  cancel_ctx c (env2\<lparr>p_sync := p_sync env2 @
                    [\<lparr>sr_fn = fn, sr_ctx = c, sr_errMsg = errMsg e, sr_deadline = Lease_Deadline l\<rparr>]\<rparr>))))"

definition markAsComplete where
  "markAsComplete um send t0 t1 l msg env =
     with_lease_ctx um send t0 t1 l (Sync_MarkAsComplete msg)
       (\<lambda>err. ''Could not move task id='' @ ID msg @ '' type='' @ quoted (Type msg) @ '' from ''
          @ quoted (ActiveKey (Queue msg)) @ '' to '' @ quoted (CompletedKey (Queue msg)) @ '':  '' @ Error err) env"

definition markAsDone where
  "markAsDone um send t0 t1 l msg env =
     with_lease_ctx um send t0 t1 l (Sync_Done msg)
       (\<lambda>err. ''Could not remove task id='' @ ID msg @ '' type='' @ quoted (Type msg) @ '' from ''
          @ quoted (ActiveKey (Queue msg)) @ '' err: '' @ Error err) env"

definition processor_retry ::
  "nat \<Rightarrow> 's client \<Rightarrow> (int \<Rightarrow> gerror \<Rightarrow> Task \<Rightarrow> int) \<Rightarrow> int \<Rightarrow> int \<Rightarrow> int \<Rightarrow> Lease \<Rightarrow> TaskMessage \<Rightarrow> gerror \<Rightarrow> bool \<Rightarrow>
   's proc_env \<Rightarrow> 's proc_env" where
  "processor_retry um send retryDelayFunc t0 tr t1 l msg e isFailure env =
     (let d = retryDelayFunc (Retried msg) e (NewTask (Type msg) (Payload msg) []);
          retryAt = tr + d
      in with_lease_ctx um send t0 t1 l (Sync_Retry msg retryAt (Error e) isFailure)
           (\<lambda>_. ''Could not move task id='' @ ID msg @ '' from '' @ quoted (ActiveKey (Queue msg))
              @ '' to '' @ quoted (RetryKey (Queue msg))) env)"

definition processor_archive where
  "processor_archive um send t0 t1 l msg e env =
     with_lease_ctx um send t0 t1 l (Sync_Archive msg (Error e))
       (\<lambda>_. ''Could not move task id='' @ ID msg @ '' from '' @ quoted (ActiveKey (Queue msg))
          @ '' to '' @ quoted (ArchivedKey (Queue msg))) env"

definition processor_requeue ::
  "'s client \<Rightarrow> int \<Rightarrow> int \<Rightarrow> Lease \<Rightarrow> TaskMessage \<Rightarrow> 's proc_env \<Rightarrow> 's proc_env" where
  "processor_requeue send t0 t1 l msg env =
     (if \<not> IsValid t0 l then env
      else
        (case new_ctx (Lease_Deadline l) env of
           (c, env1) \<Rightarrow>
             (case Requeue send (ctx_done t1 c env1) msg (p_broker env1) of
                (_, b') \<Rightarrow> cancel_ctx c (env1\<lparr>p_broker := b'\<rparr>))))"

definition handleSucceededMessage where
  "handleSucceededMessage um send t0 t1 l msg env =
     (if Retention msg > 0 then markAsComplete um send t0 t1 l msg env
      else markAsDone um send t0 t1 l msg env)"

text \<open>The user's error handler is called first; it cannot change the message or the queue.\<close>

definition handleFailedMessage where
  "handleFailedMessage um send retryDelayFunc isFailureFunc t0 tr t1 l msg err env =
     (if Retried msg \<ge> Retry msg \<or> Is err SkipRetry
      then processor_archive um send t0 t1 l msg err env
      else processor_retry um send retryDelayFunc t0 tr t1 l msg err (isFailureFunc err) env)"

subsection \<open>One worker\<close>

text \<open>
  \<open>perform\<close>: a panic of the handler (\<open>Inl\<close>, with its text) becomes a \<open>PanicError\<close>.
  \<open>caller\<close> is the file and line \<open>runtime.Caller\<close> reports, if any.
\<close>

definition perform ::
  "(Task \<Rightarrow> string + gerror option) \<Rightarrow> (string \<times> int) option \<Rightarrow> Task \<Rightarrow> gerror option" where
  "perform handler caller task =
     (case handler task of
        Inl x \<Rightarrow>
          Some (PanicError
            (case caller of
               Some (file, line) \<Rightarrow> ''panic ['' @ file @ '':'' @ show_int line @ '']: '' @ x
             | None \<Rightarrow> ''panic: '' @ x))
      | Inr e \<Rightarrow> e)"

text \<open>The task the worker makes of a message and what running it sends on \<open>resCh\<close>.\<close>

definition worker_task :: "TaskMessage \<Rightarrow> Task" where
  "worker_task msg = newTask (Type msg) (Payload msg) \<lparr>rw_id = ID msg, rw_qname = Queue msg\<rparr>"

definition run_handler ::
  "(Task \<Rightarrow> string + gerror option) \<Rightarrow> (string \<times> int) option \<Rightarrow> TaskMessage \<Rightarrow> gerror option" where
  "run_handler handler caller msg = perform handler caller (worker_task msg)"

text \<open>Which of the events the worker selects on comes first.\<close>

datatype worker_event =
    Already_done gerror           \<comment> \<open>the context is done before the handler starts\<close>
  | Aborted
  | Lease_expired
  | Context_ended gerror
  | Handler_returned "gerror option"

definition settle_task where
  "settle_task um send retryDelayFunc isFailureFunc t0 tr t1 l msg ev env =
     (case ev of
        Already_done e \<Rightarrow> handleFailedMessage um send retryDelayFunc isFailureFunc t0 tr t1 l msg e env
      | Aborted \<Rightarrow> processor_requeue send t0 t1 l msg env
      | Lease_expired \<Rightarrow>
          handleFailedMessage um send retryDelayFunc isFailureFunc t0 tr t1 l msg (Sentinel ErrLeaseExpired) env
      | Context_ended e \<Rightarrow> handleFailedMessage um send retryDelayFunc isFailureFunc t0 tr t1 l msg e env
      | Handler_returned (Some e) \<Rightarrow>
          handleFailedMessage um send retryDelayFunc isFailureFunc t0 tr t1 l msg e env
      | Handler_returned None \<Rightarrow> handleSucceededMessage um send t0 t1 l msg env)"

subsection \<open>The dispatcher and its workers\<close>

text \<open>
  The goroutine of \<open>start\<close>, running \<open>exec\<close>, and the worker goroutines, sharing the semaphore
  \<open>sema\<close> of capacity \<open>cap\<close>. \<open>d_tokens\<close> counts the tokens in it, \<open>d_shutdown\<close> those
  \<open>shutdown\<close> has taken.
\<close>

datatype dispatcher = Idle | Holding | Stopped

record dispatch =
  d_mode :: dispatcher
  d_tokens :: nat
  d_running :: "string list"
  d_quit :: bool
  d_shutdown :: nat

definition dispatch_init :: dispatch where
  "dispatch_init = \<lparr>d_mode = Idle, d_tokens = 0, d_running = [], d_quit = False, d_shutdown = 0\<rparr>"

inductive dispatch_step :: "nat \<Rightarrow> dispatch \<Rightarrow> dispatch \<Rightarrow> bool" for cap :: nat where
  acquire: "d_mode s = Idle \<Longrightarrow> d_tokens s < cap \<Longrightarrow>
    dispatch_step cap s (s\<lparr>d_mode := Holding, d_tokens := Suc (d_tokens s)\<rparr>)"
| nothing: "d_mode s = Holding \<Longrightarrow> \<comment> \<open>no task, or an error of \<open>Dequeue\<close>\<close>
    dispatch_step cap s (s\<lparr>d_mode := Idle, d_tokens := d_tokens s - 1\<rparr>)"
| spawn: "d_mode s = Holding \<Longrightarrow>
    dispatch_step cap s (s\<lparr>d_mode := Idle, d_running := tid # d_running s\<rparr>)"
| finish: "tid \<in> set (d_running s) \<Longrightarrow>
    dispatch_step cap s (s\<lparr>d_running := remove1 tid (d_running s), d_tokens := d_tokens s - 1\<rparr>)"
| quit: "dispatch_step cap s (s\<lparr>d_quit := True\<rparr>)"
| stop: "d_mode s = Idle \<Longrightarrow> d_quit s \<Longrightarrow> dispatch_step cap s (s\<lparr>d_mode := Stopped\<rparr>)"
| take_token: "d_mode s = Stopped \<Longrightarrow> d_tokens s < cap \<Longrightarrow>
    dispatch_step cap s (s\<lparr>d_tokens := Suc (d_tokens s), d_shutdown := Suc (d_shutdown s)\<rparr>)"

inductive dispatch_reach :: "nat \<Rightarrow> dispatch \<Rightarrow> bool" for cap :: nat where
  init: "dispatch_reach cap dispatch_init"
| step: "dispatch_reach cap s \<Longrightarrow> dispatch_step cap s s' \<Longrightarrow> dispatch_reach cap s'"

definition dispatch_inv :: "nat \<Rightarrow> dispatch \<Rightarrow> bool" where
  "dispatch_inv cap s \<longleftrightarrow>
     d_tokens s = length (d_running s) + (if d_mode s = Holding then 1 else 0) + d_shutdown s
     \<and> d_tokens s \<le> cap"

inductive_cases dispatch_stepE: "dispatch_step cap s s'"

lemma dispatch_step_inv: "dispatch_step cap s s' \<Longrightarrow> dispatch_inv cap s \<Longrightarrow> dispatch_inv cap s'"
proof (induction rule: dispatch_step.induct)
  case (finish tid s)
  then obtain n where "length (d_running s) = Suc n" by (cases "d_running s") auto
  with finish show ?case by (auto simp: dispatch_inv_def length_remove1)
qed (auto simp: dispatch_inv_def)

lemma dispatch_reach_inv: "dispatch_reach cap s \<Longrightarrow> dispatch_inv cap s"
proof (induction rule: dispatch_reach.induct)
  case init
  then show ?case by (simp add: dispatch_inv_def dispatch_init_def)
qed (blast intro: dispatch_step_inv)

subsection \<open>Facts about the queue order\<close>

lemma go_rem_pos: "0 \<le> x \<Longrightarrow> 0 < y \<Longrightarrow> go_rem x y = x mod y"
  by (cases "x = 0") (simp_all add: go_rem_def)

lemma gcd_fn_gcd: "0 \<le> x \<Longrightarrow> 0 \<le> y \<Longrightarrow> gcd_fn x y = gcd x y"
proof (induction x y rule: gcd_fn.induct)
  case (1 x y)
  show ?case
  proof (cases "0 < y")
    case True
    then have "gcd_fn x y = gcd y (x mod y)"
      using 1 by (subst gcd_fn.simps) (simp add: go_rem_pos)
    then show ?thesis by (simp add: gcd_red_int [symmetric])
  next
    case False
    then show ?thesis using 1 by (subst gcd_fn.simps) simp
  qed
qed

lemma gcd_loop_dvd:
  "\<forall>x \<in> set xs. 0 < x \<Longrightarrow> 0 < res \<Longrightarrow>
   0 < gcd_loop xs res \<and> gcd_loop xs res dvd res \<and> (\<forall>x \<in> set xs. gcd_loop xs res dvd x)
   \<and> (\<forall>d. d dvd res \<longrightarrow> (\<forall>x \<in> set xs. d dvd x) \<longrightarrow> d dvd gcd_loop xs res)"
proof (induction xs arbitrary: res)
  case (Cons x xs)
  have g: "gcd_fn x res = gcd x res" using Cons.prems by (simp add: gcd_fn_gcd)
  show ?case
  proof (cases "gcd x res = 1")
    case True
    then show ?thesis using g by (auto simp: Let_def) (metis coprime_common_divisor zdvd1_eq)
  next
    case False
    have "0 < gcd x res" using Cons.prems by simp
    with Cons.IH [OF _ this] Cons.prems g False show ?thesis
      by (auto simp: Let_def)
  qed
qed simp

lemma sort_facts:
  "mset (sortByPriority qcfg) = mset (map fst qcfg)"
  "sorted_wrt (\<lambda>a b. snd a \<ge> snd b) (sort_key (\<lambda>p. - snd p) (qcfg :: (string \<times> int) list))"
proof -
  show "mset (sortByPriority qcfg) = mset (map fst qcfg)" by (simp add: sortByPriority_def)
  have "sorted (map (\<lambda>p. - snd p) (sort_key (\<lambda>p. - snd p) qcfg))" by simp
  then show "sorted_wrt (\<lambda>a b. snd a \<ge> snd b) (sort_key (\<lambda>p. - snd p) qcfg)"
    by (simp add: sorted_map)
qed

lemma uniq_loop_facts:
  assumes "distinct res"
  shows "distinct (uniq_loop l names res)" "set (uniq_loop l names res) \<subseteq> set res \<union> set names"
  using assms by (induction l names res rule: uniq_loop.induct) (auto simp: Let_def)

lemma uniq_loop_all:
  assumes "distinct res" and "card (set res \<union> set names) = l" and "length res < l"
  shows "set (uniq_loop l names res) = set res \<union> set names"
  using assms
proof (induction l names res rule: uniq_loop.induct)
  case (1 l res)
  then show ?case using distinct_card [of res] by simp
next
  case (2 l s names res)
  define res' where "res' = (if s \<in> set res then res else res @ [s])"
  have d: "distinct res'" "set res' \<union> set names = set res \<union> set (s # names)"
    using "2.prems"(1) by (auto simp: res'_def)
  have step: "uniq_loop l (s # names) res = (if length res' = l then res' else uniq_loop l names res')"
    by (simp add: res'_def Let_def)
  show ?case
  proof (cases "length res' = l")
    case True
    have "set res' = set res \<union> set (s # names)"
    proof (rule card_subset_eq)
      show "card (set res') = card (set res \<union> set (s # names))"
        using True d "2.prems"(2) by (simp add: distinct_card)
    qed (use d(2) in auto)
    then show ?thesis using step True by simp
  next
    case False
    then have "length res' < l" using "2.prems"(3) by (auto simp: res'_def split: if_splits)
    then show ?thesis
      using "2.IH" [OF refl] False d "2.prems"(2) step by (auto simp: res'_def [symmetric])
  qed
qed

text \<open>Every configured queue is polled in every round, whatever the shuffle.\<close>

lemma queues_complete:
  assumes "distinct (map fst cfg)" and "cfg \<noteq> []" and "\<forall>p \<in> set cfg. 0 < snd p"
    and shuffle: "\<And>xs. mset (shuffle xs) = mset xs"
    and ordered: "\<And>qs. ordered = Some qs \<Longrightarrow> mset qs = mset (map fst cfg)"
  shows "mset (queues shuffle cfg ordered) = mset (map fst cfg)"
proof -
  let ?names = "concat (map (\<lambda>(q, n). replicate (nat n) q) cfg)"
  have names: "set (shuffle ?names) = fst ` set cfg"
  proof -
    have "set (shuffle ?names) = set ?names"
      using shuffle [of ?names] by (metis set_mset_mset)
    also have "\<dots> = fst ` set cfg" using assms(3) by force
    finally show ?thesis .
  qed
  have card: "card (fst ` set cfg) = length cfg"
    using assms(1) by (metis distinct_card length_map list.set_map)
  have "set (uniq (shuffle ?names) (length cfg)) = fst ` set cfg"
    using uniq_loop_all [of "[]" "shuffle ?names" "length cfg"] names card assms(2)
    by (simp add: uniq_def)
  moreover have "distinct (uniq (shuffle ?names) (length cfg))"
    by (simp add: uniq_def uniq_loop_facts)
  ultimately have "mset (uniq (shuffle ?names) (length cfg)) = mset (map fst cfg)"
    using assms(1) by (metis set_eq_iff_mset_eq_distinct list.set_map)
  then show ?thesis using ordered by (auto simp: queues_def split: option.split)
qed

lemma normalizeQueues_facts:
  assumes "cfg \<noteq> []" and "\<forall>p \<in> set cfg. 0 < snd p"
  shows "\<exists>d cfg'. 0 < d \<and> normalizeQueues cfg = Some cfg' \<and> map fst cfg' = map fst cfg
    \<and> map snd cfg = map (\<lambda>p. d * snd p) cfg' \<and> (\<forall>p \<in> set cfg'. 0 < snd p)
    \<and> (\<forall>e. (\<forall>p \<in> set cfg'. e dvd snd p) \<longrightarrow> \<bar>e\<bar> = 1)"
proof -
  define xs where "xs = map snd cfg"
  obtain x ys where xs: "xs = x # ys" using assms(1) by (cases xs) (auto simp: xs_def)
  have pos: "\<forall>y \<in> set xs. 0 < y" "0 < x" using assms(2) xs by (auto simp: xs_def)
  define d where "d = gcd_loop xs x"
  note facts = gcd_loop_dvd [OF pos, folded d_def]
  have d: "0 < d" "\<And>p. p \<in> set cfg \<Longrightarrow> d dvd snd p" using facts by (auto simp: xs_def)
  have best: "e dvd d" if "\<And>y. y \<in> set xs \<Longrightarrow> e dvd y" for e
    using facts that xs by auto
  let ?cfg = "map (\<lambda>(q, x). (q, go_quot x d)) cfg"
  have q: "d * go_quot (snd p) d = snd p \<and> 0 < go_quot (snd p) d" if "p \<in> set cfg" for p
    using d(1) d(2) [OF that] assms(2) that by (auto simp: go_quot_def zero_less_mult_iff elim!: dvdE)
  have "gcd_list (map snd cfg) = Some d"
    using xs by (simp add: gcd_list_def d_def xs_def [symmetric])
  then have n: "normalizeQueues cfg = Some ?cfg" using d(1) by (simp add: normalizeQueues_def)
  have "\<bar>e\<bar> = 1" if e: "\<forall>p \<in> set ?cfg. e dvd snd p" for e
  proof -
    have "e * d dvd y" if "y \<in> set xs" for y
    proof -
      obtain p where p: "p \<in> set cfg" "y = snd p" using \<open>y \<in> set xs\<close> by (auto simp: xs_def)
      have "(fst p, go_quot (snd p) d) \<in> set ?cfg" using p(1) by (force simp: split_def)
      then have "e dvd go_quot (snd p) d" using e by (metis snd_conv)
      then have "e * d dvd go_quot (snd p) d * d" by simp
      then show ?thesis using q [OF p(1)] p(2) by (simp add: mult.commute)
    qed
    then have "e * d dvd d" by (rule best)
    then show ?thesis using d(1) by (metis dvd_mult_cancel_right less_irrefl mult_1 zdvd1_eq)
  qed
  then show ?thesis
    using d(1) n q by (intro exI [of _ d] exI [of _ ?cfg]) (auto simp: split_def)
qed

subsection \<open>What settling a task achieves\<close>

text \<open>Without a valid lease nothing is written.\<close>

lemma with_lease_ctx_expired: "\<not> IsValid t0 l \<Longrightarrow> with_lease_ctx um send t0 t1 l fn msg env = env"
  by (simp add: with_lease_ctx_def)

lemma settle_task_expired:
  "\<not> IsValid t0 l \<Longrightarrow> settle_task um send rdf isf t0 tr t1 l msg ev env = env"
  by (cases ev)
     (auto simp: settle_task_def handleFailedMessage_def handleSucceededMessage_def processor_archive_def
       processor_retry_def processor_requeue_def markAsDone_def markAsComplete_def with_lease_ctx_expired
       Let_def split: option.split)

definition sync_dead :: "'s proc_env \<Rightarrow> bool" where
  "sync_dead env \<longleftrightarrow> (\<forall>sr \<in> set (p_sync env). sr_ctx sr < length (p_ctx env) \<and> snd (p_ctx env ! sr_ctx sr))"

lemma run_sync_fn_simps [simp]:
  "p_ctx (snd (run_sync_fn um send t c fn env)) = p_ctx env"
  "p_sync (snd (run_sync_fn um send t c fn env)) = p_sync env"
  by (simp_all add: run_sync_fn_def Let_def split: sync_fn.split prod.split)

text \<open>
  Every request the processor sends to the syncer holds a context that is canceled by the
  time the method has returned.
\<close>

lemma with_lease_ctx_sync_dead:
  assumes "sync_dead env"
  shows "sync_dead (with_lease_ctx um send t0 t1 l fn msg env)"
proof (cases "IsValid t0 l")
  case False
  then show ?thesis using assms by (simp add: with_lease_ctx_def)
next
  case True
  define c env1 where "c = length (p_ctx env)" and "env1 = snd (new_ctx (Lease_Deadline l) env)"
  have n: "new_ctx (Lease_Deadline l) env = (c, env1)" by (simp add: new_ctx_def c_def env1_def)
  obtain e env2 where r: "run_sync_fn um send t1 c fn env1 = (e, env2)" by fastforce
  have e2: "p_ctx env2 = p_ctx env @ [(Lease_Deadline l, False)]" "p_sync env2 = p_sync env"
    using arg_cong [OF r, of "\<lambda>x. p_ctx (snd x)"] arg_cong [OF r, of "\<lambda>x. p_sync (snd x)"]
    by (simp_all add: env1_def new_ctx_def)
  show ?thesis
    using True n r assms e2
    by (cases e)
       (auto simp: with_lease_ctx_def sync_dead_def cancel_ctx_def c_def nth_list_update nth_append)
qed

context redis_client
begin

lemma run_sync_fn_canceled:
  assumes "c < length (p_ctx env)" and "snd (p_ctx env ! c)"
  shows "fst (run_sync_fn um send now c fn env) \<noteq> None
    \<and> db_of (conn (p_broker (snd (run_sync_fn um send now c fn env)))) = db_of (conn (p_broker env))"
proof -
  have ctx: "ctx_done now c env = True" using assms by (auto simp: ctx_done_def split: prod.splits)
  have rs: "fst (runScript send True op p r) \<noteq> None
      \<and> db_of (conn (snd (runScript send True op p r))) = db_of (conn r)" for op p and r
    using runScript_context_done [of op p r] by (cases "runScript send True op p r") auto
  show ?thesis
  proof (cases fn)
    case (Sync_MarkAsComplete msg)
    then show ?thesis
      using rs by (simp add: run_sync_fn_def ctx MarkAsComplete_qop [where um = um] Let_def split_def)
  next
    case (Sync_Done msg)
    then show ?thesis using rs by (simp add: run_sync_fn_def ctx Done_def Let_def split_def)
  next
    case (Sync_Retry msg t m f)
    then show ?thesis using rs by (simp add: run_sync_fn_def ctx Retry_qop [where um = um] Let_def split_def)
  next
    case (Sync_Archive msg m)
    then show ?thesis using rs by (simp add: run_sync_fn_def ctx Archive_qop Let_def split_def)
  qed
qed

end

end
