(* ===== verification/Ui.thy ===== *)
theory Ui
  imports RdbFacts Client Processor
begin

text \<open>
  The monitoring interface: \<open>ui/inspector.go\<close> (what it reads from Redis) and the body of
  \<open>/api/stats\<close> in \<open>ui/handlers.go\<close>, with its number formatting.
\<close>

subsection \<open>Calls\<close>

text \<open>The Go methods ignore most errors: the value is then the zero value of its type.\<close>

definition ui_call :: "'s client \<Rightarrow> reply prog \<Rightarrow> 's \<Rightarrow> (gerror + reply) \<times> 's" where
  "ui_call send p s = (case send s False p of (res, s') \<Rightarrow> (go_result res, s'))"

definition int_or_zero :: "gerror + reply \<Rightarrow> int" where
  "int_or_zero res = (case res of Inr (RInt n) \<Rightarrow> n | _ \<Rightarrow> 0)"

definition strings_or_nil :: "gerror + reply \<Rightarrow> string list" where
  "strings_or_nil res = (case res of Inr v \<Rightarrow> bulk_list v | Inl _ \<Rightarrow> [])"

subsection \<open>Queues\<close>

record QueueInfo =
  qi_Name :: string
  qi_Pending :: int
  qi_Active :: int
  qi_Scheduled :: int
  qi_Retry :: int
  qi_Archived :: int
  qi_Completed :: int
  qi_Paused :: bool

definition ui_prefix :: "string \<Rightarrow> string" where
  "ui_prefix qname = ''asynq:{'' @ qname @ ''}:''"

definition getQueueInfo :: "'s client \<Rightarrow> string \<Rightarrow> 's \<Rightarrow> QueueInfo \<times> 's" where
  "getQueueInfo send qname s0 =
     (let prefix = ui_prefix qname in
      case ui_call send (single (LLEN (prefix @ ''pending''))) s0 of (r1, s1) \<Rightarrow>
      case ui_call send (single (LLEN (prefix @ ''active''))) s1 of (r2, s2) \<Rightarrow>
      case ui_call send (single (ZCARD (prefix @ ''scheduled''))) s2 of (r3, s3) \<Rightarrow>
      case ui_call send (single (ZCARD (prefix @ ''retry''))) s3 of (r4, s4) \<Rightarrow>
      case ui_call send (single (ZCARD (prefix @ ''archived''))) s4 of (r5, s5) \<Rightarrow>
      case ui_call send (single (ZCARD (prefix @ ''completed''))) s5 of (r6, s6) \<Rightarrow>
      case ui_call send (single (EXISTS (prefix @ ''paused''))) s6 of (r7, s7) \<Rightarrow>
        (\<lparr>qi_Name = qname, qi_Pending = int_or_zero r1, qi_Active = int_or_zero r2,
          qi_Scheduled = int_or_zero r3, qi_Retry = int_or_zero r4, qi_Archived = int_or_zero r5,
          qi_Completed = int_or_zero r6, qi_Paused = (0 < int_or_zero r7)\<rparr>, s7))"

fun queue_infos :: "'s client \<Rightarrow> string list \<Rightarrow> 's \<Rightarrow> QueueInfo list \<times> 's" where
  "queue_infos send [] s = ([], s)"
| "queue_infos send (q # qs) s =
     (case getQueueInfo send q s of (info, s1) \<Rightarrow>
      case queue_infos send qs s1 of (infos, s2) \<Rightarrow> (info # infos, s2))"

definition GetQueues :: "'s client \<Rightarrow> 's \<Rightarrow> (gerror + QueueInfo list) \<times> 's" where
  "GetQueues send s =
     (case ui_call send (single (SMEMBERS ''asynq:queues'')) s of
        (Inl err, s1) \<Rightarrow> (Inl (Wrapf ''failed to get queues: '' err), s1)
      | (Inr v, s1) \<Rightarrow>
          (case queue_infos send (bulk_list v) s1 of
             (infos, s2) \<Rightarrow> (Inr (sort_key qi_Name infos), s2)))"

subsection \<open>Servers and statistics\<close>

fun server_infos ::
  "'s client \<Rightarrow> string list \<Rightarrow> 's \<Rightarrow> ServerInfo list \<times> 's" where
  "server_infos send [] s = ([], s)"
| "server_infos send (key # keys) s =
     (case ui_call send (single (GET key)) s of (res, s1) \<Rightarrow>
      case server_infos send keys s1 of (infos, s2) \<Rightarrow>
        ((case res of
            Inr (RBulk data) \<Rightarrow> (case DecodeServerInfo data of Inl _ \<Rightarrow> infos | Inr info \<Rightarrow> info # infos)
          | _ \<Rightarrow> infos), s2))"

definition GetServers ::
  "'s client \<Rightarrow> 's \<Rightarrow> (gerror + ServerInfo list) \<times> 's" where
  "GetServers send s =
     (case ui_call send (single (KEYS ''asynq:servers:'')) s of
        (Inl err, s1) \<Rightarrow> (Inl (Wrapf ''failed to get server keys: '' err), s1)
      | (Inr v, s1) \<Rightarrow>
          (case server_infos send (bulk_list v) s1 of (infos, s2) \<Rightarrow> (Inr infos, s2)))"

record DashboardStats =
  TotalQueues :: int
  TotalPending :: int
  TotalActive :: int
  TotalScheduled :: int
  TotalRetry :: int
  TotalArchived :: int
  TotalCompleted :: int
  ActiveServers :: int
  ActiveWorkers :: int

definition GetDashboardStats ::
  "'s client \<Rightarrow> 's \<Rightarrow> (gerror + DashboardStats) \<times> 's" where
  "GetDashboardStats send s =
     (case GetQueues send s of
        (Inl err, s1) \<Rightarrow> (Inl err, s1)
      | (Inr qs, s1) \<Rightarrow>
          (case GetServers send s1 of (res, s2) \<Rightarrow>
             (let servers = (case res of Inl _ \<Rightarrow> [] | Inr infos \<Rightarrow> infos) in
              (Inr \<lparr>TotalQueues = int (length qs),
                    TotalPending = sum_list (map qi_Pending qs),
                    TotalActive = sum_list (map qi_Active qs),
                    TotalScheduled = sum_list (map qi_Scheduled qs),
                    TotalRetry = sum_list (map qi_Retry qs),
                    TotalArchived = sum_list (map qi_Archived qs),
                    TotalCompleted = sum_list (map qi_Completed qs),
                    ActiveServers = int (length servers),
                    ActiveWorkers = sum_list (map si_ActiveWorkerCount servers)\<rparr>, s2))))"

subsection \<open>Tasks\<close>

record ui_task =
  ut_ID :: string
  ut_Type :: string
  ut_Queue :: string
  ut_State :: string
  ut_Payload :: string
  ut_MaxRetry :: int
  ut_Retried :: int
  ut_LastError :: string
  ut_LastFailedAt :: "int option" \<comment> \<open>seconds; \<open>None\<close> is the zero time\<close>
  ut_NextRunAt :: "int option"

text \<open>The members of a stored message that the local struct has; the others are skipped.\<close>

definition ui_members :: "string list" where
  "ui_members = [''id'', ''type'', ''queue'', ''payload'', ''retry'', ''retried'', ''error_msg'',
     ''last_failed_at'']"

definition ui_decode :: "string \<Rightarrow> TaskMessage option" where
  "ui_decode data =
     (case parse_object data of
        None \<Rightarrow> None
      | Some ms \<Rightarrow> set_members (filter (\<lambda>(k, v). k \<in> set ui_members) ms) zero_msg)"

text \<open>The flat array of \<open>WITHSCORES\<close>: member, score, member, score, ...\<close>

fun scored :: "string list \<Rightarrow> (string \<times> int) list" where
  "scored (m # sc # rest) = (m, (case read_int sc of None \<Rightarrow> 0 | Some n \<Rightarrow> n)) # scored rest"
| "scored _ = []"

definition task_ids ::
  "'s client \<Rightarrow> string \<Rightarrow> string \<Rightarrow> int \<Rightarrow> 's \<Rightarrow> (string list \<times> int list) \<times> 's" where
  "task_ids send qname state lim s =
     (let prefix = ui_prefix qname in
      if state = ''pending'' \<or> state = ''active''
      then (case ui_call send (single (LRANGE (prefix @ state) 0 (lim - 1))) s of
              (res, s1) \<Rightarrow> ((strings_or_nil res, []), s1))
      else if state = ''scheduled'' \<or> state = ''retry'' \<or> state = ''archived'' \<or> state = ''completed''
      then (case ui_call send (single (ZRANGEWITHSCORES (prefix @ state) 0 (lim - 1))) s of
              (res, s1) \<Rightarrow>
                (let results = scored (strings_or_nil res) in ((map fst results, map snd results), s1)))
      else (([], []), s))"

definition ui_task_of :: "string \<Rightarrow> string \<Rightarrow> int list \<Rightarrow> nat \<Rightarrow> TaskMessage \<Rightarrow> ui_task" where
  "ui_task_of qname state scores idx msg =
     \<lparr>ut_ID = ID msg, ut_Type = Type msg, ut_Queue = qname, ut_State = state,
      ut_Payload = (case Payload msg of None \<Rightarrow> [] | Some p \<Rightarrow> p),
      ut_MaxRetry = Retry msg, ut_Retried = Retried msg, ut_LastError = ErrorMsg msg,
      ut_LastFailedAt = (if 0 < LastFailedAt msg then Some (LastFailedAt msg) else None),
      ut_NextRunAt =
        (if idx < length scores \<and> 0 < scores ! idx then Some (scores ! idx) else None)\<rparr>"

fun ui_tasks ::
  "'s client \<Rightarrow> string \<Rightarrow> string \<Rightarrow> int list \<Rightarrow> nat \<Rightarrow> string list \<Rightarrow> 's \<Rightarrow> ui_task list \<times> 's" where
  "ui_tasks send qname state scores idx [] s = ([], s)"
| "ui_tasks send qname state scores idx (i # ids) s =
     (case ui_call send (single (HGET (ui_prefix qname @ ''t:'' @ i) ''msg'')) s of (res, s1) \<Rightarrow>
      case ui_tasks send qname state scores (Suc idx) ids s1 of (tasks, s2) \<Rightarrow>
        ((case res of
            Inr (RBulk data) \<Rightarrow>
              (case ui_decode data of
                 None \<Rightarrow> tasks
               | Some msg \<Rightarrow> ui_task_of qname state scores idx msg # tasks)
          | _ \<Rightarrow> tasks), s2))"

definition GetTasks :: "'s client \<Rightarrow> string \<Rightarrow> string \<Rightarrow> int \<Rightarrow> 's \<Rightarrow> ui_task list \<times> 's" where
  "GetTasks send qname state lim s =
     (case task_ids send qname state lim s of
        ((ids, scores), s1) \<Rightarrow> ui_tasks send qname state scores 0 ids s1)"

subsection \<open>\<open>/api/stats\<close>\<close>

definition itoa :: "int \<Rightarrow> string" where
  "itoa n = TrimSpace (filter (\<lambda>c. c \<noteq> CHR 0x00) (utf8_encode (nat (48 + go_rem n 10))))"

function itoa64_loop :: "int \<Rightarrow> string \<Rightarrow> string" where
  "itoa64_loop n result =
     (if 0 < n then itoa64_loop (n div 10) (char_of (nat (48 + n mod 10)) # result) else result)"
  by pat_completeness auto
termination
  by (relation "measure (\<lambda>(n, _). nat n)") auto

declare itoa64_loop.simps [simp del]

definition itoa64 :: "int \<Rightarrow> string" where
  "itoa64 n = (if n = 0 then ''0'' else itoa64_loop n [])"

definition api_stats_body :: "DashboardStats \<Rightarrow> string" where
  "api_stats_body stats =
     ''{'' @ [quote] @ ''total_queues'' @ [quote] @ '':'' @ itoa (TotalQueues stats)
     @ '','' @ [quote] @ ''total_pending'' @ [quote] @ '':'' @ itoa64 (TotalPending stats)
     @ '','' @ [quote] @ ''active_servers'' @ [quote] @ '':'' @ itoa (ActiveServers stats) @ ''}''"

subsection \<open>Facts about the formatting\<close>

lemma go_rem_10: "0 \<le> n \<Longrightarrow> go_rem n 10 = n mod 10"
  by (simp add: go_rem_pos)

lemma itoa_last_digit:
  assumes "0 \<le> n"
  shows "itoa n = [digit_char (nat (n mod 10))]"
proof -
  define d where "d = nat (n mod 10)"
  have d: "d < 10" using assms by (simp add: d_def)
  have n: "nat (48 + go_rem n 10) = 48 + d" using assms by (simp add: go_rem_10 d_def nat_add_distrib)
  have "list_all (\<lambda>d. TrimSpace (filter (\<lambda>c. c \<noteq> CHR 0x00) (utf8_encode (48 + d))) = [digit_char d]) [0..<10]"
    by code_simp
  then show ?thesis using d by (simp add: itoa_def n list_all_iff d_def [symmetric])
qed

lemma itoa64_loop_show:
  "0 < n \<Longrightarrow> itoa64_loop n acc = show_nat (nat n) @ acc"
proof (induction n acc rule: itoa64_loop.induct)
  case (1 n acc)
  have c: "char_of (nat (48 + n mod 10)) = digit_char (nat n mod 10)"
    using 1 by (simp add: digit_char_def nat_add_distrib nat_mod_distrib)
  have d: "nat (n div 10) = nat n div 10" using 1 by (simp add: nat_div_distrib)
  show ?case
  proof (cases "n < 10")
    case True
    then have "n div 10 = 0" using 1 by simp
    then show ?thesis
      using 1 True c by (subst itoa64_loop.simps, subst itoa64_loop.simps, subst show_nat.simps) simp
  next
    case False
    then have "0 < n div 10" using 1 by simp
    with 1 have "itoa64_loop (n div 10) (char_of (nat (48 + n mod 10)) # acc)
        = show_nat (nat (n div 10)) @ char_of (nat (48 + n mod 10)) # acc"
      by blast
    then show ?thesis
      using 1 False c d by (subst itoa64_loop.simps, subst show_nat.simps) simp
  qed
qed

lemma itoa64_show: "0 \<le> n \<Longrightarrow> itoa64 n = show_int n"
proof (cases "n = 0")
  case True
  have "show_int 0 = ''0''" by code_simp
  with True show ?thesis by (simp add: itoa64_def)
next
  case False
  then show "0 \<le> n \<Longrightarrow> itoa64 n = show_int n"
    by (simp add: itoa64_def show_int_def itoa64_loop_show)
qed

lemma itoa64_negative: "n < 0 \<Longrightarrow> itoa64 n = []"
  by (subst itoa64_def, subst itoa64_loop.simps) simp

lemma length_show_nat: "10 \<le> n \<Longrightarrow> 2 \<le> length (show_nat n)"
  by (subst show_nat.simps) (simp add: Suc_le_eq)

lemma itoa_correct_iff: "0 \<le> n \<Longrightarrow> itoa n = show_int n \<longleftrightarrow> n < 10"
proof
  assume "0 \<le> n" "itoa n = show_int n"
  then have "length (show_nat (nat n)) = 1" by (simp add: itoa_last_digit show_int_def split: if_splits) (metis length_Cons list.size(3) One_nat_def)
  then show "n < 10" using length_show_nat [of "nat n"] by (cases "10 \<le> nat n") auto
next
  assume "0 \<le> n" "n < 10"
  then show "itoa n = show_int n"
    by (simp add: itoa_last_digit show_int_def show_nat.simps)
qed

subsection \<open>What is shown\<close>

lemma slice_idx_subset: "set (slice_idx i j xs) \<subseteq> set xs"
  by (auto simp: slice_idx_def Let_def dest: in_set_takeD in_set_dropD)

lemma scored_concat:
  "scored (concat (map (\<lambda>(s, m). [m, show_int s]) z)) = map (\<lambda>(s, m). (m, s)) z"
  by (induction z) auto

lemma map_RBulk_pairs:
  "concat (map (\<lambda>(s, m). [RBulk m, RBulk (show_int s)]) z)
     = map RBulk (concat (map (\<lambda>(s, m). [m, show_int s]) z))"
  by (induction z) auto

context redis_client
begin

lemma ui_call_read:
  assumes "\<And>db. snd (run p db) = db" and "ui_call send p s = (res, s')"
  shows "db_of s' = db_of s"
    and "(\<exists>e. res = Inl e) \<or> (res = Inr (fst (run p (db_of s))) \<and> \<not> is_err (fst (run p (db_of s))))"
proof -
  have "apply_prog p = id" using assms(1) by (simp add: apply_prog_def fun_eq_iff)
  then have id: "(apply_prog p ^^ n) db = db" for n db by (simp add: id_funpow)
  have "\<exists>r'. issue send False p \<lparr>conn = s, queuesPublished = []\<rparr> = (res, r') \<and> conn r' = s'"
    using assms(2) by (auto simp: issue_def ui_call_def split: prod.splits)
  then obtain r' where i: "issue send False p \<lparr>conn = s, queuesPublished = []\<rparr> = (res, r')" "conn r' = s'"
    by blast
  show "db_of s' = db_of s" using issue_any [OF i(1)] i(2) id by auto
  show "(\<exists>e. res = Inl e) \<or> (res = Inr (fst (run p (db_of s))) \<and> \<not> is_err (fst (run p (db_of s))))"
  proof (cases res)
    case (Inr v)
    from issue_ok [OF i(1) [unfolded Inr]] id Inr show ?thesis by auto
  qed auto
qed

text \<open>One command of the interface on a represented queue.\<close>

lemma ui_call_does:
  assumes "does q p st v st" and "\<And>db. snd (run p db) = db" and "qrep q (db_of s) st"
    and "ui_call send p s = (res, s')"
  shows "db_of s' = db_of s" and "(\<exists>e. res = Inl e) \<or> res = Inr v"
  using ui_call_read [OF assms(2,4)] doesD(1) [OF assms(1,3)] by auto

end

lemma run_single: "run (single c) db = exec_cmd c db"
  by (simp add: single_def)

lemma does_read:
  assumes "\<And>db. qrep q db st \<Longrightarrow> exec_cmd c db = (v, db)"
  shows "does q (single c) st v st"
  using assms by (simp add: does_def run_single)

lemma reads [simp]:
  "snd (run (single (LLEN k)) db) = db" "snd (run (single (ZCARD k)) db) = db"
  "snd (run (single (EXISTS k)) db) = db" "snd (run (single (HGET k f)) db) = db"
  "snd (run (single (LRANGE k i j)) db) = db" "snd (run (single (ZRANGEWITHSCORES k i j)) db) = db"
  by (auto simp: run_single on_list_def on_zset_def on_hash_def split: option.split)

lemma ui_keys:
  "ui_prefix q @ ''pending'' = kname q KPending" "ui_prefix q @ ''active'' = kname q KActive"
  "ui_prefix q @ ''scheduled'' = kname q KScheduled" "ui_prefix q @ ''retry'' = kname q KRetry"
  "ui_prefix q @ ''archived'' = kname q KArchived" "ui_prefix q @ ''completed'' = kname q KCompleted"
  "ui_prefix q @ ''paused'' = kname q KPaused" "ui_prefix q @ ''t:'' @ i = kname q (KTask i)"
  by (simp_all add: ui_prefix_def kname_def QueueKeyPrefix_def)

lemma does_LLEN: "list_key k \<Longrightarrow> does q (single (LLEN (kname q k))) st (RInt (int (length (lval k st)))) st"
  by (rule does_read) (simp add: on_list_def get_rep)

lemma does_ZCARD: "zset_key k \<Longrightarrow> does q (single (ZCARD (kname q k))) st (RInt (int (length (zval k st)))) st"
  by (rule does_read) (simp add: on_zset_def get_rep)

lemma does_EXISTS: "does q (single (EXISTS (kname q KPaused))) st (RInt (if q_paused st then 1 else 0)) st"
proof (rule does_read)
  fix db
  assume "qrep q db st"
  then have "present db (kname q KPaused) \<longleftrightarrow> q_paused st"
    using qrepD [of q db st KPaused] by (auto simp: present_def paused_ok_def split: option.splits)
  then show "exec_cmd (EXISTS (kname q KPaused)) db = (RInt (if q_paused st then 1 else 0), db)" by simp
qed

lemma does_LRANGE:
  "list_key k \<Longrightarrow>
   does q (single (LRANGE (kname q k) i j)) st (RArr (map RBulk (slice_idx i j (lval k st)))) st"
  by (rule does_read) (simp add: on_list_def get_rep)

lemma does_ZRANGEWITHSCORES:
  "zset_key k \<Longrightarrow>
   does q (single (ZRANGEWITHSCORES (kname q k) i j)) st
     (RArr (map RBulk (concat (map (\<lambda>(s, m). [m, show_int s]) (slice_idx i j (zval k st)))))) st"
  by (rule does_read) (simp add: on_zset_def get_rep map_RBulk_pairs)

lemma does_HGET_msg:
  "does q (single (HGET (kname q (KTask i)) f)) st
     (case field_of st i f of None \<Rightarrow> RNil | Some v \<Rightarrow> RBulk v) st"
  by (rule does_read) (simp add: on_hash_def get_rep field_of_def)

text \<open>A count is right or, after an error, zero.\<close>

definition shown :: "int \<Rightarrow> nat \<Rightarrow> bool" where
  "shown n len \<longleftrightarrow> n = int len \<or> n = 0"

definition info_of :: "QueueInfo \<Rightarrow> queue_state \<Rightarrow> bool" where
  "info_of info st \<longleftrightarrow>
     shown (qi_Pending info) (length (q_pending st)) \<and> shown (qi_Active info) (length (q_active st))
     \<and> shown (qi_Scheduled info) (length (q_scheduled st)) \<and> shown (qi_Retry info) (length (q_retry st))
     \<and> shown (qi_Archived info) (length (q_archived st)) \<and> shown (qi_Completed info) (length (q_completed st))
     \<and> (qi_Paused info \<longrightarrow> q_paused st)"

lemma shown_result: "(\<exists>e. res = Inl e) \<or> res = Inr (RInt (int n)) \<Longrightarrow> shown (int_or_zero res) n"
  by (auto simp: shown_def int_or_zero_def)

context redis_client
begin

lemma getQueueInfo_shows:
  assumes "qrep q (db_of s) st" and "getQueueInfo send q s = (info, s')"
  shows "db_of s' = db_of s \<and> qi_Name info = q \<and> info_of info st"
proof -
  obtain r1 s1 where 1: "ui_call send (single (LLEN (kname q KPending))) s = (r1, s1)" by fastforce
  obtain r2 s2 where 2: "ui_call send (single (LLEN (kname q KActive))) s1 = (r2, s2)" by fastforce
  obtain r3 s3 where 3: "ui_call send (single (ZCARD (kname q KScheduled))) s2 = (r3, s3)" by fastforce
  obtain r4 s4 where 4: "ui_call send (single (ZCARD (kname q KRetry))) s3 = (r4, s4)" by fastforce
  obtain r5 s5 where 5: "ui_call send (single (ZCARD (kname q KArchived))) s4 = (r5, s5)" by fastforce
  obtain r6 s6 where 6: "ui_call send (single (ZCARD (kname q KCompleted))) s5 = (r6, s6)" by fastforce
  obtain r7 s7 where 7: "ui_call send (single (EXISTS (kname q KPaused))) s6 = (r7, s7)" by fastforce
  note d1 = ui_call_does [OF does_LLEN [of KPending q st] _ assms(1) 1, simplified]
  note rep1 = assms(1) [folded d1(1)]
  note d2 = ui_call_does [OF does_LLEN [of KActive q st] _ rep1 2, simplified]
  note rep2 = rep1 [folded d2(1)]
  note d3 = ui_call_does [OF does_ZCARD [of KScheduled q st] _ rep2 3, simplified]
  note rep3 = rep2 [folded d3(1)]
  note d4 = ui_call_does [OF does_ZCARD [of KRetry q st] _ rep3 4, simplified]
  note rep4 = rep3 [folded d4(1)]
  note d5 = ui_call_does [OF does_ZCARD [of KArchived q st] _ rep4 5, simplified]
  note rep5 = rep4 [folded d5(1)]
  note d6 = ui_call_does [OF does_ZCARD [of KCompleted q st] _ rep5 6, simplified]
  note rep6 = rep5 [folded d6(1)]
  note d7 = ui_call_does [OF does_EXISTS [of q st] _ rep6 7, simplified]
  have i: "info = \<lparr>qi_Name = q, qi_Pending = int_or_zero r1, qi_Active = int_or_zero r2,
      qi_Scheduled = int_or_zero r3, qi_Retry = int_or_zero r4, qi_Archived = int_or_zero r5,
      qi_Completed = int_or_zero r6, qi_Paused = (0 < int_or_zero r7)\<rparr>" "s' = s7"
    using assms(2) by (simp_all add: getQueueInfo_def Let_def ui_keys 1 2 3 4 5 6 7)
  have "0 < int_or_zero r7 \<longrightarrow> q_paused st"
    using d7(2) by (auto simp: int_or_zero_def split: if_splits)
  then show ?thesis
    using i d1 d2 d3 d4 d5 d6 d7(1) by (simp add: info_of_def shown_result)
qed

end

lemma ui_decode_encode:
  assumes "msg_ok m"
  shows "ui_decode (encode m) =
    Some (m\<lparr>Timeout := 0, Deadline := 0, msg_UniqueKey := [], Retention := 0, CompletedAt := 0\<rparr>)"
proof -
  have fs: "filter P (omit_str k x) = (if P (k, JStr x) then omit_str k x else [])"
    "filter P (omit_int k i) = (if P (k, JNum i) then omit_int k i else [])" for P k x i
    by (simp_all add: omit_str_def omit_int_def)
  have s: "set_members (omit_str k x) n = (if x = [] then Some n else set_member (k, JStr x) n)"
    for k x n by (simp add: omit_str_def split: option.split)
  have i: "set_members (omit_int k j) n = (if j = 0 then Some n else set_member (k, JNum j) n)"
    for k j n by (simp add: omit_int_def split: option.split)
  have f: "filter (\<lambda>(k, v). k \<in> set ui_members) (msg_members m) =
      [(''type'', JStr (Type m)),
       (''payload'', (case Payload m of None \<Rightarrow> JNull | Some p \<Rightarrow> JStr (b64enc p))),
       (''id'', JStr (ID m)), (''queue'', JStr (Queue m)), (''retry'', JNum (Retry m)),
       (''retried'', JNum (Retried m))]
      @ omit_str ''error_msg'' (ErrorMsg m) @ omit_int ''last_failed_at'' (LastFailedAt m)"
    by (simp add: msg_members_def fs ui_members_def)
  have "ui_decode (encode m) = set_members (filter (\<lambda>(k, v). k \<in> set ui_members) (msg_members m)) zero_msg"
    using assms by (simp add: ui_decode_def parse_object_render msg_members_ok)
  then show ?thesis
    unfolding f using assms
    by (cases m; cases "Payload m")
       (simp_all add: set_members_append s i set_member_def set_str_def set_int_def zero_msg_def b64dec_b64enc msg_ok_def)
qed

text \<open>What a row of the task table has behind it.\<close>

definition row_of :: "string \<Rightarrow> string \<Rightarrow> queue_state \<Rightarrow> string list \<Rightarrow> ui_task \<Rightarrow> bool" where
  "row_of q state st ids t \<longleftrightarrow>
     (\<exists>i \<in> set ids. \<exists>data msg. field_of st i ''msg'' = Some data \<and> ui_decode data = Some msg
        \<and> ut_ID t = ID msg \<and> ut_Type t = Type msg \<and> ut_MaxRetry t = Retry msg \<and> ut_Retried t = Retried msg
        \<and> ut_LastError t = ErrorMsg msg \<and> ut_Queue t = q \<and> ut_State t = state
        \<and> ut_Payload t = (case Payload msg of None \<Rightarrow> [] | Some p \<Rightarrow> p)
        \<and> ut_LastFailedAt t = (if 0 < LastFailedAt msg then Some (LastFailedAt msg) else None))"

lemma row_of_mono: "row_of q state st ids t \<Longrightarrow> set ids \<subseteq> set ids' \<Longrightarrow> row_of q state st ids' t"
  unfolding row_of_def by (rule bexE, assumption, rule bexI, assumption, erule (1) subsetD)

context redis_client
begin

lemma ui_tasks_rows:
  assumes "qrep q (db_of s) st" and "ui_tasks send q state scores idx ids s = (tasks, s')"
  shows "db_of s' = db_of s \<and> (\<forall>t \<in> set tasks. row_of q state st ids t)"
  using assms
proof (induction ids arbitrary: idx s tasks s')
  case (Cons i ids)
  obtain res s1 where c: "ui_call send (single (HGET (kname q (KTask i)) ''msg'')) s = (res, s1)"
    by fastforce
  obtain ts s2 where r: "ui_tasks send q state scores (Suc idx) ids s1 = (ts, s2)" by fastforce
  note d = ui_call_does [OF does_HGET_msg [of q i "''msg''" st] _ Cons.prems(1) c, simplified]
  have ih: "db_of s2 = db_of s1" "\<forall>t \<in> set ts. row_of q state st ids t"
    using Cons.IH [OF Cons.prems(1) [folded d(1)] r] by auto
  have row: "row_of q state st (i # ids) (ui_task_of q state scores idx msg)"
    if "res = Inr (RBulk data)" "ui_decode data = Some msg" for data msg
  proof -
    have "field_of st i ''msg'' = Some data" using that(1) d(2) by (auto split: option.splits)
    then show ?thesis
      unfolding row_of_def ui_task_of_def using that(2) by (intro bexI [of _ i] exI [of _ data] exI [of _ msg]) simp_all
  qed
  have e: "tasks = (case res of
            Inr (RBulk data) \<Rightarrow>
              (case ui_decode data of
                 None \<Rightarrow> ts
               | Some msg \<Rightarrow> ui_task_of q state scores idx msg # ts)
          | _ \<Rightarrow> ts)" "s' = s2"
    using Cons.prems(2) by (simp_all add: ui_keys c r del: append.simps)
  have old: "\<forall>t \<in> set ts. row_of q state st (i # ids) t"
    using ih(2) by (auto intro: row_of_mono)
  then have "\<forall>t \<in> set tasks. row_of q state st (i # ids) t"
    using row unfolding e(1) by (auto split: sum.split reply.split option.split)
  then show ?case using ih(1) d(1) e(2) by simp
qed simp

lemma strings_or_nil_bulks [simp]: "strings_or_nil (Inr (RArr (map RBulk xs))) = xs" "strings_or_nil (Inl e) = []"
  by (simp_all add: strings_or_nil_def del: bulk_list.simps)

lemma strings_of_result:
  "(\<exists>e. res = Inl e) \<or> res = Inr (RArr (map RBulk xs)) \<Longrightarrow> set (strings_or_nil res) \<subseteq> set xs"
  by auto

lemma task_ids_in_state:
  assumes "qrep q (db_of s) st" and "task_ids send q (TaskState_String ts) lim s = ((ids, scores), s')"
  shows "db_of s' = db_of s \<and> set ids \<subseteq> in_state st ts"
proof -
  have l: ?thesis
    if k: "list_key k" "ui_prefix q @ TaskState_String ts = kname q k" "set (lval k st) = in_state st ts"
      "ts = TaskStatePending \<or> ts = TaskStateActive" for k
  proof -
    obtain res s1 where c: "ui_call send (single (LRANGE (kname q k) 0 (lim - 1))) s = (res, s1)" by fastforce
    note d = ui_call_does [OF does_LRANGE [OF k(1), where q = q and st = st] _ assms(1) c, simplified]
    have "ids = strings_or_nil res" "s' = s1"
      using assms(2) k(4) c k(2) by (auto simp: task_ids_def Let_def)
    then show ?thesis
      using strings_of_result [OF d(2)] d(1) slice_idx_subset [of 0 "lim - 1" "lval k st"] k(3) by auto
  qed
  have z: ?thesis
    if k: "zset_key k" "ui_prefix q @ TaskState_String ts = kname q k" "set (zmembers (zval k st)) = in_state st ts"
      "ts \<noteq> TaskStatePending" "ts \<noteq> TaskStateActive" for k
  proof -
    obtain res s1 where c: "ui_call send (single (ZRANGEWITHSCORES (kname q k) 0 (lim - 1))) s = (res, s1)"
      by fastforce
    note d = ui_call_does [OF does_ZRANGEWITHSCORES [OF k(1), where q = q and st = st] _ assms(1) c, simplified]
    have i: "ids = map fst (scored (strings_or_nil res))" "s' = s1"
      using assms(2) k(4,5) c k(2) by (cases ts; auto simp: task_ids_def Let_def)+
    have "set ids \<subseteq> set (map snd (slice_idx 0 (lim - 1) (zval k st)))"
      using d(2) i(1) by (force simp: scored_concat)
    also have "\<dots> \<subseteq> set (zmembers (zval k st))"
      using slice_idx_subset [of 0 "lim - 1" "zval k st"] by (auto simp: zmembers_def)
    finally show ?thesis using i(2) d(1) k(3) by simp
  qed
  show ?thesis
  proof (cases ts)
    case TaskStateActive
    then show ?thesis by (intro l [of KActive]) (simp_all add: ui_keys)
  next
    case TaskStatePending
    then show ?thesis by (intro l [of KPending]) (simp_all add: ui_keys)
  next
    case TaskStateScheduled
    then show ?thesis by (intro z [of KScheduled]) (simp_all add: ui_keys)
  next
    case TaskStateRetry
    then show ?thesis by (intro z [of KRetry]) (simp_all add: ui_keys)
  next
    case TaskStateArchived
    then show ?thesis by (intro z [of KArchived]) (simp_all add: ui_keys)
  next
    case TaskStateCompleted
    then show ?thesis by (intro z [of KCompleted]) (simp_all add: ui_keys)
  qed
qed

lemma GetTasks_rows:
  assumes "qrep q (db_of s) st" and "GetTasks send q (TaskState_String ts) lim s = (tasks, s')"
  shows "db_of s' = db_of s
    \<and> (\<exists>ids. set ids \<subseteq> in_state st ts \<and> (\<forall>t \<in> set tasks. row_of q (TaskState_String ts) st ids t))"
proof -
  obtain ids scores s1 where t: "task_ids send q (TaskState_String ts) lim s = ((ids, scores), s1)"
    by (cases "task_ids send q (TaskState_String ts) lim s") auto
  note i = task_ids_in_state [OF assms(1) t]
  have "qrep q (db_of s1) st" using i assms(1) by simp
  moreover have "ui_tasks send q (TaskState_String ts) scores 0 ids s1 = (tasks, s')"
    using assms(2) t by (simp add: GetTasks_def)
  ultimately have "db_of s' = db_of s1 \<and> (\<forall>t \<in> set tasks. row_of q (TaskState_String ts) st ids t)"
    by (rule ui_tasks_rows)
  with i show ?thesis by (intro conjI exI [of _ ids]) auto
qed

end

end
