(* ===== verification/Monitor.thy ===== *)
theory Monitor
  imports Ui
begin

text \<open>
  The heartbeat and the dashboard together: what \<open>WriteServerState\<close> leaves in Redis is what
  \<open>GetServers\<close> of \<open>ui/inspector.go\<close> shows until it expires, and nothing is left of it after
  \<open>ClearServerState\<close>.
\<close>

lemma server_key_neq [simp]:
  "ServerInfoKey h p i \<noteq> WorkersKey h p i" "WorkersKey h p i \<noteq> ServerInfoKey h p i"
  by (simp_all add: ServerInfoKey_def WorkersKey_def)

lemma server_keys_neq_sets [simp]:
  "ServerInfoKey h p i \<noteq> AllServers" "ServerInfoKey h p i \<noteq> AllWorkers"
  "WorkersKey h p i \<noteq> AllServers" "WorkersKey h p i \<noteq> AllWorkers"
  by (simp_all add: ServerInfoKey_def WorkersKey_def AllServers_def AllWorkers_def)

text \<open>The hash of the workers while the script fills it.\<close>

lemma fill_workers_writes:
  "prog_writes {wkey} (lua_for ws (\<lambda>w rest. call (HSET wkey [w]) (\<lambda>_. rest)) (call (EXPIRE wkey ttl) (\<lambda>_. ok_reply)))"
  by (rule prog_writes_lua_for) (simp_all add: ok_reply_def)

lemma fill_workers:
  assumes "get_hash db wkey = Some h" and "0 < ttl"
  shows "get_hash (snd (run (lua_for ws (\<lambda>w rest. call (HSET wkey [w]) (\<lambda>_. rest))
    (call (EXPIRE wkey ttl) (\<lambda>_. ok_reply))) db)) wkey = Some (hset_all ws h)"
  using assms(1)
proof (induction ws arbitrary: db h)
  case Nil
  then show ?case
    using assms(2)
    by (auto simp: run_call set_expiry_def ok_reply_def get_hash_def lookup_put live_def hset_all_def
        split: option.splits rval.splits prod.splits)
next
  case (Cons w ws)
  have "get_hash (store wkey (RHash (hset_all [w] h)) db) wkey = Some (hset_all [w] h)" by simp
  from Cons.IH [OF this] Cons.prems show ?case
    by (simp add: run_call on_hash_def hset_all_def)
qed

lemma state_script:
  assumes "0 < ttl" and "skey \<noteq> wkey"
  shows "lookup (apply_prog (writeServerStateCmd skey wkey ttl b ws) db) skey = Some (RStr b, Some (srv_ms db + 1000 * ttl))"
    and "get_hash (apply_prog (writeServerStateCmd skey wkey ttl b ws) db) wkey = Some (hset_all ws [])"
proof -
  let ?db1 = "put skey (RStr b, Some (srv_ms db + 1000 * ttl)) db"
  let ?p = "lua_for ws (\<lambda>w rest. call (HSET wkey [w]) (\<lambda>_. rest)) (call (EXPIRE wkey ttl) (\<lambda>_. ok_reply))"
  have r: "apply_prog (writeServerStateCmd skey wkey ttl b ws) db = snd (run ?p (remove wkey ?db1))"
    using assms(1) by (simp add: apply_prog_def writeServerStateCmd_def run_call)
  show "lookup (apply_prog (writeServerStateCmd skey wkey ttl b ws) db) skey = Some (RStr b, Some (srv_ms db + 1000 * ttl))"
    unfolding r using run_frame [OF fill_workers_writes, of skey wkey] assms by (simp add: lookup_put live_def)
  show "get_hash (apply_prog (writeServerStateCmd skey wkey ttl b ws) db) wkey = Some (hset_all ws [])"
    unfolding r by (rule fill_workers) (use assms in simp_all)
qed

lemma apply_srv_ms [simp]: "srv_ms ((apply_prog p ^^ n) db) = srv_ms db"
  by (induction n) (simp_all add: apply_prog_def run_srv_ms)

lemma state_script_positive:
  "fst (run (writeServerStateCmd skey wkey ttl b ws) db) = v \<Longrightarrow> \<not> is_err v \<Longrightarrow> 0 < ttl"
  by (rule ccontr) (auto simp: writeServerStateCmd_def run_call bad_expire_def)

context redis_client
begin

text \<open>
  A state that has been written: the record, with its expiry, and the hash of the workers.
\<close>

lemma WriteServerState_writes:
  assumes "WriteServerState zone send now info ws ttl r = (None, r')"
  shows "\<exists>b. EncodeServerInfo zone (Some info) = Inr b \<and> second_ns \<le> ttl \<and> second_ns dvd ttl
    \<and> lookup (db_of (conn r')) (ServerInfoKey (si_Host info) (si_PID info) (si_ServerID info))
        = Some (RStr b, Some (srv_ms (db_of (conn r)) + 1000 * (ttl div second_ns)))
    \<and> get_hash (db_of (conn r')) (WorkersKey (si_Host info) (si_PID info) (si_ServerID info))
        = Some (hset_all (encode_workers zone ws) [])
    \<and> srv_ms (db_of (conn r')) = srv_ms (db_of (conn r))"
proof -
  let ?sk = "ServerInfoKey (si_Host info) (si_PID info) (si_ServerID info)"
  let ?wk = "WorkersKey (si_Host info) (si_PID info) (si_ServerID info)"
  obtain b where b: "EncodeServerInfo zone (Some info) = Inr b"
    using assms by (auto simp: WriteServerState_def Let_def split: sum.splits)
  let ?p = "if second_ns dvd ttl then writeServerStateCmd ?sk ?wk (ttl div second_ns) b (encode_workers zone ws)
    else Ret (RErr ''ERR value is not an integer or out of range'')"
  obtain v1 r1 v2 r2 v where
    i1: "issue send False (single (ZADD AllServers (unix (now + ttl)) ?sk)) r = (Inr v1, r1)" and
    i2: "issue send False (single (ZADD AllWorkers (unix (now + ttl)) ?wk)) r1 = (Inr v2, r2)" and
    i3: "issue send False ?p r2 = (Inr v, r')"
    using assms b
    by (auto simp: WriteServerState_def Let_def runScript_def split: sum.splits prod.splits)
  have ms: "srv_ms (db_of (conn r2)) = srv_ms (db_of (conn r))"
    using issue_any [OF i1] issue_any [OF i2] by auto
  obtain n where n: "v = fst (run ?p ((apply_prog ?p ^^ n) (db_of (conn r2))))" "\<not> is_err v"
    "db_of (conn r') = apply_prog ?p ((apply_prog ?p ^^ n) (db_of (conn r2)))"
    using issue_ok [OF i3] by auto
  have d: "second_ns dvd ttl" using n(1,2) by (cases "second_ns dvd ttl") simp_all
  then have p: "?p = writeServerStateCmd ?sk ?wk (ttl div second_ns) b (encode_workers zone ws)" by simp
  have pos: "0 < ttl div second_ns"
    using state_script_positive n(1,2) unfolding p by blast
  have "second_ns \<le> ttl" using pos d by (auto simp: second_ns_def elim!: dvdE)
  moreover have "srv_ms (db_of (conn r')) = srv_ms (db_of (conn r))"
    using issue_any [OF i3] ms by auto
  ultimately show ?thesis
    using b d ms n(3) state_script [OF pos server_key_neq(1)] unfolding p by auto
qed

lemma ClearServerState_clears:
  assumes "ClearServerState send host pid sid r = (None, r')"
  shows "lookup (db_of (conn r')) (ServerInfoKey host pid sid) = None
    \<and> lookup (db_of (conn r')) (WorkersKey host pid sid) = None"
proof -
  let ?p = "clearServerStateCmd (ServerInfoKey host pid sid) (WorkersKey host pid sid)"
  obtain r2 v where i: "issue send False ?p r2 = (Inr v, r')"
    using assms by (auto simp: ClearServerState_def Let_def runScript_def split: sum.splits prod.splits)
  then obtain db where "db_of (conn r') = apply_prog ?p db" using issue_ok by fastforce
  then show ?thesis by (simp add: apply_prog_def clearServerStateCmd_def run_call ok_reply_def)
qed

end

subsection \<open>What the dashboard lists\<close>

text \<open>\<open>up\<close> are states of the connection from which every call is answered.\<close>

definition answering :: "'s client \<Rightarrow> ('s \<Rightarrow> bool) \<Rightarrow> bool" where
  "answering send up \<longleftrightarrow> (\<forall>s p. up s \<longrightarrow> (\<exists>v s'. send s False p = (Inr v, s') \<and> up s'))"

definition server_at :: "keyspace \<Rightarrow> string \<Rightarrow> ServerInfo option" where
  "server_at db k =
     (case lookup db k of
        Some (RStr d, _) \<Rightarrow> (case DecodeServerInfo d of Inl _ \<Rightarrow> None | Inr i \<Rightarrow> Some i)
      | _ \<Rightarrow> None)"

definition server_keys :: "keyspace \<Rightarrow> string list" where
  "server_keys db =
     filter (\<lambda>k. take (length ''asynq:servers:'') k = ''asynq:servers:'' \<and> present db k) (remdups (map fst (ents db)))"

lemma server_key_listed:
  assumes "lookup db (ServerInfoKey h p i) = Some e"
  shows "ServerInfoKey h p i \<in> set (server_keys db)"
proof -
  have "ServerInfoKey h p i \<in> set (map fst (ents db))"
    using assms by (auto simp: lookup_def split: option.splits dest: map_of_SomeD intro: rev_image_eqI)
  then show ?thesis
    using assms by (simp add: server_keys_def present_def ServerInfoKey_def)
qed

lemma map_filter_intro: "x \<in> set xs \<Longrightarrow> f x = Some y \<Longrightarrow> y \<in> set (List.map_filter f xs)"
  by (force simp: map_filter_def)

lemma workers_stored:
  assumes "list_all (worker_ok zone) ws" and "distinct (map wi_ID ws)"
  shows "\<forall>w \<in> set ws. \<exists>b. map_of (hset_all (encode_workers zone ws) []) (wi_ID w) = Some b \<and> DecodeWorkerInfo b = Inr w"
proof -
  have sub: "set (map fst (encode_workers zone ws)) \<subseteq> set (map wi_ID ws)" for ws
    by (induction ws) (auto split: sum.split)
  have d: "distinct (map wi_ID ws) \<Longrightarrow> distinct (map fst (encode_workers zone ws))" for ws
  proof (induction ws)
    case (Cons w ws)
    then have "wi_ID w \<notin> set (map fst (encode_workers zone ws))" using sub [of ws] by auto
    then show ?case using Cons by (auto split: sum.split)
  qed simp
  have m: "\<exists>b. (wi_ID w, b) \<in> set (encode_workers zone ws) \<and> DecodeWorkerInfo b = Inr w"
    if "w \<in> set ws" "list_all (worker_ok zone) ws" for w ws
    using that
  proof (induction zone ws rule: encode_workers.induct)
    case (2 zone v vs)
    then obtain b where "EncodeWorkerInfo zone (Some v) = Inr b" "DecodeWorkerInfo b = Inr v"
      using DecodeWorkerInfo_encode [of zone v] by auto
    then show ?case using 2 by auto
  qed simp
  have "distinct (map fst (rev (encode_workers zone ws)))"
    using d [OF assms(2)] by (simp add: rev_map [symmetric])
  then have "(k, b) \<in> set (encode_workers zone ws) \<Longrightarrow> map_of (hset_all (encode_workers zone ws) []) k = Some b" for k b
    by (simp add: map_of_hset_all map_of_eq_Some_iff)
  then show ?thesis using m [OF _ assms(1)] by blast
qed

text \<open>Time passes at the server.\<close>

lemma lookup_later:
  "lookup db k = Some (v, Some x) \<Longrightarrow> lookup (db\<lparr>srv_ms := t\<rparr>) k = (if t \<le> x then Some (v, Some x) else None)"
  by (auto simp: lookup_def live_def split: option.splits if_splits)

lemma get_reads [simp]: "snd (run (single (GET k)) db) = db" "snd (run (single (KEYS k)) db) = db"
  by (auto simp: run_single split: option.split rval.split)

context redis_client
begin

lemma ui_call_answered:
  assumes "answering send up" and "\<And>db. snd (run p db) = db" and "up s"
  shows "\<exists>s'. ui_call send p s = (go_result (Inr (fst (run p (db_of s)))), s') \<and> db_of s' = db_of s \<and> up s'"
proof -
  obtain v s' where v: "send s False p = (Inr v, s')" "up s'"
    using assms(1,3) unfolding answering_def by meson
  have id: "apply_prog p = id" using assms(2) by (simp add: apply_prog_def fun_eq_iff)
  have "v = fst (run p (db_of s))" "db_of s' = db_of s" using answered [OF v(1)] by (auto simp: id id_funpow)
  then show ?thesis using v by (simp add: ui_call_def)
qed

lemma server_infos_shows:
  assumes "answering send up" and "up s"
  shows "\<exists>s'. server_infos send keys s = (List.map_filter (server_at (db_of s)) keys, s') \<and> db_of s' = db_of s"
  using assms(2)
proof (induction keys arbitrary: s)
  case Nil
  then show ?case by simp
next
  case (Cons k keys)
  obtain s1 where g: "ui_call send (single (GET k)) s = (go_result (Inr (fst (run (single (GET k)) (db_of s)))), s1)"
    "db_of s1 = db_of s" "up s1"
    using ui_call_answered [OF assms(1) get_reads(1) Cons.prems, of k] by blast
  obtain s2 where r: "server_infos send keys s1 = (List.map_filter (server_at (db_of s)) keys, s2)" "db_of s2 = db_of s"
    using Cons.IH [of s1] g(2,3) by auto
  show ?case
    using g(1) r
    by (auto simp: run_single server_at_def [of _ k] wrongtype_def List.map_filter_simps
        split: option.split rval.split sum.split)
qed

lemma GetServers_shows:
  assumes "answering send up" and "up s"
  shows "\<exists>s'. GetServers send s = (Inr (List.map_filter (server_at (db_of s)) (server_keys (db_of s))), s')
    \<and> db_of s' = db_of s"
proof -
  obtain s1 where k: "ui_call send (single (KEYS ''asynq:servers:'')) s
      = (go_result (Inr (fst (run (single (KEYS ''asynq:servers:'')) (db_of s)))), s1)" "db_of s1 = db_of s" "up s1"
    using ui_call_answered [OF assms(1) get_reads(2) assms(2), of "''asynq:servers:''"] by blast
  then have k': "ui_call send (single (KEYS ''asynq:servers:'')) s = (Inr (RArr (map RBulk (server_keys (db_of s)))), s1)"
    by (simp add: run_single server_keys_def)
  obtain s2 where "server_infos send (server_keys (db_of s)) s1
      = (List.map_filter (server_at (db_of s)) (server_keys (db_of s)), s2)" "db_of s2 = db_of s"
    using server_infos_shows [OF assms(1) k(3), of "server_keys (db_of s)"] k(2) by metis
  then show ?thesis
    unfolding GetServers_def k' prod.case sum.case bulk_list_map_RBulk by simp
qed

end

end
