(* ===== verification/Dashboard.thy ===== *)
theory Dashboard
  imports Monitor
begin

text \<open>
  What the pages of the dashboard show when every read is answered, exactly: \<open>getQueueInfo\<close> and
  \<open>GetTasks\<close> of \<open>ui/inspector.go\<close> against the abstract queue.
\<close>

subsection \<open>The reference\<close>

text \<open>The tasks in one state in the order of their collection, with their scores, 0 in the lists.\<close>

fun entries_in :: "TaskState \<Rightarrow> queue_state \<Rightarrow> (string \<times> int) list" where
  "entries_in TaskStatePending st = map (\<lambda>i. (i, 0)) (q_pending st)"
| "entries_in TaskStateActive st = map (\<lambda>i. (i, 0)) (q_active st)"
| "entries_in TaskStateScheduled st = map prod.swap (q_scheduled st)"
| "entries_in TaskStateRetry st = map prod.swap (q_retry st)"
| "entries_in TaskStateArchived st = map prod.swap (q_archived st)"
| "entries_in TaskStateCompleted st = map prod.swap (q_completed st)"

definition task_row :: "string \<Rightarrow> TaskState \<Rightarrow> queue_state \<Rightarrow> string \<times> int \<Rightarrow> ui_task option" where
  "task_row q ts st e =
     (case field_of st (fst e) ''msg'' of
        None \<Rightarrow> None
      | Some data \<Rightarrow>
          (case ui_decode data of
             None \<Rightarrow> None
           | Some msg \<Rightarrow> Some
               \<lparr>ut_ID = ID msg, ut_Type = Type msg, ut_Queue = q, ut_State = TaskState_String ts,
                ut_Payload = (case Payload msg of None \<Rightarrow> [] | Some p \<Rightarrow> p),
                ut_MaxRetry = Retry msg, ut_Retried = Retried msg, ut_LastError = ErrorMsg msg,
                ut_LastFailedAt = (if 0 < LastFailedAt msg then Some (LastFailedAt msg) else None),
                ut_NextRunAt = (if 0 < snd e then Some (snd e) else None)\<rparr>))"

text \<open>The first \<open>lim\<close> entries, all of them for \<open>lim = 0\<close>.\<close>

definition first_entries :: "int \<Rightarrow> 'a list \<Rightarrow> 'a list" where
  "first_entries lim xs = (if lim = 0 then xs else take (nat lim) xs)"

lemma slice_first: "0 \<le> lim \<Longrightarrow> slice_idx 0 (lim - 1) xs = first_entries lim xs"
  by (cases "nat lim \<le> length xs") (auto simp: slice_idx_def first_entries_def Let_def min_def)

lemma map_first_entries: "map f (first_entries lim xs) = first_entries lim (map f xs)"
  by (simp add: first_entries_def take_map)

definition score_at :: "int list \<Rightarrow> nat \<Rightarrow> int" where
  "score_at scores k = (if k < length scores then scores ! k else 0)"

lemma ui_task_of_row:
  "field_of st i ''msg'' = Some data \<Longrightarrow> ui_decode data = Some msg \<Longrightarrow>
   task_row q ts st (i, score_at scores k) = Some (ui_task_of q (TaskState_String ts) scores k msg)"
  by (simp add: task_row_def ui_task_of_def score_at_def)

context redis_client
begin

lemma ui_call_exact:
  assumes "answering send up" and "up s" and "does q p st v st" and "\<And>db. snd (run p db) = db"
    and "\<not> is_err v" and "qrep q (db_of s) st" and "v \<noteq> RNil"
  shows "\<exists>s'. ui_call send p s = (Inr v, s') \<and> db_of s' = db_of s \<and> up s'"
  using ui_call_answered [OF assms(1,4,2)] doesD(1) [OF assms(3,6)] assms(5,7) by (cases v) auto

lemma getQueueInfo_answered:
  assumes "answering send up" and "up s" and "qrep q (db_of s) st"
  shows "\<exists>s'. getQueueInfo send q s =
      (\<lparr>qi_Name = q, qi_Pending = int (length (q_pending st)), qi_Active = int (length (q_active st)),
        qi_Scheduled = int (length (q_scheduled st)), qi_Retry = int (length (q_retry st)),
        qi_Archived = int (length (q_archived st)), qi_Completed = int (length (q_completed st)),
        qi_Paused = q_paused st\<rparr>, s')
    \<and> db_of s' = db_of s \<and> up s'"
proof -
  have ll: "\<exists>s'. ui_call send (single (LLEN (kname q k))) s = (Inr (RInt (int (length (lval k st)))), s')
      \<and> db_of s' = db_of s \<and> up s'" if "list_key k" "up s" "qrep q (db_of s) st" for k s
    by (rule ui_call_exact [OF assms(1) that(2) does_LLEN [OF that(1)] _ _ that(3)]) simp_all
  have zc: "\<exists>s'. ui_call send (single (ZCARD (kname q k))) s = (Inr (RInt (int (length (zval k st)))), s')
      \<and> db_of s' = db_of s \<and> up s'" if "zset_key k" "up s" "qrep q (db_of s) st" for k s
    by (rule ui_call_exact [OF assms(1) that(2) does_ZCARD [OF that(1)] _ _ that(3)]) simp_all
  obtain s1 where 1: "ui_call send (single (LLEN (kname q KPending))) s = (Inr (RInt (int (length (q_pending st)))), s1)"
    "db_of s1 = db_of s" "up s1" using ll [OF _ assms(2,3), of KPending] by auto
  obtain s2 where 2: "ui_call send (single (LLEN (kname q KActive))) s1 = (Inr (RInt (int (length (q_active st)))), s2)"
    "db_of s2 = db_of s" "up s2" using ll [OF _ 1(3), of KActive] assms(3) 1(2) by auto
  obtain s3 where 3: "ui_call send (single (ZCARD (kname q KScheduled))) s2 = (Inr (RInt (int (length (q_scheduled st)))), s3)"
    "db_of s3 = db_of s" "up s3" using zc [OF _ 2(3), of KScheduled] assms(3) 2(2) by auto
  obtain s4 where 4: "ui_call send (single (ZCARD (kname q KRetry))) s3 = (Inr (RInt (int (length (q_retry st)))), s4)"
    "db_of s4 = db_of s" "up s4" using zc [OF _ 3(3), of KRetry] assms(3) 3(2) by auto
  obtain s5 where 5: "ui_call send (single (ZCARD (kname q KArchived))) s4 = (Inr (RInt (int (length (q_archived st)))), s5)"
    "db_of s5 = db_of s" "up s5" using zc [OF _ 4(3), of KArchived] assms(3) 4(2) by auto
  obtain s6 where 6: "ui_call send (single (ZCARD (kname q KCompleted))) s5 = (Inr (RInt (int (length (q_completed st)))), s6)"
    "db_of s6 = db_of s" "up s6" using zc [OF _ 5(3), of KCompleted] assms(3) 5(2) by auto
  have "qrep q (db_of s6) st" using assms(3) 6(2) by simp
  from ui_call_exact [OF assms(1) 6(3) does_EXISTS _ _ this] obtain s7 where
    7: "ui_call send (single (EXISTS (kname q KPaused))) s6 = (Inr (RInt (if q_paused st then 1 else 0)), s7)"
    "db_of s7 = db_of s" "up s7" using 6(2) by auto
  show ?thesis
    using 7(2,3) by (simp add: getQueueInfo_def Let_def ui_keys 1(1) 2(1) 3(1) 4(1) 5(1) 6(1) 7(1) int_or_zero_def)
qed

lemma ui_tasks_answered:
  assumes "answering send up" and "up s" and "qrep q (db_of s) st"
    and "\<forall>k < length es. score_at scores (idx + k) = snd (es ! k)"
  shows "\<exists>s'. ui_tasks send q (TaskState_String ts) scores idx (map fst es) s = (List.map_filter (task_row q ts st) es, s')
    \<and> db_of s' = db_of s"
  using assms(2-)
proof (induction es arbitrary: idx s)
  case Nil
  then show ?case by (simp add: List.map_filter_simps)
next
  case (Cons e es)
  let ?p = "single (HGET (kname q (KTask (fst e))) ''msg'')"
  let ?v = "case field_of st (fst e) ''msg'' of None \<Rightarrow> RNil | Some v \<Rightarrow> RBulk v"
  obtain s1 where c: "ui_call send ?p s = (go_result (Inr ?v), s1)" "db_of s1 = db_of s" "up s1"
    using ui_call_answered [OF assms(1) reads(4) Cons.prems(1)] doesD(1) [OF does_HGET_msg Cons.prems(2)] by metis
  have "\<forall>k < length es. score_at scores (Suc idx + k) = snd (es ! k)"
    using Cons.prems(3) by (metis Suc_less_eq add_Suc_shift length_Cons nth_Cons_Suc)
  then obtain s2 where r: "ui_tasks send q (TaskState_String ts) scores (Suc idx) (map fst es) s1
      = (List.map_filter (task_row q ts st) es, s2)" "db_of s2 = db_of s"
    using Cons.IH [OF c(3)] Cons.prems(2) c(2) by metis
  have e: "e = (fst e, score_at scores idx)" using Cons.prems(3) by (force simp: prod_eq_iff)
  have none: "field_of st (fst e) ''msg'' = None \<or> (\<exists>d. field_of st (fst e) ''msg'' = Some d \<and> ui_decode d = None)
      \<Longrightarrow> task_row q ts st e = None"
    by (auto simp: task_row_def)
  have some: "task_row q ts st e = Some (ui_task_of q (TaskState_String ts) scores idx msg)"
    if "field_of st (fst e) ''msg'' = Some d" "ui_decode d = Some msg" for d msg
    using ui_task_of_row [OF that, of q ts scores idx] e by simp
  show ?case
    using r(2) none some
    by (auto simp: ui_keys c(1) r(1) List.map_filter_simps simp del: append.simps
        split: option.split sum.split reply.split)
qed

lemma GetTasks_answered:
  assumes "answering send up" and "up s" and "qrep q (db_of s) st" and "0 \<le> lim"
  shows "\<exists>s'. GetTasks send q (TaskState_String ts) lim s
    = (List.map_filter (task_row q ts st) (first_entries lim (entries_in ts st)), s')"
proof -
  have l: ?thesis
    if k: "list_key k" "ui_prefix q @ TaskState_String ts = kname q k" "entries_in ts st = map (\<lambda>i. (i, 0)) (lval k st)"
      "ts = TaskStatePending \<or> ts = TaskStateActive" for k
  proof -
    let ?ids = "first_entries lim (lval k st)"
    let ?es = "first_entries lim (entries_in ts st)"
    obtain s1 where c: "ui_call send (single (LRANGE (kname q k) 0 (lim - 1))) s = (Inr (RArr (map RBulk ?ids)), s1)"
      "db_of s1 = db_of s" "up s1"
      using ui_call_exact [OF assms(1,2) does_LRANGE [OF k(1)] _ _ assms(3), of 0 "lim - 1"]
      by (auto simp: slice_first [OF assms(4)])
    have rep1: "qrep q (db_of s1) st" using assms(3) c(2) by simp
    have "task_ids send q (TaskState_String ts) lim s = ((?ids, []), s1)"
      using k(4) c(1) k(2) by (auto simp: task_ids_def Let_def)
    moreover have es: "?es = map (\<lambda>i. (i, 0)) ?ids" by (simp add: k(3) map_first_entries)
    have "map fst ?es = ?ids" unfolding es by (simp add: comp_def)
    moreover have "\<forall>k < length ?es. score_at [] (0 + k) = snd (?es ! k)" unfolding es by (simp add: score_at_def)
    ultimately show ?thesis
      using ui_tasks_answered [OF assms(1) c(3) rep1, of ?es "[]" 0 ts] by (auto simp: GetTasks_def)
  qed
  have z: ?thesis
    if k: "zset_key k" "ui_prefix q @ TaskState_String ts = kname q k" "entries_in ts st = map prod.swap (zval k st)"
      "ts \<noteq> TaskStatePending" "ts \<noteq> TaskStateActive" for k
  proof -
    let ?z = "first_entries lim (zval k st)"
    let ?es = "first_entries lim (entries_in ts st)"
    obtain s1 where c: "ui_call send (single (ZRANGEWITHSCORES (kname q k) 0 (lim - 1))) s
        = (Inr (RArr (map RBulk (concat (map (\<lambda>(s, m). [m, show_int s]) ?z)))), s1)" "db_of s1 = db_of s" "up s1"
      using ui_call_exact [OF assms(1,2) does_ZRANGEWITHSCORES [OF k(1)] _ _ assms(3), of 0 "lim - 1"]
      by (auto simp: slice_first [OF assms(4)])
    have es: "map (\<lambda>(s, m). (m, s)) ?z = ?es" by (auto simp: k(3) map_first_entries split_def prod.swap_def intro!: arg_cong [of _ _ "first_entries lim"])
    have "task_ids send q (TaskState_String ts) lim s = ((map fst ?es, map snd ?es), s1)"
      using k(4,5) c(1) k(2) es by (cases ts; auto simp: task_ids_def Let_def scored_concat)+
    moreover have "\<forall>k < length ?es. score_at (map snd ?es) (0 + k) = snd (?es ! k)" by (simp add: score_at_def)
    moreover have "qrep q (db_of s1) st" using assms(3) c(2) by simp
    ultimately show ?thesis
      using ui_tasks_answered [OF assms(1) c(3), of q st ?es "map snd ?es" 0 ts] by (auto simp: GetTasks_def)
  qed
  show ?thesis
  proof (cases ts)
    case TaskStateActive
    then show ?thesis by (intro l [of KActive]) (simp_all add: ui_keys)
  next
    case TaskStatePending
    then show ?thesis by (intro l [of KPending]) (simp_all add: ui_keys)
  next
    case TaskStateScheduled
    then show ?thesis by (intro z [of KScheduled]) (simp_all add: ui_keys)
  next
    case TaskStateRetry
    then show ?thesis by (intro z [of KRetry]) (simp_all add: ui_keys)
  next
    case TaskStateArchived
    then show ?thesis by (intro z [of KArchived]) (simp_all add: ui_keys)
  next
    case TaskStateCompleted
    then show ?thesis by (intro z [of KCompleted]) (simp_all add: ui_keys)
  qed
qed

end

end
