(* ===== verification/Workers.thy ===== *)
theory Workers
  imports Processor
begin

text \<open>
  The background goroutines of a server: \<open>syncer.go\<close>, \<open>heartbeat.go\<close>, \<open>recoverer.go\<close>,
  \<open>forwarder.go\<close>, \<open>janitor.go\<close>, \<open>subscriber.go\<close> and \<open>healthcheck.go\<close>. Each definition is one
  round of a goroutine's loop; the timers and the \<open>done\<close> channels decide how often a round
  runs and are not modelled.
\<close>

subsection \<open>Syncer\<close>

text \<open>
  One tick: stale requests are dropped, the others tried; those that fail are kept. \<open>clk i\<close>
  is the \<open>i\<close>-th reading of the clock, two per request that is tried.
\<close>

fun syncer_tick ::
  "nat \<Rightarrow> 's client \<Rightarrow> (nat \<Rightarrow> int) \<Rightarrow> nat \<Rightarrow> syncRequest list \<Rightarrow> 's proc_env \<Rightarrow> syncRequest list \<times> 's proc_env" where
  "syncer_tick um send clk i [] env = ([], env)"
| "syncer_tick um send clk i (req # reqs) env =
     (if sr_deadline req < clk i then syncer_tick um send clk (Suc i) reqs env
      else (case run_sync_fn um send (clk (Suc i)) (sr_ctx req) (sr_fn req) env of
              (None, env') \<Rightarrow> syncer_tick um send clk (i + 2) reqs env'
            | (Some e, env') \<Rightarrow>
                (case syncer_tick um send clk (i + 2) reqs env' of (temp, env'') \<Rightarrow> (req # temp, env''))))"

text \<open>The last attempt at shutdown; failures are logged.\<close>

fun syncer_flush ::
  "nat \<Rightarrow> 's client \<Rightarrow> (nat \<Rightarrow> int) \<Rightarrow> nat \<Rightarrow> syncRequest list \<Rightarrow> 's proc_env \<Rightarrow> string list \<times> 's proc_env" where
  "syncer_flush um send clk i [] env = ([], env)"
| "syncer_flush um send clk i (req # reqs) env =
     (case run_sync_fn um send (clk i) (sr_ctx req) (sr_fn req) env of
        (None, env') \<Rightarrow> syncer_flush um send clk (Suc i) reqs env'
      | (Some e, env') \<Rightarrow>
          (case syncer_flush um send clk (Suc i) reqs env' of (log, env'') \<Rightarrow> (sr_errMsg req # log, env'')))"

context redis_client
begin

lemma syncer_tick_dead:
  assumes "\<forall>req \<in> set reqs. sr_ctx req < length (p_ctx env) \<and> snd (p_ctx env ! sr_ctx req)"
  shows "\<exists>kept. fst (syncer_tick um send clk i reqs env) = kept \<and> set kept \<subseteq> set reqs
    \<and> (\<forall>req \<in> set reqs. (\<forall>j. clk j \<le> sr_deadline req) \<longrightarrow> req \<in> set kept)
    \<and> db_of (conn (p_broker (snd (syncer_tick um send clk i reqs env)))) = db_of (conn (p_broker env))"
  using assms
proof (induction reqs arbitrary: i env)
  case (Cons req reqs)
  show ?case
  proof (cases "sr_deadline req < clk i")
    case True
    then have "\<not> (\<forall>j. clk j \<le> sr_deadline req)" by (meson not_le)
    then show ?thesis using Cons.IH [of env "Suc i"] Cons.prems True by auto
  next
    case False
    obtain e env' where r: "run_sync_fn um send (clk (Suc i)) (sr_ctx req) (sr_fn req) env = (e, env')"
      by fastforce
    have c: "sr_ctx req < length (p_ctx env)" "snd (p_ctx env ! sr_ctx req)" using Cons.prems by auto
    obtain err where err: "e = Some err" "db_of (conn (p_broker env')) = db_of (conn (p_broker env))"
      using run_sync_fn_canceled [OF c, of um "clk (Suc i)" "sr_fn req"] r by auto
    have "p_ctx env' = p_ctx env"
      using run_sync_fn_simps(1) [of um send "clk (Suc i)" "sr_ctx req" "sr_fn req" env] r by simp
    then have "\<forall>req \<in> set reqs. sr_ctx req < length (p_ctx env') \<and> snd (p_ctx env' ! sr_ctx req)"
      using Cons.prems by simp
    from Cons.IH [OF this, of "i + 2"] show ?thesis
      using False r err by (auto split: prod.split)
  qed
qed simp

end

subsection \<open>Recoverer\<close>

text \<open>
  \<open>t\<close> is the recoverer's reading of the clock, from which the next attempt is counted, \<open>now\<close> that
  of the broker.
\<close>

definition recover_one ::
  "nat \<Rightarrow> 's client \<Rightarrow> (int \<Rightarrow> gerror \<Rightarrow> Task \<Rightarrow> int) \<Rightarrow> (gerror \<Rightarrow> bool) \<Rightarrow> int \<Rightarrow> int \<Rightarrow> TaskMessage \<Rightarrow> 's rdb \<Rightarrow>
   gerror option \<times> 's rdb" where
  "recover_one um send retryDelayFunc isFailureFunc t now msg r =
     (let err = Sentinel ErrLeaseExpired in
      if Retried msg \<ge> Retry msg then Archive um send False now msg (Error err) r
      else (let delay = retryDelayFunc (Retried msg) err (NewTask (Type msg) (Payload msg) [])
            in RDB_Retry send False now msg (t + delay) (Error err) (isFailureFunc err) r))"

fun recover_loop where
  "recover_loop um send retryDelayFunc isFailureFunc clk i [] r = r"
| "recover_loop um send retryDelayFunc isFailureFunc clk i (msg # msgs) r =
     recover_loop um send retryDelayFunc isFailureFunc clk (i + 2) msgs
       (snd (recover_one um send retryDelayFunc isFailureFunc (clk i) (clk (Suc i)) msg r))"

definition recoverLeaseExpiredTasks ::
  "nat \<Rightarrow> 's client \<Rightarrow> (int \<Rightarrow> gerror \<Rightarrow> Task \<Rightarrow> int) \<Rightarrow> (gerror \<Rightarrow> bool) \<Rightarrow> (nat \<Rightarrow> int) \<Rightarrow> string list \<Rightarrow>
   's rdb \<Rightarrow> 's rdb" where
  "recoverLeaseExpiredTasks um send retryDelayFunc isFailureFunc clk qs r =
     (let cutoff = clk 0 + (- 30 * second_ns) in
      case ListLeaseExpired send cutoff qs r of
        (Inl e, r') \<Rightarrow> r'
      | (Inr msgs, r') \<Rightarrow> recover_loop um send retryDelayFunc isFailureFunc clk 1 msgs r')"

subsection \<open>Heartbeater\<close>

record workerInfo =
  w_msg :: TaskMessage
  w_started :: int
  w_deadline :: int
  w_lease :: Lease

record heartbeater =
  h_host :: string
  h_pid :: int
  h_serverID :: string
  h_concurrency :: int
  h_queues :: "(string \<times> int) list"
  h_strictPriority :: bool
  h_interval :: int
  h_started :: int
  h_workers :: "(string \<times> workerInfo) list"

definition worker_starting :: "workerInfo \<Rightarrow> heartbeater \<Rightarrow> heartbeater" where
  "worker_starting w h = h\<lparr>h_workers := AList.update (ID (w_msg w)) w (h_workers h)\<rparr>"

definition worker_finished :: "TaskMessage \<Rightarrow> heartbeater \<Rightarrow> heartbeater" where
  "worker_finished msg h = h\<lparr>h_workers := AList.delete (ID msg) (h_workers h)\<rparr>"

definition server_info :: "string \<Rightarrow> heartbeater \<Rightarrow> ServerInfo" where
  "server_info status h =
     \<lparr>si_Host = h_host h, si_PID = h_pid h, si_ServerID = h_serverID h, si_Concurrency = h_concurrency h,
      si_Queues = h_queues h, si_StrictPriority = h_strictPriority h, si_Status = status,
      si_Started = h_started h, si_ActiveWorkerCount = int (length (h_workers h))\<rparr>"

definition worker_info :: "heartbeater \<Rightarrow> string \<times> workerInfo \<Rightarrow> WorkerInfo" where
  "worker_info h iw =
     (case iw of (i, w) \<Rightarrow>
        \<lparr>wi_Host = h_host h, wi_PID = h_pid h, wi_ServerID = h_serverID h, wi_ID = i,
         wi_Type = Type (w_msg w), wi_Payload = Payload (w_msg w), wi_Queue = Queue (w_msg w),
         wi_Started = w_started w, wi_Deadline = w_deadline w\<rparr>)"

text \<open>\<open>idsByQueue[q] = append(idsByQueue[q], id)\<close>\<close>

definition add_id :: "string \<Rightarrow> string \<Rightarrow> (string \<times> string list) list \<Rightarrow> (string \<times> string list) list" where
  "add_id q i m = AList.update q ((case map_of m q of None \<Rightarrow> [] | Some ids \<Rightarrow> ids) @ [i]) m"

fun ids_by_queue ::
  "int \<Rightarrow> (string \<times> workerInfo) list \<Rightarrow> (string \<times> string list) list \<Rightarrow> (string \<times> string list) list" where
  "ids_by_queue now [] m = m"
| "ids_by_queue now ((i, w) # ws) m =
     ids_by_queue now ws (if IsValid now (w_lease w) then add_id (Queue (w_msg w)) i m else m)"

definition notify_worker :: "int \<Rightarrow> workerInfo \<Rightarrow> workerInfo" where
  "notify_worker now w =
     (if IsValid now (w_lease w) then w else w\<lparr>w_lease := snd (NotifyExpiration now (w_lease w))\<rparr>)"

definition notify_expired :: "int \<Rightarrow> (string \<times> workerInfo) list \<Rightarrow> (string \<times> workerInfo) list" where
  "notify_expired now ws = map (\<lambda>(i, w). (i, notify_worker now w)) ws"

text \<open>\<open>h.workers[id].lease.Reset(expirationTime)\<close> for the ids of one queue.\<close>

definition reset_leases ::
  "int \<Rightarrow> int \<Rightarrow> string list \<Rightarrow> (string \<times> workerInfo) list \<Rightarrow> (string \<times> workerInfo) list" where
  "reset_leases now expirationTime ids ws =
     map (\<lambda>(i, w). (i, if i \<in> set ids
                       then w\<lparr>w_lease := snd (Lease_Reset now expirationTime (w_lease w))\<rparr> else w)) ws"

fun extend_leases ::
  "'s client \<Rightarrow> (nat \<Rightarrow> int) \<Rightarrow> nat \<Rightarrow> (string \<times> string list) list \<Rightarrow> (string \<times> workerInfo) list \<Rightarrow> 's rdb \<Rightarrow>
   (string \<times> workerInfo) list \<times> 's rdb" where
  "extend_leases send clk i [] ws r = (ws, r)"
| "extend_leases send clk i ((qname, ids) # rest) ws r =
     (case ExtendLease send (clk i) qname ids r of
        (Inl e, r') \<Rightarrow> extend_leases send clk (i + 2) rest ws r'
      | (Inr expirationTime, r') \<Rightarrow>
          extend_leases send clk (i + 2) rest (reset_leases (clk (Suc i)) expirationTime ids ws) r')"

text \<open>
  One heartbeat. \<open>clk 0\<close> is the time of the lease checks, \<open>clk 1\<close> that of the state record,
  the later ones those of the extensions.
\<close>

definition beat ::
  "zone \<Rightarrow> 's client \<Rightarrow> (nat \<Rightarrow> int) \<Rightarrow> string \<Rightarrow>
   heartbeater \<Rightarrow> 's rdb \<Rightarrow> heartbeater \<times> 's rdb" where
  "beat zone send clk status h r =
     (let info = server_info status h;
          ws = map (worker_info h) (h_workers h);
          ids = ids_by_queue (clk 0) (h_workers h) [];
          workers = notify_expired (clk 0) (h_workers h)
      in case WriteServerState zone send (clk 1) info ws (h_interval h * 2) r of
           (_, r1) \<Rightarrow>
             (case extend_leases send clk 2 ids workers r1 of
                (workers', r2) \<Rightarrow> (h\<lparr>h_workers := workers'\<rparr>, r2)))"

definition heartbeater_shutdown :: "'s client \<Rightarrow> heartbeater \<Rightarrow> 's rdb \<Rightarrow> gerror option \<times> 's rdb" where
  "heartbeater_shutdown send h r = ClearServerState send (h_host h) (h_pid h) (h_serverID h) r"

subsection \<open>Forwarder, janitor, subscriber, health check\<close>

definition forwarder_exec where
  "forwarder_exec send clk i qs r =
     (case ForwardIfReady send clk i qs r of None \<Rightarrow> None | Some (_, i', r') \<Rightarrow> Some (i', r'))"

fun janitor_exec ::
  "'s client \<Rightarrow> (nat \<Rightarrow> int) \<Rightarrow> nat \<Rightarrow> string list \<Rightarrow> int \<Rightarrow> 's rdb \<Rightarrow> (nat \<times> 's rdb) option" where
  "janitor_exec send clk i [] batchSize r = Some (i, r)"
| "janitor_exec send clk i (q # qs) batchSize r =
     (case DeleteExpiredCompletedTasks send clk i q batchSize r of
        None \<Rightarrow> None
      | Some (_, i', r') \<Rightarrow> janitor_exec send clk i' qs batchSize r')"

text \<open>
  A message on the cancelation channel: the cancel function registered for the task, if
  any, is called. A cancel function is the context it cancels.
\<close>

definition subscriber_message :: "nat Cancelations \<Rightarrow> string \<Rightarrow> 's proc_env \<Rightarrow> 's proc_env" where
  "subscriber_message cs pl env =
     (case Cancelations_Get pl cs of Some c \<Rightarrow> cancel_ctx c env | None \<Rightarrow> env)"

text \<open>The argument the health check callback gets, when there is a callback.\<close>

definition healthchecker_exec :: "'s client \<Rightarrow> bool \<Rightarrow> 's rdb \<Rightarrow> gerror option option \<times> 's rdb" where
  "healthchecker_exec send has_callback r =
     (case Ping send r of (err, r') \<Rightarrow> (if has_callback then Some err else None, r'))"

subsection \<open>Leases\<close>

text \<open>The heartbeat asks for an extension of exactly the valid leases.\<close>

lemma map_of_add_id:
  "map_of (add_id q i m) q' = (if q' = q then Some ((case map_of m q of None \<Rightarrow> [] | Some ids \<Rightarrow> ids) @ [i]) else map_of m q')"
  by (simp add: add_id_def update_conv')

lemma distinct_add_id: "distinct (map fst m) \<Longrightarrow> distinct (map fst (add_id q i m))"
  by (simp add: add_id_def distinct_update)

definition ids_of :: "(string \<times> string list) list \<Rightarrow> string \<Rightarrow> string set" where
  "ids_of m q = (case map_of m q of None \<Rightarrow> {} | Some ids \<Rightarrow> set ids)"

lemma ids_by_queue_ids:
  "ids_of (ids_by_queue now ws m) q =
     ids_of m q \<union> {i. \<exists>w. (i, w) \<in> set ws \<and> IsValid now (w_lease w) \<and> Queue (w_msg w) = q}"
proof (induction now ws m rule: ids_by_queue.induct)
  case (2 now i w ws m)
  have "ids_of (add_id q' i m) q = (if q = q' then insert i (ids_of m q) else ids_of m q)" for q'
    by (auto simp: ids_of_def map_of_add_id split: option.split)
  then show ?case using 2 by auto
qed simp

lemma distinct_ids_by_queue:
  "distinct (map fst m) \<Longrightarrow> distinct (map fst (ids_by_queue now ws m))"
  by (induction now ws m rule: ids_by_queue.induct) (simp_all add: distinct_add_id)

text \<open>
  A worker that still trusts its lease at \<open>t\<close> is not recovered by a server whose clock is
  at most 29 seconds ahead, when Redis holds at least the lease the worker knows of.
\<close>

lemma recoverer_spares_valid:
  assumes "IsValid t l" and "unix (expireAt l) \<le> e" and "t' \<le> t + 29 * second_ns"
  shows "\<not> e \<le> unix (t' + (- 30 * second_ns))"
proof -
  have "t' + (- 30 * second_ns) \<le> expireAt l + (- 1) * second_ns"
    using assms(1,3) by (auto simp: IsValid_def second_ns_def)
  then have "unix (t' + (- 30 * second_ns)) \<le> unix (expireAt l + (- 1) * second_ns)"
    unfolding unix_def by (rule zdiv_mono1) (simp add: second_ns_def)
  also have "\<dots> = unix (expireAt l) - 1"
    unfolding unix_def by (simp add: second_ns_def)
  finally show ?thesis using assms(2) by simp
qed

text \<open>The rounds of the forwarder and of the janitor end, and keep the queues consistent.\<close>

context redis_client
begin

lemma forwarder_exec_returns:
  assumes "queues_ok qs (db_of (conn r))"
  shows "\<exists>i' r'. forwarder_exec send clk i qs r = Some (i', r') \<and> queues_ok qs (db_of (conn r'))"
  using ForwardIfReady_returns [OF assms subset_refl, of clk i] by (auto simp: forwarder_exec_def)

lemma janitor_exec_returns:
  assumes "queues_ok qs (db_of (conn r))" and "set qnames \<subseteq> set qs"
  shows "\<exists>i' r'. janitor_exec send clk i qnames batch r = Some (i', r') \<and> queues_ok qs (db_of (conn r'))"
  using assms
proof (induction qnames arbitrary: i r)
  case (Cons q qnames)
  then obtain st where st: "good_name q" "qrep q (db_of (conn r)) st" "qinv st"
    by (auto simp: queues_ok_def)
  obtain e i' r' st' where d: "DeleteExpiredCompletedTasks send clk i q batch r = Some (e, Suc i', r')"
    "qrep q (db_of (conn r')) st'" "qinv st'" "same_elsewhere q (db_of (conn r)) (db_of (conn r'))"
    using DeleteExpired_returns [OF st(2,3)] by blast
  have "queues_ok qs (db_of (conn r'))"
    by (rule queues_ok_step [OF Cons.prems(1) st(1) d(4,2,3)])
  then show ?case using Cons.IH [of r' "Suc i'"] Cons.prems(2) d(1) by simp
qed simp

end

text \<open>Extending leases in Redis: the ids that hold a lease get the new expiry.\<close>

lemma mem_zmembers: "(e, j) \<in> set z \<Longrightarrow> j \<in> set (zmembers z)"
  by (force simp: zmembers_def)

lemma mem_zadd_xx:
  "(e, j) \<in> set (zadd_xx (map (\<lambda>i. (v, i)) ids) z) \<longleftrightarrow>
     (if j \<in> set ids then j \<in> set (zmembers z) \<and> e = v else (e, j) \<in> set z)"
proof (induction ids arbitrary: z)
  case (Cons i ids)
  show ?case
  proof (cases "i \<in> set (zmembers z)")
    case True
    have "(e, j) \<in> set (zadd v i z) \<longleftrightarrow> (if j = i then e = v else (e, j) \<in> set z)"
      by (auto simp: set_zadd)
    then show ?thesis using Cons.IH [of "zadd v i z"] True by auto
  next
    case False
    then show ?thesis using Cons.IH [of z] mem_zmembers [of e j z] by auto
  qed
qed (simp add: zadd_xx_def)

definition lease_sound :: "string \<Rightarrow> (string \<times> workerInfo) list \<Rightarrow> queue_state \<Rightarrow> bool" where
  "lease_sound q ws st \<longleftrightarrow>
     (\<forall>(i, w) \<in> set ws. Queue (w_msg w) = q \<longrightarrow>
        (\<forall>e. (e, i) \<in> set (q_lease st) \<longrightarrow> unix (expireAt (w_lease w)) \<le> e))"

lemma unix_mono: "a \<le> b \<Longrightarrow> unix a \<le> unix b"
  unfolding unix_def by (rule zdiv_mono1) (simp_all add: second_ns_def)

lemma Lease_Reset_expireAt:
  "expireAt (snd (Lease_Reset now t l)) = (if IsValid now l then t else expireAt l)"
  by (simp add: Lease_Reset_def)

lemma apply_extend:
  assumes "ids \<noteq> []"
  shows "qrep q db st \<Longrightarrow> \<exists>st'. qrep q ((apply_prog (single (ZADDXX (LeaseKey q) (map (\<lambda>i. (v, i)) ids))) ^^ n) db) st'
    \<and> (st' = st \<or> (\<forall>(e, i) \<in> set (q_lease st'). if i \<in> set ids then e = v else (e, i) \<in> set (q_lease st)))
    \<and> (n \<noteq> 0 \<longrightarrow> (\<forall>(e, i) \<in> set (q_lease st'). if i \<in> set ids then e = v else (e, i) \<in> set (q_lease st)))
    \<and> set (zmembers (q_lease st')) = set (zmembers (q_lease st))"
proof (induction n)
  case (Suc n)
  then obtain st1 where st1: "qrep q ((apply_prog (single (ZADDXX (LeaseKey q) (map (\<lambda>i. (v, i)) ids))) ^^ n) db) st1"
    "st1 = st \<or> (\<forall>(e, i) \<in> set (q_lease st1). if i \<in> set ids then e = v else (e, i) \<in> set (q_lease st))"
    "set (zmembers (q_lease st1)) = set (zmembers (q_lease st))"
    by blast
  let ?st = "s_extend (map (\<lambda>i. (v, i)) ids) st1"
  have "qrep q ((apply_prog (single (ZADDXX (LeaseKey q) (map (\<lambda>i. (v, i)) ids))) ^^ Suc n) db) ?st"
    using doesD(2) [OF does_extend st1(1)] assms by (simp add: apply_prog_def)
  moreover have "\<forall>(e, i) \<in> set (q_lease ?st). if i \<in> set ids then e = v else (e, i) \<in> set (q_lease st)"
    using st1(2) by (auto simp: s_extend_def mem_zadd_xx) (metis (no_types, lifting) case_prodD)
  moreover have "set (zmembers (q_lease ?st)) = set (zmembers (q_lease st))"
    using st1(3) by (simp add: s_extend_def)
  ultimately show ?case by blast
qed auto

context redis_client
begin

lemma ExtendLease_sound:
  assumes rep: "qrep q (db_of (conn r)) st" and sound: "lease_sound q ws st"
    and past: "\<forall>(i, w) \<in> set ws. expireAt (w_lease w) \<le> now + LeaseDuration"
    and ids: "ids \<noteq> []" and run: "ExtendLease send now q ids r = (res, r')"
  shows "\<exists>st'. qrep q (db_of (conn r')) st' \<and>
    lease_sound q (case res of Inl _ \<Rightarrow> ws | Inr t \<Rightarrow> reset_leases t2 t ids ws) st' \<and>
    set (zmembers (q_lease st')) = set (zmembers (q_lease st)) \<and>
    (\<forall>t. res = Inr t \<longrightarrow> t = now + LeaseDuration
       \<and> (\<forall>i \<in> set ids. i \<in> set (zmembers (q_lease st)) \<longrightarrow> (unix t, i) \<in> set (q_lease st')))"
proof -
  let ?v = "unix (now + LeaseDuration)"
  let ?p = "single (ZADDXX (LeaseKey q) (map (\<lambda>i. (?v, i)) ids))"
  obtain res0 r0 where i: "issue send False ?p r = (res0, r0)" by fastforce
  then have r0: "r' = r0" "res = (case res0 of Inl e \<Rightarrow> Inl e | Inr _ \<Rightarrow> Inr (now + LeaseDuration))"
    using run by (auto simp: ExtendLease_def Let_def split: sum.splits)
  have low: "unix (expireAt (w_lease w)) \<le> ?v" if "(j, w) \<in> set ws" for j w
    using past that by (intro unix_mono) auto
  have keep: "lease_sound q ws st'"
    if "st' = st \<or> (\<forall>(e, i) \<in> set (q_lease st'). if i \<in> set ids then e = ?v else (e, i) \<in> set (q_lease st))" for st'
    using that sound low unfolding lease_sound_def by (fastforce split: if_splits)
  show ?thesis
  proof (cases res0)
    case (Inl e)
    obtain n where n: "db_of (conn r0) = (apply_prog ?p ^^ n) (db_of (conn r))"
      using issue_any [OF i] by blast
    from apply_extend [OF ids rep, where v = ?v and n = n] n keep show ?thesis
      using Inl r0 by auto
  next
    case (Inr v)
    from issue_ok [OF i [unfolded Inr]] obtain n where
      n: "db_of (conn r0) = (apply_prog ?p ^^ Suc n) (db_of (conn r))" by blast
    from apply_extend [OF ids rep, where v = ?v and n = "Suc n"] n obtain st' where
      st': "qrep q (db_of (conn r0)) st'"
        "\<forall>(e, i) \<in> set (q_lease st'). if i \<in> set ids then e = ?v else (e, i) \<in> set (q_lease st)"
        "set (zmembers (q_lease st')) = set (zmembers (q_lease st))"
      by auto
    have "(?v, i) \<in> set (q_lease st')" if "i \<in> set ids" "i \<in> set (zmembers (q_lease st))" for i
    proof -
      have "i \<in> set (zmembers (q_lease st'))" using that(2) st'(3) by simp
      then obtain e where "(e, i) \<in> set (q_lease st')" by (force simp: zmembers_def)
      then show ?thesis using st'(2) that(1) by fastforce
    qed
    moreover
    have "lease_sound q (reset_leases t2 (now + LeaseDuration) ids ws) st'"
      unfolding lease_sound_def reset_leases_def
    proof clarify
      fix j w e
      assume a: "(j, w) \<in> set (map (\<lambda>(i, w). (i, if i \<in> set ids
          then w\<lparr>w_lease := snd (Lease_Reset t2 (now + LeaseDuration) (w_lease w))\<rparr> else w)) ws)"
        "q = Queue (w_msg w)" "(e, j) \<in> set (q_lease st')"
      then obtain w0 where w0: "(j, w0) \<in> set ws"
        "w = (if j \<in> set ids then w0\<lparr>w_lease := snd (Lease_Reset t2 (now + LeaseDuration) (w_lease w0))\<rparr> else w0)"
        by auto
      show "unix (expireAt (w_lease w)) \<le> e"
      proof (cases "j \<in> set ids")
        case True
        then have "e = ?v" using st'(2) a(3) by fastforce
        then show ?thesis using True w0 low [OF w0(1)] by (simp add: Lease_Reset_expireAt)
      next
        case False
        then have "(e, j) \<in> set (q_lease st)" using st'(2) a(3) by fastforce
        then show ?thesis using sound False w0 a(2) by (fastforce simp: lease_sound_def)
      qed
    qed
    ultimately show ?thesis using st'(1,3) Inr r0 by auto
  qed
qed

text \<open>Expired leases are listed completely, and listing changes nothing.\<close>

lemma list_script_writes: "prog_writes {} (listLeaseExpiredCmd k c pfx)"
  by (simp add: listLeaseExpiredCmd_def)

lemma decode_all_Inr:
  "decode_all data msgs = Inr msgs' \<Longrightarrow>
   set msgs \<subseteq> set msgs' \<and> (\<forall>s \<in> set data. \<exists>m \<in> set msgs'. DecodeMessage s = Inr m)"
proof (induction data msgs rule: decode_all.induct)
  case (2 s data msgs)
  then show ?case by (auto split: sum.splits)
qed simp

lemma list_expired_complete:
  assumes "list_expired_loop send cutoff qs msgs r = (Inr msgs', r')"
  shows "set msgs \<subseteq> set msgs'
    \<and> (\<forall>q \<in> set qs. \<forall>st. qrep q (db_of (conn r)) st \<longrightarrow>
         (\<forall>m \<in> set (messages_of st (zrange_le (unix cutoff) (q_lease st))).
            \<exists>msg \<in> set msgs'. DecodeMessage m = Inr msg))
    \<and> (\<forall>k. lookup (db_of (conn r')) k = lookup (db_of (conn r)) k)"
  using assms
proof (induction qs arbitrary: msgs r)
  case (Cons q qs)
  let ?p = "listLeaseExpiredCmd (LeaseKey q) (unix cutoff) (TaskKeyPrefix q)"
  obtain res r1 where i: "issue send False ?p r = (res, r1)" by fastforce
  then obtain v where v: "res = Inr v" using Cons.prems by (cases res) (auto simp: Let_def)
  from issue_ok [OF i [unfolded v]] obtain n where
    n: "v = fst (run ?p ((apply_prog ?p ^^ n) (db_of (conn r))))"
      "db_of (conn r1) = (apply_prog ?p ^^ Suc n) (db_of (conn r))" by blast
  have same: "lookup ((apply_prog ?p ^^ k) db) key = lookup db key" for k db key
    by (induction k) (simp_all add: apply_prog_def run_frame [OF list_script_writes])
  obtain data msgs1 where d: "ToStringSliceE v = Inr data" "decode_all data msgs = Inr msgs1"
    "list_expired_loop send cutoff qs msgs1 r1 = (Inr msgs', r')"
    using Cons.prems i v by (auto simp: Let_def split: sum.splits)
  note IH = Cons.IH [OF d(3)]
  have l1: "lookup (db_of (conn r1)) key = lookup (db_of (conn r)) key" for key
    unfolding n(2) by (rule same)
  have mine: "\<exists>msg \<in> set msgs'. DecodeMessage m = Inr msg"
    if st: "qrep q (db_of (conn r)) st" and m: "m \<in> set (messages_of st (zrange_le (unix cutoff) (q_lease st)))" for st m
  proof -
    have "qrep q ((apply_prog ?p ^^ n) (db_of (conn r))) st"
      by (rule qrep_cong [OF st]) (rule same)
    then have "v = RArr (map RBulk (messages_of st (zrange_le (unix cutoff) (q_lease st))))"
      using n(1) doesD(1) [OF does_list_lease_expired] by simp
    then have "data = messages_of st (zrange_le (unix cutoff) (q_lease st))"
      using d(1) by (simp add: comp_def)
    then show ?thesis using decode_all_Inr [OF d(2)] m IH by blast
  qed
  have others: "qrep q' (db_of (conn r1)) st" if "qrep q' (db_of (conn r)) st" for q' st
    by (rule qrep_cong [OF that]) (rule l1)
  show ?case
    using IH mine others decode_all_Inr [OF d(2)] l1 by (auto, blast+)
qed simp

end

end
