(* ===== verification/LifeCycle.thy ===== *)
theory LifeCycle
  imports RdbFacts
begin

text \<open>
  The life of a task in Redis. \<open>stage_move\<close> lists the changes of state each script may make;
  \<open>execution\<close> is a sequence of operations of any clients and servers on any queues, with the
  operations in a trace. What is said of a task is said of the contents of Redis:
  \<open>collection db q s\<close> are the IDs stored under the key of the state \<open>s\<close>.
\<close>

subsection \<open>The moves of the scripts\<close>

fun stage_move :: "qop \<Rightarrow> string \<Rightarrow> TaskState option \<Rightarrow> TaskState option \<Rightarrow> bool" where
  "stage_move (Op_enqueue i _ _) tid a b \<longleftrightarrow> i = tid \<and> a = None \<and> b = Some TaskStatePending"
| "stage_move (Op_enqueue_unique _ i _ _ _) tid a b \<longleftrightarrow> i = tid \<and> a = None \<and> b = Some TaskStatePending"
| "stage_move (Op_schedule i _ _) tid a b \<longleftrightarrow> i = tid \<and> a = None \<and> b = Some TaskStateScheduled"
| "stage_move (Op_schedule_unique _ i _ _ _) tid a b \<longleftrightarrow> i = tid \<and> a = None \<and> b = Some TaskStateScheduled"
| "stage_move (Op_dequeue _) tid a b \<longleftrightarrow> a = Some TaskStatePending \<and> b = Some TaskStateActive"
| "stage_move (Op_done i _ _) tid a b \<longleftrightarrow> i = tid \<and> a = Some TaskStateActive \<and> b = None"
| "stage_move (Op_done_unique _ i _ _) tid a b \<longleftrightarrow> i = tid \<and> a = Some TaskStateActive \<and> b = None"
| "stage_move (Op_complete i _ _ _ _) tid a b \<longleftrightarrow>
     i = tid \<and> a = Some TaskStateActive \<and> b = Some TaskStateCompleted"
| "stage_move (Op_requeue i) tid a b \<longleftrightarrow> i = tid \<and> a = Some TaskStateActive \<and> b = Some TaskStatePending"
| "stage_move (Op_retry i _ _ _ _ _) tid a b \<longleftrightarrow>
     i = tid \<and> a = Some TaskStateActive \<and> b = Some TaskStateRetry"
| "stage_move (Op_archive i _ _ _ _ _ _) tid a b \<longleftrightarrow>
     i = tid \<and> a = Some TaskStateActive \<and> b = Some TaskStateArchived
     \<or> i \<noteq> tid \<and> a = Some TaskStateArchived \<and> b = None"
| "stage_move (Op_forward d _ _) tid a b \<longleftrightarrow> a = Some (delayed_state d) \<and> b = Some TaskStatePending"
| "stage_move (Op_expire _ _) tid a b \<longleftrightarrow> a = Some TaskStateCompleted \<and> b = None"
| "stage_move _ tid a b \<longleftrightarrow> False"

definition moved :: "qop \<Rightarrow> string \<Rightarrow> string option \<Rightarrow> string option \<Rightarrow> bool" where
  "moved op tid x y \<longleftrightarrow> y = x \<or>
     (\<exists>a b. stage_move op tid a b \<and> x = map_option TaskState_String a \<and> y = map_option TaskState_String b)"

lemma movedI:
  "stage_move op tid a b \<Longrightarrow> x = map_option TaskState_String a \<Longrightarrow> y = map_option TaskState_String b \<Longrightarrow> moved op tid x y"
  by (auto simp: moved_def)

lemma state_put_fields:
  "state_of (put_fields tid ps st) i =
     (if i = tid then (case map_of (rev ps) ''state'' of None \<Rightarrow> state_of st i | Some v \<Rightarrow> Some v) else state_of st i)"
  by (auto simp: state_of_def field_of_def map_of_hset_all map_add_def split: option.split)

lemma state_same_tasks: "q_tasks st' = q_tasks st \<Longrightarrow> state_of st' tid = state_of st tid"
  by (simp add: state_of_def field_of_def)

lemma state_unchanged [simp]:
  "state_of (s_release t st) tid = state_of st tid" "state_of (s_count_done st) tid = state_of st tid"
  "state_of (s_count_failed st) tid = state_of st tid" "state_of (s_lock u t st) tid = state_of st tid"
  "state_of (s_unlock u t st) tid = state_of st tid" "state_of (s_extend ps st) tid = state_of st tid"
  "state_of (st\<lparr>q_pending := xs\<rparr>) tid = state_of st tid" "state_of (st\<lparr>q_scheduled := z\<rparr>) tid = state_of st tid"
  "state_of (st\<lparr>q_retry := z\<rparr>) tid = state_of st tid" "state_of (st\<lparr>q_completed := z\<rparr>) tid = state_of st tid"
  "state_of (st\<lparr>q_archived := z\<rparr>) tid = state_of st tid" "state_of (set_delayed d z st) tid = state_of st tid"
  "state_of (drop_locks U st) tid = state_of st tid"
  by (rule state_same_tasks, simp add: s_release_def s_count_done_def s_count_failed_def s_lock_def
      s_unlock_def s_extend_def drop_locks_def)+

lemma state_dropped: "state_of (drop_task t st) tid = (if tid = t then None else state_of st tid)"
  by (simp add: state_of_def field_of_def)

lemma state_forward:
  "state_of (fold (s_forward1 d now) ids st) tid = (if tid \<in> set ids then Some ''pending'' else state_of st tid)"
  by (induction ids arbitrary: st) (auto simp: s_forward1_def state_put_fields)

lemma state_expire:
  "state_of (fold s_expire1 ids st) tid = (if tid \<in> set ids then None else state_of st tid)"
  by (induction ids arbitrary: st) (auto simp: s_expire1_def state_dropped)

lemma state_trim: "state_of (s_trim ids st) tid = (if tid \<in> set ids then None else state_of st tid)"
  by (simp add: state_of_def field_of_def)

lemma free_state: "q_tasks st tid = [] \<Longrightarrow> state_of st tid = None"
  by (simp add: state_of_def field_of_def)

lemma qinv_state: "qinv st \<Longrightarrow> tid \<in> in_state st s \<Longrightarrow> state_of st tid = Some (TaskState_String s)"
  by (rule placedD [OF qinv_parts(4)])

lemma moved_archive:
  assumes "qinv st" and "i \<in> set (q_active st)"
  shows "moved (Op_archive i msg t died cutoff ms e) tid (state_of st tid) (state_of (s_archive i died cutoff ms msg st) tid)"
proof -
  define st1 where "st1 = (s_release i st)\<lparr>q_archived := zadd died i (q_archived st)\<rparr>"
  define st2 where "st2 = s_trim (archive_old cutoff st1) st1"
  have s: "state_of (s_archive i died cutoff ms msg st) tid =
      (if tid = i then Some ''archived''
       else if tid \<in> set (archive_extra ms st2) \<union> set (archive_old cutoff st1) then None else state_of st tid)"
    by (auto simp: s_archive_def Let_def st1_def st2_def state_put_fields state_trim)
  have "set (archive_old cutoff st1) \<subseteq> set (zmembers (q_archived st1))"
    "set (archive_extra ms st2) \<subseteq> set (zmembers (q_archived st2))"
    unfolding archive_old_def archive_extra_def by (rule set_zrange_le_sub, rule set_zrange_idx_sub)
  then have sub: "set (archive_extra ms st2) \<union> set (archive_old cutoff st1) \<subseteq> insert i (in_state st TaskStateArchived)"
    by (auto simp: st1_def st2_def)
  show ?thesis
  proof (cases "tid = i")
    case True
    have "state_of st i = Some (TaskState_String TaskStateActive)" using assms by (intro qinv_state) auto
    then show ?thesis
      using True s by (intro movedI [where a = "Some TaskStateActive" and b = "Some TaskStateArchived"]) auto
  next
    case False
    show ?thesis
    proof (cases "tid \<in> set (archive_extra ms st2) \<union> set (archive_old cutoff st1)")
      case True
      then have "state_of st tid = Some (TaskState_String TaskStateArchived)"
        using sub False by (intro qinv_state [OF assms(1)]) auto
      then show ?thesis
        using True False s by (intro movedI [where a = "Some TaskStateArchived" and b = None]) auto
    next
      case False
      then show ?thesis using s \<open>tid \<noteq> i\<close> by (auto simp: moved_def)
    qed
  qed
qed

lemma moved_settle:
  assumes "qinv st" and "settles op = Some i"
    and "i \<in> set (q_active st) \<Longrightarrow> state_of st' tid = (if tid = i then map_option TaskState_String b else state_of st tid)"
    and "stage_move op i (Some TaskStateActive) b"
    and "i \<notin> set (q_active st) \<Longrightarrow> st' = st"
  shows "moved op tid (state_of st tid) (state_of st' tid)"
proof (cases "i \<in> set (q_active st) \<and> tid = i")
  case True
  then have "state_of st tid = map_option TaskState_String (Some TaskStateActive)"
    using qinv_state [OF assms(1), of i TaskStateActive] by simp
  then show ?thesis using assms(3,4) True by (intro movedI) auto
next
  case False
  then show ?thesis using assms(3,5) by (auto simp: moved_def)
qed

text \<open>Every operation moves every task along the life cycle, or leaves it where it is.\<close>

lemma qop_moves:
  assumes "qinv st"
  shows "moved op tid (state_of st tid) (state_of (snd (qop_effect q op st)) tid)"
proof (cases op)
  case (Op_enqueue i msg now)
  show ?thesis
  proof (cases "tid = i \<and> q_tasks st i = []")
    case True
    then show ?thesis
      by (intro movedI [where a = None and b = "Some TaskStatePending"])
         (auto simp: Op_enqueue s_enqueue_def state_put_fields free_state)
  qed (auto simp: Op_enqueue moved_def s_enqueue_def state_put_fields)
next
  case (Op_enqueue_unique u i ttl msg now)
  show ?thesis
  proof (cases "tid = i \<and> q_tasks st i = [] \<and> 0 < ttl \<and> q_locks st u = None")
    case True
    then show ?thesis
      by (intro movedI [where a = None and b = "Some TaskStatePending"])
         (auto simp: Op_enqueue_unique add_unique_def s_enqueue_def state_put_fields free_state)
  qed (auto simp: Op_enqueue_unique add_unique_def moved_def s_enqueue_def state_put_fields)
next
  case (Op_schedule i msg at)
  show ?thesis
  proof (cases "tid = i \<and> q_tasks st i = []")
    case True
    then show ?thesis
      by (intro movedI [where a = None and b = "Some TaskStateScheduled"])
         (auto simp: Op_schedule s_schedule_def state_put_fields free_state)
  qed (auto simp: Op_schedule moved_def s_schedule_def state_put_fields)
next
  case (Op_schedule_unique u i ttl at msg)
  show ?thesis
  proof (cases "tid = i \<and> q_tasks st i = [] \<and> 0 < ttl \<and> q_locks st u = None")
    case True
    then show ?thesis
      by (intro movedI [where a = None and b = "Some TaskStateScheduled"])
         (auto simp: Op_schedule_unique add_unique_def s_schedule_def state_put_fields free_state)
  qed (auto simp: Op_schedule_unique add_unique_def moved_def s_schedule_def state_put_fields)
next
  case (Op_dequeue e)
  show ?thesis
  proof (cases "q_paused st \<or> q_pending st = []")
    case True
    then show ?thesis by (simp add: Op_dequeue s_dequeue_def moved_def)
  next
    case False
    then have s: "state_of (snd (s_dequeue e st)) tid =
        (if tid = last (q_pending st) then Some ''active'' else state_of st tid)"
      by (simp add: s_dequeue_Some state_of_def field_of_def delete_conv' map_of_hset_all map_add_def)
    have "state_of st (last (q_pending st)) = map_option TaskState_String (Some TaskStatePending)"
      using False qinv_state [OF assms, of "last (q_pending st)" TaskStatePending] by simp
    then show ?thesis
      unfolding Op_dequeue using s
      by (cases "tid = last (q_pending st)")
         (auto simp: moved_def intro!: movedI [where a = "Some TaskStatePending" and b = "Some TaskStateActive"])
  qed
next
  case (Op_done i t e)
  show ?thesis
    by (rule moved_settle [OF assms, where i = i and b = None])
       (auto simp: Op_done settle_def s_done_def state_dropped)
next
  case (Op_done_unique u i t e)
  show ?thesis
    by (rule moved_settle [OF assms, where i = i and b = None])
       (auto simp: Op_done_unique settle_def s_done_def state_dropped)
next
  case (Op_complete i t e at msg)
  show ?thesis
    by (rule moved_settle [OF assms, where i = i and b = "Some TaskStateCompleted"])
       (auto simp: Op_complete settle_def s_complete_def state_put_fields)
next
  case (Op_requeue i)
  show ?thesis
    by (rule moved_settle [OF assms, where i = i and b = "Some TaskStatePending"])
       (auto simp: Op_requeue settle_def s_requeue_def state_put_fields)
next
  case (Op_retry i msg t at e f)
  show ?thesis
    by (rule moved_settle [OF assms, where i = i and b = "Some TaskStateRetry"])
       (auto simp: Op_retry settle_def s_retry_def state_put_fields)
next
  case (Op_archive i msg t died cutoff ms e)
  show ?thesis
    using moved_archive [OF assms]
    by (cases "i \<in> set (q_active st)") (simp_all add: Op_archive settle_def moved_def)
next
  case (Op_forward d now ns)
  have "set (take 100 (due d now st)) \<subseteq> set (zmembers (get_delayed d st))"
    using set_zrange_le_sub [of now "get_delayed d st"] by (auto simp: due_def dest: in_set_takeD)
  also have "\<dots> = in_state st (delayed_state d)" by (cases d) simp_all
  finally have "tid \<in> set (take 100 (due d now st)) \<Longrightarrow>
      state_of st tid = map_option TaskState_String (Some (delayed_state d))"
    using qinv_state [OF assms] by auto
  then show ?thesis
    by (cases "tid \<in> set (take 100 (due d now st))")
       (auto simp: Op_forward s_forward_def state_forward moved_def
         intro!: movedI [where b = "Some TaskStatePending"])
next
  case (Op_expire now batch)
  let ?ids = "limit (Some (0, batch)) (zrange_le now (q_completed st))"
  have "tid \<in> set ?ids \<Longrightarrow> tid \<in> in_state st TaskStateCompleted"
    using set_limit_sub set_zrange_le_sub by fastforce
  then have "tid \<in> set ?ids \<Longrightarrow> state_of st tid = map_option TaskState_String (Some TaskStateCompleted)"
    using qinv_state [OF assms, of tid TaskStateCompleted] by auto
  then show ?thesis
    by (cases "tid \<in> set ?ids")
       (auto simp: Op_expire s_expire_def state_expire moved_def intro!: movedI [where b = None])
next
  case (Op_result i data)
  then show ?thesis by (simp add: moved_def s_result_def state_put_fields)
qed (simp_all add: moved_def)

subsection \<open>Executions\<close>

text \<open>As \<open>reach\<close>, from any keyspace and with the operations that were run, oldest first.\<close>

inductive execution :: "nat \<Rightarrow> string set \<Rightarrow> keyspace \<Rightarrow> (string \<times> qop) list \<Rightarrow> keyspace \<Rightarrow> bool"
  for um :: nat and B :: "string set" and db0 :: keyspace where
  start: "execution um B db0 [] db0"
| operate: "execution um B db0 tr db \<Longrightarrow> good_name q \<Longrightarrow> (\<And>st. q \<notin> B \<Longrightarrow> qrep q db st \<Longrightarrow> trim_fits um op st) \<Longrightarrow>
    execution um B db0 (tr @ [(q, op)]) (snd (run (qop_prog um q op) db))"
| pass: "execution um B db0 tr db \<Longrightarrow> srv_ms db \<le> t \<Longrightarrow> execution um B db0 tr (advance t db)"
| elsewhere: "execution um B db0 tr db \<Longrightarrow> prog_writes W p \<Longrightarrow> (\<And>q. W \<inter> queue_keys q = {}) \<Longrightarrow>
    execution um B db0 tr (snd (run (p :: reply prog) db))"

inductive_cases execution_NilE: "execution um B db0 [] db"

lemma reach_execution: "reach um B n db0 \<Longrightarrow> execution um B db0 tr db \<Longrightarrow> reach um B (n + length tr) db"
  by (rotate_tac, induction rule: execution.induct) (auto intro: reach.intros)

text \<open>
  The representation of one queue followed along an execution: a property of the queue that
  the operations of the trace on this queue keep, and that does not depend on the locks.
\<close>

lemma execution_keeps:
  assumes "execution um B db0 tr db" and "n + length tr < 2 ^ 61" and "good_name q" and "q \<notin> B"
    and "qrep q db0 st0" "qinv st0" "0 \<le> q_daily st0" "q_daily st0 \<le> 2 * int n" "q_failed st0 \<le> int n"
    and "P st0"
    and "\<And>op st. (q, op) \<in> set tr \<Longrightarrow> qinv st \<Longrightarrow> P st \<Longrightarrow> P (snd (qop_effect q op st))"
    and "\<And>U st. P st \<Longrightarrow> P (drop_locks U st)"
  shows "\<exists>st. qrep q db st \<and> qinv st \<and> P st \<and> 0 \<le> q_daily st
    \<and> q_daily st \<le> 2 * int (n + length tr) \<and> q_failed st \<le> int (n + length tr)"
  using assms
proof (induction rule: execution.induct)
  case start
  then show ?case by auto
next
  case (operate tr db q' op)
  obtain st where st: "qrep q db st" "qinv st" "P st" "0 \<le> q_daily st"
    "q_daily st \<le> 2 * int (n + length tr)" "q_failed st \<le> int (n + length tr)"
    using operate.IH operate.prems by auto
  show ?case
  proof (cases "q = q'")
    case True
    have "counters_ok st"
      using st operate.prems(1) by (simp add: counters_ok_def max_int64_def)
    from qop_refines [OF st(2) this operate.hyps(3), of q'] st(1) True operate.prems(3)
    have "qrep q (snd (run (qop_prog um q' op) db)) (snd (qop_effect q' op st))"
      by (simp add: doesD)
    moreover have "P (snd (qop_effect q' op st))"
      using operate.prems(10) [of op st] st(2,3) True by simp
    ultimately show ?thesis
      using qinv_qop [OF st(2), of q' op] qop_counters [of st q' op] st(4-6)
      by (intro exI [of _ "snd (qop_effect q' op st)"]) (auto simp: counts_from_def)
  next
    case False
    have "qrep q (snd (run (qop_prog um q' op) db)) st"
      using qrep_other [OF qop_prog_writes operate.hyps(2) operate.prems(2) False st(1)] .
    then show ?thesis using st(2-6) by (intro exI [of _ st]) auto
  qed
next
  case (pass tr db t)
  obtain st where st: "qrep q db st" "qinv st" "P st" "0 \<le> q_daily st"
    "q_daily st \<le> 2 * int (n + length tr)" "q_failed st \<le> int (n + length tr)"
    using pass.IH pass.prems by auto
  from qrep_advance [OF st(1) pass.hyps(2)] obtain U where "qrep q (advance t db) (drop_locks U st)" ..
  moreover have "qinv (drop_locks U st)"
    by (rule qinv_same_data [OF st(2)]) (simp_all add: drop_locks_def)
  ultimately show ?case
    using st(4-6) pass.prems(11) [OF st(3)] by (intro exI [of _ "drop_locks U st"]) (simp add: drop_locks_def)
next
  case (elsewhere tr db W p)
  obtain st where st: "qrep q db st" "qinv st" "P st" "0 \<le> q_daily st"
    "q_daily st \<le> 2 * int (n + length tr)" "q_failed st \<le> int (n + length tr)"
    using elsewhere.IH elsewhere.prems by auto
  have "lookup (snd (run p db)) (kname q k) = lookup db (kname q k)" for k
    using elsewhere.hyps(3) [of q] by (intro run_frame [OF elsewhere.hyps(2)]) auto
  then have "qrep q (snd (run p db)) st" using qrep_cong [OF st(1)] by blast
  then show ?case using st(2-6) by (intro exI [of _ st]) auto
qed

subsection \<open>What Redis holds\<close>

definition list_at :: "keyspace \<Rightarrow> string \<Rightarrow> string set" where
  "list_at db k = (case get_list db k of None \<Rightarrow> {} | Some xs \<Rightarrow> set xs)"

definition zset_at :: "keyspace \<Rightarrow> string \<Rightarrow> string set" where
  "zset_at db k = (case get_zset db k of None \<Rightarrow> {} | Some z \<Rightarrow> set (zmembers z))"

fun collection :: "keyspace \<Rightarrow> string \<Rightarrow> TaskState \<Rightarrow> string set" where
  "collection db q TaskStatePending = list_at db (PendingKey q)"
| "collection db q TaskStateActive = list_at db (ActiveKey q)"
| "collection db q TaskStateScheduled = zset_at db (ScheduledKey q)"
| "collection db q TaskStateRetry = zset_at db (RetryKey q)"
| "collection db q TaskStateArchived = zset_at db (ArchivedKey q)"
| "collection db q TaskStateCompleted = zset_at db (CompletedKey q)"

definition stored_field :: "keyspace \<Rightarrow> string \<Rightarrow> string \<Rightarrow> string \<Rightarrow> string option" where
  "stored_field db q tid f = (case get_hash db (TaskKey q tid) of None \<Rightarrow> None | Some h \<Rightarrow> map_of h f)"

lemma collection_rep:
  assumes "qrep q db st"
  shows "collection db q s = in_state st s" and "stored_field db q tid f = field_of st tid f"
  using get_rep [OF assms]
  by (cases s; simp add: list_at_def zset_at_def key_simps)
     (simp add: stored_field_def field_of_def key_simps get_rep(3) [OF assms])

text \<open>The operations that end the life of a task, and the states before that.\<close>

fun ends :: "qop \<Rightarrow> string option" where
  "ends (Op_done i _ _) = Some i"
| "ends (Op_done_unique _ i _ _) = Some i"
| "ends (Op_complete i _ _ _ _) = Some i"
| "ends (Op_archive i _ _ _ _ _ _) = Some i"
| "ends _ = None"

definition unfinished :: "TaskState set" where
  "unfinished = {TaskStatePending, TaskStateActive, TaskStateScheduled, TaskStateRetry}"

lemma stage_move_unfinished:
  "stage_move op tid (Some s) b \<Longrightarrow> s \<in> unfinished \<Longrightarrow> ends op \<noteq> Some tid \<Longrightarrow> \<exists>s' \<in> unfinished. b = Some s'"
  by (cases op) (auto simp: unfinished_def)

lemma stage_move_active:
  "stage_move op tid (Some TaskStateActive) b \<Longrightarrow> settles op = Some tid"
  by (cases op) (auto elim: delayed_state.elims dest: sym)

lemma map_state_eq [simp]: "Some (TaskState_String s) = map_option TaskState_String a \<longleftrightarrow> a = Some s"
  by (cases a) auto

lemma unfinished_kept:
  assumes "qinv st" and "s \<in> unfinished" and "tid \<in> in_state st s" and "ends op \<noteq> Some tid"
  shows "\<exists>s' \<in> unfinished. tid \<in> in_state (snd (qop_effect q op st)) s'"
proof -
  let ?st' = "snd (qop_effect q op st)"
  have x: "state_of st tid = Some (TaskState_String s)" by (rule qinv_state [OF assms(1,3)])
  have "\<exists>s' \<in> unfinished. state_of ?st' tid = Some (TaskState_String s')"
    using qop_moves [OF assms(1), of op tid q] assms(2) stage_move_unfinished [OF _ assms(2,4)]
    by (fastforce simp: moved_def x)
  then show ?thesis
    using not_lostD [OF qinv_parts(5) [OF qinv_qop [OF assms(1)]]] by (fastforce simp: unfinished_def)
qed

lemma active_kept:
  assumes "qinv st" and "tid \<in> set (q_active st)" and "settles op \<noteq> Some tid"
  shows "tid \<in> set (q_active (snd (qop_effect q op st)))"
proof -
  have "state_of st tid = Some (TaskState_String TaskStateActive)"
    using qinv_state [OF assms(1), of tid TaskStateActive] assms(2) by simp
  then have "state_of (snd (qop_effect q op st)) tid = Some (TaskState_String TaskStateActive)"
    using qop_moves [OF assms(1), of op tid q] stage_move_active assms(3)
    by (auto simp: moved_def simp del: TaskState_String.simps)
  then show ?thesis
    using not_lostD [OF qinv_parts(5) [OF qinv_qop [OF assms(1)]], of q op tid TaskStateActive] by simp
qed

subsection \<open>The pending list as a queue\<close>

fun replies :: "reply prog list \<Rightarrow> keyspace \<Rightarrow> reply list" where
  "replies [] db = []"
| "replies (p # ps) db = fst (run p db) # replies ps (snd (run p db))"

text \<open>The reference: a first-in first-out queue of messages.\<close>

fun fifo :: "string list \<Rightarrow> qop list \<Rightarrow> reply list" where
  "fifo ms (Op_enqueue _ m _ # ops) = RInt 1 # fifo (ms @ [m]) ops"
| "fifo [] (Op_dequeue _ # ops) = RNil # fifo [] ops"
| "fifo (m # ms) (Op_dequeue _ # ops) = RBulk m # fifo ms ops"
| "fifo ms _ = []"

fun put_or_take :: "qop \<Rightarrow> bool" where
  "put_or_take (Op_enqueue _ _ _) = True"
| "put_or_take (Op_dequeue _) = True"
| "put_or_take _ = False"

fun put_ids :: "qop list \<Rightarrow> string list" where
  "put_ids [] = []"
| "put_ids (Op_enqueue i _ _ # ops) = i # put_ids ops"
| "put_ids (_ # ops) = put_ids ops"

definition next_messages :: "queue_state \<Rightarrow> string list" where
  "next_messages st = map (\<lambda>i. the (field_of st i ''msg'')) (rev (q_pending st))"

lemma waiting_enqueue:
  assumes "qinv st" and "q_tasks st i = []"
  shows "next_messages (s_enqueue m i now [] st) = next_messages st @ [m]"
proof -
  have "i \<notin> set (q_pending st)"
    using placed_absent [OF qinv_parts(4) [OF assms(1)] assms(2), of TaskStatePending] by simp
  then have "map (\<lambda>j. the (field_of (s_enqueue m i now [] st) j ''msg'')) (rev (q_pending st)) = next_messages st"
    unfolding next_messages_def by (intro map_cong) (auto simp: s_enqueue_def field_of_def)
  then show ?thesis
    by (simp add: next_messages_def s_enqueue_def field_of_def map_of_hset_all map_add_def)
qed

lemma waiting_dequeue:
  assumes "qinv st" and "\<not> q_paused st" and "q_pending st \<noteq> []"
  shows "next_messages st = the (field_of st (last (q_pending st)) ''msg'') # next_messages (snd (s_dequeue e st))"
    and "fst (s_dequeue e st) = Some (hd (next_messages st))"
proof -
  obtain xs i where p: "q_pending st = xs @ [i]" using assms(3) by (metis append_butlast_last_id)
  have "i \<notin> set xs" using qinv_parts(2) [OF assms(1)] p by simp
  then have "map (\<lambda>j. the (field_of (snd (s_dequeue e st)) j ''msg'')) (rev xs) = map (\<lambda>j. the (field_of st j ''msg'')) (rev xs)"
    using assms(2,3) p by (intro map_cong) (auto simp: s_dequeue_Some field_of_def)
  moreover have "q_pending (snd (s_dequeue e st)) = xs" using assms(2,3) p by (simp add: s_dequeue_Some)
  ultimately show w: "next_messages st = the (field_of st (last (q_pending st)) ''msg'') # next_messages (snd (s_dequeue e st))"
    by (simp add: next_messages_def p)
  have "field_of st i ''msg'' \<noteq> None" using qinv_msg [OF assms(1), of i TaskStatePending] p by simp
  then show "fst (s_dequeue e st) = Some (hd (next_messages st))"
    using w assms(2,3) p by (auto simp: s_dequeue_Some)
qed

lemma fifo_replies:
  assumes "qinv st" and "qrep q db st" and "counters_ok st" and "\<not> q_paused st"
    and "list_all put_or_take ops" and "distinct (put_ids ops)" and "\<And>i. i \<in> set (put_ids ops) \<Longrightarrow> q_tasks st i = []"
  shows "replies (map (qop_prog um q) ops) db = fifo (next_messages st) ops"
  using assms
proof (induction ops arbitrary: st db)
  case Nil
  then show ?case by simp
next
  case (Cons op ops)
  have fits: "trim_fits um op st" using Cons.prems(5) by (cases op) simp_all
  note d = qop_refines [OF Cons.prems(1,3) fits, of q]
  let ?st' = "snd (qop_effect q op st)"
  have next_: "qrep q (snd (run (qop_prog um q op) db)) ?st'" "qinv ?st'"
    using doesD(2) [OF d Cons.prems(2)] qinv_qop [OF Cons.prems(1)] by auto
  have reply: "fst (run (qop_prog um q op) db) = fst (qop_effect q op st)"
    using doesD(1) [OF d Cons.prems(2)] .
  show ?case
  proof (cases op)
    case (Op_enqueue i m now)
    then have free: "q_tasks st i = []" using Cons.prems(7) by simp
    then have st': "?st' = s_enqueue m i now [] st" by (simp add: Op_enqueue)
    have "replies (map (qop_prog um q) ops) (snd (run (qop_prog um q op) db)) = fifo (next_messages ?st') ops"
      using Cons.prems(3-7) Op_enqueue
      by (intro Cons.IH next_) (auto simp: st' counters_ok_def s_enqueue_def)
    then show ?thesis
      using reply free waiting_enqueue [OF Cons.prems(1) free] by (simp add: Op_enqueue)
  next
    case (Op_dequeue e)
    have keep: "q_tasks ?st' i = []" if "q_tasks st i = []" for i
    proof -
      have "i \<notin> set (q_pending st)"
        using placed_absent [OF qinv_parts(4) [OF Cons.prems(1)] that, of TaskStatePending] by simp
      then have "q_pending st \<noteq> [] \<Longrightarrow> i \<noteq> last (q_pending st)" by auto
      then show ?thesis using that by (simp add: Op_dequeue s_dequeue_def Let_def)
    qed
    have ih: "replies (map (qop_prog um q) ops) (snd (run (qop_prog um q op) db)) = fifo (next_messages ?st') ops"
      using Cons.prems(3-7) Op_dequeue keep
      by (intro Cons.IH next_) (auto simp: counters_ok_def s_dequeue_def Let_def)
    show ?thesis
    proof (cases "q_pending st = []")
      case True
      then show ?thesis
        using ih reply by (simp add: Op_dequeue s_dequeue_def next_messages_def bulk_or_nil_def)
    next
      case False
      note w = waiting_dequeue [OF Cons.prems(1,4) False, of e]
      then show ?thesis
        using ih reply by (cases "next_messages st") (simp_all add: Op_dequeue bulk_or_nil_def)
    qed
  qed (use Cons.prems(5) in simp_all)
qed

text \<open>The same, read off Redis.\<close>

definition pending_messages :: "keyspace \<Rightarrow> string \<Rightarrow> string list" where
  "pending_messages db q =
     (case get_list db (PendingKey q) of
        None \<Rightarrow> []
      | Some xs \<Rightarrow> map (\<lambda>i. the (stored_field db q i ''msg'')) (rev xs))"

lemma pending_messages_rep: "qrep q db st \<Longrightarrow> pending_messages db q = next_messages st"
  using get_rep(1) [of q db st KPending]
  by (simp add: pending_messages_def next_messages_def collection_rep(2) key_simps)

lemma paused_rep: "qrep q db st \<Longrightarrow> present db (PausedKey q) \<longleftrightarrow> q_paused st"
  using qrepD [of q db st KPaused] by (auto simp: present_def key_simps paused_ok_def split: option.splits)

lemma task_present_rep: "qrep q db st \<Longrightarrow> present db (TaskKey q i) \<longleftrightarrow> q_tasks st i \<noteq> []"
  using get_rep(4) [of q db st i] by (simp add: key_simps)

end
