(* ===== verification/Recovery.thy ===== *)
theory Recovery
  imports Workers LifeCycle
begin

text \<open>
  A whole round of the recoverer, \<open>recoverLeaseExpiredTasks\<close> of \<open>recoverer.go\<close>: which tasks it finds,
  and that it leaves every other task alone. The second part is shown on Redis itself, command
  by command, so it needs nothing of the state of the queue: neither bounds of the counters nor
  of the trims of the archive.
\<close>

subsection \<open>Programs that keep a property of the keyspace\<close>

primrec prog_keeps :: "(keyspace \<Rightarrow> bool) \<Rightarrow> 'a prog \<Rightarrow> bool" where
  "prog_keeps P (Ret x) = True"
| "prog_keeps P (Call c f) = ((\<forall>db. P db \<longrightarrow> P (snd (exec_cmd c db))) \<and> (\<forall>r. prog_keeps P (f r)))"

lemma run_keeps: "prog_keeps P p \<Longrightarrow> P db \<Longrightarrow> P (snd (run p db))"
  by (induction p arbitrary: db) auto

lemma prog_keeps_call:
  assumes "\<And>db. P db \<Longrightarrow> P (snd (exec_cmd c db))" and "\<And>r. prog_keeps P (k r)"
  shows "prog_keeps P (call c k)"
  using assms by (auto simp: call_def split: reply.split)

lemma prog_keeps_frame:
  assumes "prog_writes W p" and "\<And>db db'. (\<And>k. k \<notin> W \<Longrightarrow> lookup db' k = lookup db k) \<Longrightarrow> P db \<Longrightarrow> P db'"
  shows "prog_keeps P p"
  using assms(1)
proof (induction p)
  case (Call c f)
  then have "k \<notin> W \<Longrightarrow> lookup (snd (exec_cmd c db)) k = lookup db k" for k db
    by (intro exec_cmd_frame) auto
  then have "P db \<Longrightarrow> P (snd (exec_cmd c db))" for db by (rule assms(2))
  then show ?case using Call by auto
qed simp

subsection \<open>A task under its lease\<close>

definition under_lease :: "string \<Rightarrow> string \<Rightarrow> int \<Rightarrow> keyspace \<Rightarrow> bool" where
  "under_lease q tid e db \<longleftrightarrow>
     (\<exists>xs. get_list db (ActiveKey q) = Some xs \<and> tid \<in> set xs)
     \<and> (\<exists>z. get_zset db (LeaseKey q) = Some z \<and> (e, tid) \<in> set z)"

lemma under_lease_rep:
  "qrep q db st \<Longrightarrow> under_lease q tid e db \<longleftrightarrow> tid \<in> set (q_active st) \<and> (e, tid) \<in> set (q_lease st)"
  using get_rep(1) [of q db st KActive] get_rep(2) [of q db st KLease] by (simp add: under_lease_def key_simps)

lemma under_lease_frame:
  assumes "prog_writes W p" and "ActiveKey q \<notin> W" and "LeaseKey q \<notin> W"
  shows "prog_keeps (under_lease q tid e) p"
  by (rule prog_keeps_frame [OF assms(1)])
    (use assms(2,3) in \<open>auto simp: under_lease_def get_list_def get_zset_def\<close>)

lemma keeps_take_active:
  assumes "i \<noteq> tid" and "prog_keeps (under_lease q tid e) k"
  shows "prog_keeps (under_lease q tid e) (take_active (ActiveKey q) (LeaseKey q) i k)"
proof -
  have "under_lease q tid e db \<Longrightarrow> under_lease q tid e (snd (exec_cmd (LREM (ActiveKey q) i) db))" for db
    using assms(1) by (auto simp: under_lease_def on_list_def key_simps split: option.split)
  moreover have "under_lease q tid e db \<Longrightarrow> under_lease q tid e (snd (exec_cmd (ZREM (LeaseKey q) [i]) db))" for db
    using assms(1) by (auto simp: under_lease_def on_zset_def key_simps zrem_def split: option.split)
  ultimately show ?thesis
    using assms(2) by (auto simp: take_active_def not_found_def intro!: prog_keeps_call)
qed

text \<open>The rest of the two scripts of the recoverer touches neither the active list nor the leases.\<close>

lemma keeps_settling:
  assumes "i \<noteq> tid"
  shows "prog_keeps (under_lease q tid e) (archiveCmd um (TaskKey q i) (ActiveKey q) (LeaseKey q) (ArchivedKey q)
      (ProcessedKey q t) (FailedKey q t) (ProcessedTotalKey q) (FailedTotalKey q) (TaskKeyPrefix q) i m died
      cutoff ms x mx)"
    "prog_keeps (under_lease q tid e) (retryCmd (TaskKey q i) (ActiveKey q) (LeaseKey q) (RetryKey q)
      (ProcessedKey q t) (FailedKey q t) (ProcessedTotalKey q) (FailedTotalKey q) i m at x f mx)"
proof -
  let ?W = "kname q ` (UNIV - {KActive, KLease})"
  have in_W: "kname q k \<in> ?W" if "k \<noteq> KActive" "k \<noteq> KLease" for k using that by simp
  have out: "ActiveKey q \<notin> ?W" "LeaseKey q \<notin> ?W" by (auto simp: key_simps)
  show "prog_keeps (under_lease q tid e) (archiveCmd um (TaskKey q i) (ActiveKey q) (LeaseKey q) (ArchivedKey q)
      (ProcessedKey q t) (FailedKey q t) (ProcessedTotalKey q) (FailedTotalKey q) (TaskKeyPrefix q) i m died
      cutoff ms x mx)"
    unfolding archiveCmd_def
    by (rule keeps_take_active [OF assms], rule under_lease_frame [where W = ?W])
      (use out in_W in \<open>auto simp: key_simps ok_reply_def\<close>)
  show "prog_keeps (under_lease q tid e) (retryCmd (TaskKey q i) (ActiveKey q) (LeaseKey q) (RetryKey q)
      (ProcessedKey q t) (FailedKey q t) (ProcessedTotalKey q) (FailedTotalKey q) i m at x f mx)"
    unfolding retryCmd_def
    by (rule keeps_take_active [OF assms], rule under_lease_frame [where W = ?W])
      (use out in_W in \<open>auto simp: key_simps ok_reply_def\<close>)
qed

lemma keeps_other_queue:
  assumes "good_name q" "good_name q'" "q' \<noteq> q"
  shows "prog_keeps (under_lease q tid e) (qop_prog um q' op)"
  by (rule under_lease_frame [OF qop_prog_writes])
    (use assms in \<open>auto simp: queue_keys_def key_simps good_name_def kname_inject2\<close>)

text \<open>Every message stored in the queues names its task and its queue.\<close>

definition own_messages :: "string list \<Rightarrow> keyspace \<Rightarrow> bool" where
  "own_messages qs db \<longleftrightarrow>
     (\<forall>q \<in> set qs. \<forall>i m msg. stored_field db q i ''msg'' = Some m \<and> DecodeMessage m = Inr msg \<longrightarrow>
        ID msg = i \<and> Queue msg = q)"

lemma decode_all_only:
  "decode_all data msgs = Inr msgs' \<Longrightarrow>
   set msgs' \<subseteq> set msgs \<union> {m. \<exists>s \<in> set data. DecodeMessage s = Inr m}"
proof (induction data msgs rule: decode_all.induct)
  case (2 s data msgs)
  then show ?case by (auto split: sum.splits)
qed simp

context redis_client
begin

lemma issue_keeps:
  assumes "prog_keeps P p" and "P (db_of (conn r))" and "issue send ctx p r = (res, r')"
  shows "P (db_of (conn r'))"
proof -
  obtain n where n: "db_of (conn r') = (apply_prog p ^^ n) (db_of (conn r))" using issue_any [OF assms(3)] by blast
  have "P ((apply_prog p ^^ n) (db_of (conn r)))"
    using run_keeps [OF assms(1)] assms(2) by (induction n) (simp_all add: apply_prog_def)
  then show ?thesis using n by simp
qed

lemma runScript_keeps:
  assumes "prog_keeps P p" and "P (db_of (conn r))" and "runScript send ctx op p r = (res, r')"
  shows "P (db_of (conn r'))"
proof -
  obtain res0 r0 where i: "issue send ctx p r = (res0, r0)" by fastforce
  then have "r' = r0" using assms(3) by (auto simp: runScript_def split: sum.splits)
  then show ?thesis using issue_keeps [OF assms(1,2) i] by simp
qed

lemma recover_one_keeps:
  assumes "under_lease q tid e (db_of (conn r))" and "good_name q" "good_name (Queue msg)"
    and "(Queue msg, ID msg) \<noteq> (q, tid)"
  shows "under_lease q tid e (db_of (conn (snd (recover_one um send rdf isf t now msg r))))"
proof -
  have k: "prog_keeps (under_lease q tid e) (qop_prog um (Queue msg) op)"
    if "Queue msg = q \<Longrightarrow> ID msg \<noteq> tid \<Longrightarrow> prog_keeps (under_lease q tid e) (qop_prog um q op)" for op
    using that assms(2-4) keeps_other_queue by (cases "Queue msg = q") auto
  have script: "under_lease q tid e (db_of (conn (snd (runScript send False name (qop_prog um (Queue msg) op) r))))"
    if "Queue msg = q \<Longrightarrow> ID msg \<noteq> tid \<Longrightarrow> prog_keeps (under_lease q tid e) (qop_prog um q op)" for name op
    using runScript_keeps [OF k [OF that] assms(1) surjective_pairing] by simp
  show ?thesis
    unfolding recover_one_def Let_def
    by (cases "Retried msg \<ge> Retry msg")
      (simp_all del: qop_prog.simps add: Archive_qop Retry_qop [where um = um], (rule script, simp add: keeps_settling)+)
qed

lemma recover_loop_keeps:
  assumes "under_lease q tid e (db_of (conn r))" and "good_name q"
    and "\<forall>msg \<in> set msgs. good_name (Queue msg) \<and> (Queue msg, ID msg) \<noteq> (q, tid)"
  shows "under_lease q tid e (db_of (conn (recover_loop um send rdf isf clk i msgs r)))"
  using assms
proof (induction msgs arbitrary: i r)
  case (Cons msg msgs)
  have "under_lease q tid e (db_of (conn (snd (recover_one um send rdf isf (clk i) (clk (Suc i)) msg r))))"
    using Cons.prems by (intro recover_one_keeps) auto
  then show ?case using Cons by simp
qed simp

text \<open>Only tasks with an expired lease are listed, and listing changes nothing, error or not.\<close>

lemma list_expired_only:
  assumes "list_expired_loop send cutoff qs msgs r = (res, r')" and "\<forall>q \<in> set qs. \<exists>st. qrep q (db_of (conn r)) st"
  shows "(\<forall>k. lookup (db_of (conn r')) k = lookup (db_of (conn r)) k)
    \<and> (\<forall>msgs'. res = Inr msgs' \<longrightarrow> (\<forall>msg \<in> set msgs'. msg \<in> set msgs
         \<or> (\<exists>q \<in> set qs. \<exists>st. qrep q (db_of (conn r)) st
              \<and> (\<exists>i m. i \<in> set (zrange_le (unix cutoff) (q_lease st)) \<and> field_of st i ''msg'' = Some m
                   \<and> DecodeMessage m = Inr msg))))"
  using assms
proof (induction qs arbitrary: msgs r)
  case (Cons q qs)
  let ?p = "listLeaseExpiredCmd (LeaseKey q) (unix cutoff) (TaskKeyPrefix q)"
  obtain res0 r1 where i: "issue send False ?p r = (res0, r1)" by fastforce
  have same: "lookup ((apply_prog ?p ^^ k) db) key = lookup db key" for k db key
    by (induction k) (simp_all add: apply_prog_def run_frame [OF list_script_writes])
  have l1: "lookup (db_of (conn r1)) key = lookup (db_of (conn r)) key" for key
    using issue_any [OF i] same by auto
  obtain st where st: "qrep q (db_of (conn r)) st" using Cons.prems(2) by auto
  have earlier: "qrep q' (db_of (conn r)) st'" if "qrep q' (db_of (conn r1)) st'" for q' st'
    by (rule qrep_cong [OF that]) (simp add: l1)
  have reps: "\<forall>q \<in> set qs. \<exists>st. qrep q (db_of (conn r1)) st"
    using Cons.prems(2) qrep_cong l1 by (metis list.set_intros(2))
  show ?case
  proof (cases res0)
    case (Inl e)
    then show ?thesis using Cons.prems(1) i l1 by (auto simp: Let_def)
  next
    case (Inr v)
    from issue_ok [OF i [unfolded Inr]] obtain n where
      n: "v = fst (run ?p ((apply_prog ?p ^^ n) (db_of (conn r))))" by blast
    have "qrep q ((apply_prog ?p ^^ n) (db_of (conn r))) st"
      by (rule qrep_cong [OF st]) (rule same)
    then have "v = RArr (map RBulk (messages_of st (zrange_le (unix cutoff) (q_lease st))))"
      using n doesD(1) [OF does_list_lease_expired] by simp
    then have t: "ToStringSliceE v = Inr (messages_of st (zrange_le (unix cutoff) (q_lease st)))"
      by (simp add: comp_def)
    show ?thesis
    proof (cases "decode_all (messages_of st (zrange_le (unix cutoff) (q_lease st))) msgs")
      case (Inl e)
      then show ?thesis using Cons.prems(1) i \<open>res0 = Inr v\<close> t l1 by (auto simp: Let_def)
    next
      case (Inr msgs1)
      then have "list_expired_loop send cutoff qs msgs1 r1 = (res, r')"
        using Cons.prems(1) i \<open>res0 = Inr v\<close> t by (simp add: Let_def)
      note IH = Cons.IH [OF this reps]
      have m: "msg \<in> set msgs \<or> (\<exists>i m. i \<in> set (zrange_le (unix cutoff) (q_lease st)) \<and> field_of st i ''msg'' = Some m
          \<and> DecodeMessage m = Inr msg)" if "msg \<in> set msgs1" for msg
        using decode_all_only [OF Inr] that by (auto simp: messages_of_def map_filter_def)
      show ?thesis using IH m st earlier l1 by (simp, metis)
    qed
  qed
qed auto

theorem recoverer_spares:
  assumes "queues_ok qs (db_of (conn r))" and "own_messages qs (db_of (conn r))"
    and "good_name q" and "qrep q (db_of (conn r)) st" "qinv st"
    and "(e, tid) \<in> set (q_lease st)" and "\<not> e \<le> unix (clk 0 + (- 30 * second_ns))"
  shows "under_lease q tid e (db_of (conn (recoverLeaseExpiredTasks um send rdf isf clk qs r)))"
proof -
  let ?cutoff = "clk 0 + (- 30 * second_ns)"
  have "tid \<in> set (zmembers (q_lease st))" using mem_zmembers [OF assms(6)] .
  then have start: "under_lease q tid e (db_of (conn r))"
    using under_lease_rep [OF assms(4)] assms(6) qinv_parts(8) [OF assms(5)] by simp
  have lookups: "\<forall>k. lookup db' k = lookup db k \<Longrightarrow> under_lease q tid e db = under_lease q tid e db'" for db db'
    by (simp add: under_lease_def get_list_def get_zset_def)
  obtain res r1 where l: "ListLeaseExpired send ?cutoff qs r = (res, r1)" by fastforce
  have reps: "\<forall>q \<in> set qs. \<exists>st. qrep q (db_of (conn r)) st" using assms(1) by (auto simp: queues_ok_def)
  note only = list_expired_only [OF l [unfolded ListLeaseExpired_def] reps]
  have here: "under_lease q tid e (db_of (conn r1))" using start lookups only by blast
  show ?thesis
  proof (cases res)
    case (Inl err)
    then show ?thesis using l here by (simp add: recoverLeaseExpiredTasks_def)
  next
    case (Inr msgs)
    have "good_name (Queue msg) \<and> (Queue msg, ID msg) \<noteq> (q, tid)" if mem: "msg \<in> set msgs" for msg
    proof -
      obtain q' st' i m where q': "q' \<in> set qs" "qrep q' (db_of (conn r)) st'"
        and i: "i \<in> set (zrange_le (unix ?cutoff) (q_lease st'))" "field_of st' i ''msg'' = Some m"
          "DecodeMessage m = Inr msg"
        using only Inr mem by auto
      have own: "ID msg = i" "Queue msg = q'"
        using assms(2) q'(1) i(2,3) collection_rep(2) [OF q'(2)] unfolding own_messages_def by metis+
      have "(Queue msg, ID msg) \<noteq> (q, tid)"
      proof
        assume "(Queue msg, ID msg) = (q, tid)"
        then have qi: "q' = q" "i = tid" using own by simp_all
        obtain x where x: "(x, tid) \<in> set (q_lease st')" "x \<le> unix ?cutoff"
          using i(1) qi(2) by (auto simp: set_zrange_le)
        have "get_zset (db_of (conn r)) (kname q KLease) = Some (q_lease st')"
          "get_zset (db_of (conn r)) (kname q KLease) = Some (q_lease st)"
          using get_rep(2) [OF q'(2) [unfolded qi(1)], of KLease] get_rep(2) [OF assms(4), of KLease] by simp_all
        then have same: "q_lease st' = q_lease st" by simp
        have "zset_ok (q_lease st)" using qinv_parts(1) [OF assms(5)] by (simp add: qtype_ok_def)
        then have "x = e" using x(1) assms(6) unfolding same zset_ok_def zmembers_def
          by (metis eq_key_imp_eq_value map_of_is_SomeI distinct_map inj_onD prod.inject snd_conv)
        then show False using x(2) assms(7) by simp
      qed
      then show ?thesis using own assms(1) q'(1) by (simp add: queues_ok_def)
    qed
    then show ?thesis
      using l Inr recover_loop_keeps [OF here assms(3)] by (simp add: recoverLeaseExpiredTasks_def)
  qed
qed

end

end
