(* ===== verification/Goroutines.thy ===== *)
theory Goroutines
  imports Workers
begin

text \<open>
  The loops the \<open>start\<close> methods of \<open>forwarder.go\<close>, \<open>janitor.go\<close>, \<open>recoverer.go\<close>,
  \<open>healthcheck.go\<close>, \<open>syncer.go\<close>, \<open>heartbeat.go\<close> and \<open>subscriber.go\<close> run: what a goroutine does
  with the events it selects on, in the order it gets them. \<open>shutdown\<close> sends the event that
  ends the loop. An event that fires carries the readings of the clock of its round.
\<close>

subsection \<open>Timer loops\<close>

datatype timer_event = Done_signal | Timer_fires "nat \<Rightarrow> int"

text \<open>
  The common shape: \<open>exec\<close> when the timer fires, the end on \<open>done\<close>. The flag says that the
  loop has ended; \<open>None\<close> is a round that does not return.
\<close>

fun timer_loop :: "((nat \<Rightarrow> int) \<Rightarrow> 's \<Rightarrow> 's option) \<Rightarrow> timer_event list \<Rightarrow> 's \<Rightarrow> (bool \<times> 's) option" where
  "timer_loop exec [] s = Some (False, s)"
| "timer_loop exec (Done_signal # evs) s = Some (True, s)"
| "timer_loop exec (Timer_fires clk # evs) s =
     (case exec clk s of None \<Rightarrow> None | Some s' \<Rightarrow> timer_loop exec evs s')"

definition forwarder_start :: "'s client \<Rightarrow> string list \<Rightarrow> timer_event list \<Rightarrow> 's rdb \<Rightarrow> (bool \<times> 's rdb) option" where
  "forwarder_start send qs evs r =
     timer_loop (\<lambda>clk r. map_option snd (forwarder_exec send clk 0 qs r)) evs r"

definition janitor_start ::
  "'s client \<Rightarrow> string list \<Rightarrow> int \<Rightarrow> timer_event list \<Rightarrow> 's rdb \<Rightarrow> (bool \<times> 's rdb) option" where
  "janitor_start send qs batchSize evs r =
     timer_loop (\<lambda>clk r. map_option snd (janitor_exec send clk 0 qs batchSize r)) evs r"

text \<open>The recoverer does a first round before it waits for the timer.\<close>

definition recoverer_start where
  "recoverer_start um send retryDelayFunc isFailureFunc qs clk0 evs r =
     timer_loop (\<lambda>clk r. Some (recoverLeaseExpiredTasks um send retryDelayFunc isFailureFunc clk qs r)) evs
       (recoverLeaseExpiredTasks um send retryDelayFunc isFailureFunc clk0 qs r)"

text \<open>The state is what the callback has been called with, and the broker.\<close>

definition healthchecker_start ::
  "'s client \<Rightarrow> bool \<Rightarrow> timer_event list \<Rightarrow> 's rdb \<Rightarrow> (bool \<times> gerror option list \<times> 's rdb) option" where
  "healthchecker_start send has_callback evs r =
     timer_loop (\<lambda>_ (calls, r).
       case healthchecker_exec send has_callback r of
         (None, r') \<Rightarrow> Some (calls, r')
       | (Some e, r') \<Rightarrow> Some (calls @ [e], r')) evs ([], r)"

subsection \<open>Syncer\<close>

datatype syncer_event = Sync_done "nat \<Rightarrow> int" | Sync_request syncRequest | Sync_timer "nat \<Rightarrow> int"

text \<open>Whether the loop has ended, the requests it holds, the errors logged at the end, the environment.\<close>

fun syncer_loop ::
  "nat \<Rightarrow> 's client \<Rightarrow> syncer_event list \<Rightarrow> syncRequest list \<Rightarrow> 's proc_env \<Rightarrow>
   bool \<times> syncRequest list \<times> string list \<times> 's proc_env" where
  "syncer_loop um send [] requests env = (False, requests, [], env)"
| "syncer_loop um send (Sync_done clk # evs) requests env =
     (case syncer_flush um send clk 0 requests env of (log, env') \<Rightarrow> (True, requests, log, env'))"
| "syncer_loop um send (Sync_request req # evs) requests env =
     syncer_loop um send evs (requests @ [req]) env"
| "syncer_loop um send (Sync_timer clk # evs) requests env =
     (case syncer_tick um send clk 0 requests env of (temp, env') \<Rightarrow> syncer_loop um send evs temp env')"

subsection \<open>Heartbeater\<close>

datatype hb_event =
    HB_done
  | HB_timer "nat \<Rightarrow> int" string \<comment> \<open>clock and status of the server\<close>
  | HB_starting workerInfo
  | HB_finished TaskMessage

fun heartbeater_loop ::
  "zone \<Rightarrow> 's client \<Rightarrow> hb_event list \<Rightarrow>
   heartbeater \<Rightarrow> 's rdb \<Rightarrow> bool \<times> heartbeater \<times> 's rdb" where
  "heartbeater_loop zone send [] h r = (False, h, r)"
| "heartbeater_loop zone send (HB_done # evs) h r = (True, h, snd (heartbeater_shutdown send h r))"
| "heartbeater_loop zone send (HB_timer clk status # evs) h r =
     (case beat zone send clk status h r of (h', r') \<Rightarrow> heartbeater_loop zone send evs h' r')"
| "heartbeater_loop zone send (HB_starting w # evs) h r =
     heartbeater_loop zone send evs (worker_starting w h) r"
| "heartbeater_loop zone send (HB_finished msg # evs) h r =
     heartbeater_loop zone send evs (worker_finished msg h) r"

definition heartbeater_start where
  "heartbeater_start zone send now clk status evs h r =
     (case beat zone send clk status (h\<lparr>h_started := now\<rparr>) r of
        (h', r') \<Rightarrow> heartbeater_loop zone send evs h' r')"

subsection \<open>Subscriber\<close>

datatype sub_mode = Sub_connecting | Sub_waiting | Sub_listening | Sub_ended

datatype sub_event = Sub_failed | Sub_connected | Sub_timeout | Sub_done | Sub_message string

text \<open>\<open>None\<close>: the goroutine does not take the event in this mode.\<close>

fun subscriber_step ::
  "nat Cancelations \<Rightarrow> sub_mode \<Rightarrow> sub_event \<Rightarrow> 's proc_env \<Rightarrow> (sub_mode \<times> 's proc_env) option" where
  "subscriber_step cs Sub_connecting Sub_failed env = Some (Sub_waiting, env)"
| "subscriber_step cs Sub_connecting Sub_connected env = Some (Sub_listening, env)"
| "subscriber_step cs Sub_waiting Sub_timeout env = Some (Sub_connecting, env)"
| "subscriber_step cs Sub_waiting Sub_done env = Some (Sub_ended, env)"
| "subscriber_step cs Sub_listening Sub_done env = Some (Sub_ended, env)"
| "subscriber_step cs Sub_listening (Sub_message pl) env = Some (Sub_listening, subscriber_message cs pl env)"
| "subscriber_step cs m ev env = None"

subsection \<open>Facts\<close>

text \<open>
  What the timer loops rely on in their rounds: a round returns and keeps what the goroutine
  needs of the state. Then the loop ends exactly when it is told to.
\<close>

locale timer_round =
  fixes exec :: "(nat \<Rightarrow> int) \<Rightarrow> 's \<Rightarrow> 's option" and inv :: "'s \<Rightarrow> bool"
  assumes round: "inv s \<Longrightarrow> \<exists>s'. exec clk s = Some s' \<and> inv s'"
begin

lemma loop_ends: "inv s \<Longrightarrow> \<exists>s'. timer_loop exec evs s = Some (Done_signal \<in> set evs, s') \<and> inv s'"
proof (induction evs arbitrary: s)
  case (Cons ev evs)
  then show ?case
  proof (cases ev)
    case (Timer_fires clk)
    obtain s' where "exec clk s = Some s'" "inv s'" using round [OF Cons.prems] by blast
    then show ?thesis using Cons.IH Timer_fires by simp
  qed simp
qed simp

text \<open>What comes after the signal is not looked at.\<close>

lemma loop_done: "inv s \<Longrightarrow> timer_loop exec (evs @ Done_signal # evs') s = timer_loop exec (evs @ [Done_signal]) s"
proof (induction evs arbitrary: s)
  case (Cons ev evs)
  then show ?case
  proof (cases ev)
    case (Timer_fires clk)
    obtain s' where "exec clk s = Some s'" "inv s'" using round [OF Cons.prems] by blast
    then show ?thesis using Cons.IH Timer_fires by simp
  qed simp
qed simp

end

text \<open>The rounds of the forwarder, the janitor and the health check, over any Redis client.\<close>

sublocale redis_client \<subseteq> forward_round: timer_round "\<lambda>clk r. map_option snd (forwarder_exec send clk 0 qs r)"
    "\<lambda>r. queues_ok qs (db_of (conn r))" for qs
proof
  fix r :: "'s rdb" and clk
  assume "queues_ok qs (db_of (conn r))"
  from forwarder_exec_returns [OF this, of clk 0]
  show "\<exists>r'. map_option snd (forwarder_exec send clk 0 qs r) = Some r' \<and> queues_ok qs (db_of (conn r'))" by auto
qed

sublocale redis_client \<subseteq> janitor_round: timer_round "\<lambda>clk r. map_option snd (janitor_exec send clk 0 qs batch r)"
    "\<lambda>r. queues_ok qs (db_of (conn r))" for qs batch
proof
  fix r :: "'s rdb" and clk
  assume "queues_ok qs (db_of (conn r))"
  from janitor_exec_returns [OF this subset_refl, of clk 0 batch]
  show "\<exists>r'. map_option snd (janitor_exec send clk 0 qs batch r) = Some r' \<and> queues_ok qs (db_of (conn r'))" by auto
qed

definition health_round_exec :: "'s client \<Rightarrow> bool \<Rightarrow> (nat \<Rightarrow> int) \<Rightarrow> gerror option list \<times> 's rdb \<Rightarrow>
    (gerror option list \<times> 's rdb) option" where
  "health_round_exec send has_callback = (\<lambda>_ (calls, r).
     case healthchecker_exec send has_callback r of
       (None, r') \<Rightarrow> Some (calls, r')
     | (Some e, r') \<Rightarrow> Some (calls @ [e], r'))"

interpretation health_round: timer_round "health_round_exec send has_callback" "\<lambda>_. True"
  for send :: "'s client" and has_callback
  by unfold_locales (auto simp: health_round_exec_def split: prod.splits option.splits)

text \<open>The callback, when there is one, is called once per round.\<close>

lemma healthchecker_start_ends:
  "\<exists>calls r'. healthchecker_start send has_callback evs r = Some (Done_signal \<in> set evs, calls, r')
     \<and> length calls = (if has_callback then length (takeWhile ((\<noteq>) Done_signal) evs) else 0)"
proof -
  have n: "timer_loop (health_round_exec send has_callback) evs (cs, r) = Some (d, calls, r') \<Longrightarrow>
      length calls = length cs + (if has_callback then length (takeWhile ((\<noteq>) Done_signal) evs) else 0)"
    for cs r d calls r'
  proof (induction evs arbitrary: cs r)
    case (Cons ev evs)
    then show ?case
      by (cases ev) (auto simp: health_round_exec_def healthchecker_exec_def split: prod.splits if_splits)
  qed simp
  obtain calls r' where "timer_loop (health_round_exec send has_callback) evs ([], r) = Some (Done_signal \<in> set evs, calls, r')"
    using health_round.loop_ends [where s = "([], r)" and evs = evs] by fastforce
  then show ?thesis
    using n by (auto simp: healthchecker_start_def health_round_exec_def)
qed

context redis_client
begin

lemma forwarder_start_ends:
  assumes "queues_ok qs (db_of (conn r))"
  shows "\<exists>r'. forwarder_start send qs evs r = Some (Done_signal \<in> set evs, r') \<and> queues_ok qs (db_of (conn r'))"
  using forward_round.loop_ends [OF assms] by (simp add: forwarder_start_def)

lemma janitor_start_ends:
  assumes "queues_ok qs (db_of (conn r))"
  shows "\<exists>r'. janitor_start send qs batch evs r = Some (Done_signal \<in> set evs, r') \<and> queues_ok qs (db_of (conn r'))"
  using janitor_round.loop_ends [OF assms] by (simp add: janitor_start_def)

end

text \<open>A request whose context has been canceled.\<close>

definition dead_request :: "'s proc_env \<Rightarrow> syncRequest \<Rightarrow> bool" where
  "dead_request env req \<longleftrightarrow> sr_ctx req < length (p_ctx env) \<and> snd (p_ctx env ! sr_ctx req)"

lemma syncer_tick_ctx: "p_ctx (snd (syncer_tick um send clk i reqs env)) = p_ctx env"
proof (induction um send clk i reqs env rule: syncer_tick.induct)
  case (2 um send clk i req reqs env)
  obtain e env' where r: "run_sync_fn um send (clk (Suc i)) (sr_ctx req) (sr_fn req) env = (e, env')" by fastforce
  have "p_ctx env' = p_ctx env"
    using run_sync_fn_simps(1) [of um send "clk (Suc i)" "sr_ctx req" "sr_fn req" env] r by simp
  with 2 r show ?case by (cases e) (auto split: prod.split)
qed simp

context redis_client
begin

lemma syncer_flush_dead:
  assumes "\<forall>req \<in> set reqs. dead_request env req"
  shows "fst (syncer_flush um send clk i reqs env) = map sr_errMsg reqs
    \<and> db_of (conn (p_broker (snd (syncer_flush um send clk i reqs env)))) = db_of (conn (p_broker env))"
  using assms
proof (induction reqs arbitrary: i env)
  case (Cons req reqs)
  obtain e env' where r: "run_sync_fn um send (clk i) (sr_ctx req) (sr_fn req) env = (e, env')" by fastforce
  have c: "sr_ctx req < length (p_ctx env)" "snd (p_ctx env ! sr_ctx req)"
    using Cons.prems by (auto simp: dead_request_def)
  obtain err where err: "e = Some err" "db_of (conn (p_broker env')) = db_of (conn (p_broker env))"
    using run_sync_fn_canceled [OF c, of um "clk i" "sr_fn req"] r by auto
  have "p_ctx env' = p_ctx env"
    using run_sync_fn_simps(1) [of um send "clk i" "sr_ctx req" "sr_fn req" env] r by simp
  then have "\<forall>req \<in> set reqs. dead_request env' req" using Cons.prems by (simp add: dead_request_def)
  from Cons.IH [OF this, of "Suc i"] show ?case
    using r err by (auto split: prod.split)
qed simp

lemma syncer_loop_dead:
  assumes "\<forall>req. req \<in> set reqs \<or> Sync_request req \<in> set evs \<longrightarrow> dead_request env req"
    and "syncer_loop um send evs reqs env = (ended, kept, log, env')"
  shows "db_of (conn (p_broker env')) = db_of (conn (p_broker env))
    \<and> set kept \<subseteq> set reqs \<union> {req. Sync_request req \<in> set evs}
    \<and> (ended \<longrightarrow> log = map sr_errMsg kept)
    \<and> (\<forall>req. (req \<in> set reqs \<or> \<not> ended \<and> Sync_request req \<in> set evs)
         \<and> (\<forall>clk j. Sync_timer clk \<in> set evs \<longrightarrow> clk j \<le> sr_deadline req) \<longrightarrow> req \<in> set kept)"
  using assms
proof (induction evs arbitrary: reqs env)
  case Nil
  then show ?case by auto
next
  case (Cons ev evs)
  show ?case
  proof (cases ev)
    case (Sync_done clk)
    then show ?thesis
      using Cons.prems syncer_flush_dead [of reqs env um clk 0] by (auto split: prod.splits)
  next
    case (Sync_request req)
    then show ?thesis using Cons.IH [of "reqs @ [req]" env] Cons.prems by auto
  next
    case (Sync_timer clk)
    obtain temp env1 where t: "syncer_tick um send clk 0 reqs env = (temp, env1)" by fastforce
    have "\<forall>req \<in> set reqs. sr_ctx req < length (p_ctx env) \<and> snd (p_ctx env ! sr_ctx req)"
      using Cons.prems(1) by (auto simp: dead_request_def)
    from syncer_tick_dead [OF this, of um clk 0] t have tick:
      "set temp \<subseteq> set reqs" "\<forall>req \<in> set reqs. (\<forall>j. clk j \<le> sr_deadline req) \<longrightarrow> req \<in> set temp"
      "db_of (conn (p_broker env1)) = db_of (conn (p_broker env))"
      by auto
    have "p_ctx env1 = p_ctx env" using syncer_tick_ctx [of um send clk 0 reqs env] t by simp
    then have "\<forall>req. req \<in> set temp \<or> Sync_request req \<in> set evs \<longrightarrow> dead_request env1 req"
      using Cons.prems(1) tick(1) Sync_timer by (auto simp: dead_request_def)
    moreover have "syncer_loop um send evs temp env1 = (ended, kept, log, env')"
      using Cons.prems(2) Sync_timer t by simp
    ultimately show ?thesis using Cons.IH [of temp env1] tick Sync_timer by auto
  qed
qed

end

subsection \<open>The workers a heartbeater knows\<close>

text \<open>The task last started under an ID and not finished since; \<open>m\<close> is the one at the start.\<close>

fun running_task :: "hb_event list \<Rightarrow> string \<Rightarrow> TaskMessage option \<Rightarrow> TaskMessage option" where
  "running_task [] i m = m"
| "running_task (HB_starting w # evs) i m = running_task evs i (if ID (w_msg w) = i then Some (w_msg w) else m)"
| "running_task (HB_finished msg # evs) i m = running_task evs i (if ID msg = i then None else m)"
| "running_task (_ # evs) i m = running_task evs i m"

definition worker_msgs :: "(string \<times> workerInfo) list \<Rightarrow> (string \<times> TaskMessage) list" where
  "worker_msgs ws = map (\<lambda>(i, w). (i, w_msg w)) ws"

lemma worker_msgs_map_of: "map_of (worker_msgs ws) i = map_option w_msg (map_of ws i)"
  by (induction ws) (auto simp: worker_msgs_def)

lemma map_fst_worker_msgs: "map fst (worker_msgs ws) = map fst ws"
  by (simp add: worker_msgs_def comp_def split_def)

lemma notify_reset_msgs [simp]:
  "worker_msgs (notify_expired now ws) = worker_msgs ws"
  "worker_msgs (reset_leases now t ids ws) = worker_msgs ws"
  by (simp_all add: worker_msgs_def notify_expired_def reset_leases_def notify_worker_def split_def)

lemma extend_leases_msgs [simp]: "worker_msgs (fst (extend_leases send clk i qids ws r)) = worker_msgs ws"
  by (induction send clk i qids ws r rule: extend_leases.induct) (auto split: prod.split sum.split)

lemma beat_msgs: "worker_msgs (h_workers (fst (beat zone send clk status h r))) = worker_msgs (h_workers h)"
proof -
  obtain e r1 where w: "WriteServerState zone send (clk 1) (server_info status h)
      (map (worker_info h) (h_workers h)) (h_interval h * 2) r = (e, r1)"
    by fastforce
  obtain ws' r2 where x: "extend_leases send clk 2 (ids_by_queue (clk 0) (h_workers h) [])
      (notify_expired (clk 0) (h_workers h)) r1 = (ws', r2)"
    by fastforce
  have "worker_msgs ws' = worker_msgs (h_workers h)"
    using extend_leases_msgs [of send clk 2 "ids_by_queue (clk 0) (h_workers h) []"
        "notify_expired (clk 0) (h_workers h)" r1] x by simp
  then show ?thesis by (simp add: beat_def Let_def w x del: One_nat_def)
qed

lemma heartbeater_loop_workers:
  assumes "heartbeater_loop zone send evs h r = (False, h', r')" and "distinct (map fst (h_workers h))"
  shows "distinct (map fst (h_workers h'))
    \<and> map_option w_msg (map_of (h_workers h') i) = running_task evs i (map_option w_msg (map_of (h_workers h) i))"
  using assms
proof (induction zone send evs h r rule: heartbeater_loop.induct)
  case (3 zone send clk status evs h r)
  obtain h1 r1 where b: "beat zone send clk status h r = (h1, r1)" by fastforce
  then have m: "worker_msgs (h_workers h1) = worker_msgs (h_workers h)"
    using beat_msgs [of zone send clk status h r] by simp
  then have "map fst (h_workers h1) = map fst (h_workers h)"
    "map_option w_msg (map_of (h_workers h1) i) = map_option w_msg (map_of (h_workers h) i)"
    by (metis map_fst_worker_msgs, metis worker_msgs_map_of)
  then show ?case using 3 b by simp
next
  case (4 zone send w evs h r)
  then show ?case by (simp add: worker_starting_def update_conv' distinct_update)
next
  case (5 zone send msg evs h r)
  then show ?case by (simp add: worker_finished_def delete_conv' distinct_delete)
qed simp_all

lemma ids_by_queue_exact:
  assumes "distinct (map fst ws)"
  shows "ids_of (ids_by_queue now ws []) q
    = {i. \<exists>w. map_of ws i = Some w \<and> IsValid now (w_lease w) \<and> Queue (w_msg w) = q}"
proof -
  have "ids_of [] q = {}" by (simp add: ids_of_def)
  then show ?thesis using assms by (auto simp: ids_by_queue_ids)
qed

end
