(* ===== verification/Extension.thy ===== *)
theory Extension
  imports Goroutines Monitor
begin

text \<open>
  What one beat of the heartbeater, \<open>beat\<close> of \<open>heartbeat.go\<close>, does to the leases in Redis, over a
  client whose calls are answered: exactly the valid leases of the workers it knows are extended.
\<close>

subsection \<open>The ids asked for\<close>

lemma set_update: "(k', v') \<in> set (AList.update k v m) \<Longrightarrow> (k', v') = (k, v) \<or> (k', v') \<in> set m"
  by (induction m) (auto split: if_splits)

lemma ids_by_queue_entries:
  assumes "\<And>q ids. (q, ids) \<in> set m \<Longrightarrow> ids \<noteq> [] \<and> P q" and "\<And>i w. (i, w) \<in> set ws \<Longrightarrow> P (Queue (w_msg w))"
    and "(q, ids) \<in> set (ids_by_queue now ws m)"
  shows "ids \<noteq> [] \<and> P q"
  using assms
proof (induction now ws m rule: ids_by_queue.induct)
  case (2 now i w ws m)
  have add: "(q, ids) \<in> set (add_id q' j m) \<Longrightarrow> ids \<noteq> [] \<and> (q = q' \<or> (q, ids) \<in> set m)" for q ids q' j
    using "2.prems"(1) by (auto simp: add_id_def dest!: set_update)
  show ?case
  proof (rule "2.IH")
    show "(q, ids) \<in> set (ids_by_queue now ws (if IsValid now (w_lease w) then add_id (Queue (w_msg w)) i m else m))"
      using "2.prems"(3) by simp
    show "ids \<noteq> [] \<and> P q" if "(q, ids) \<in> set (if IsValid now (w_lease w) then add_id (Queue (w_msg w)) i m else m)" for q ids
      using add [of q ids "Queue (w_msg w)" i] "2.prems"(1) [of q ids] "2.prems"(2) [of i w] that
      by (cases "IsValid now (w_lease w)") auto
  qed (use "2.prems"(2) in auto)
qed simp

text \<open>\<open>st'\<close> is the queue with the leases of \<open>ids\<close> set to \<open>v\<close>; an id without a lease gets none.\<close>

definition extended :: "string set \<Rightarrow> int \<Rightarrow> queue_state \<Rightarrow> queue_state \<Rightarrow> bool" where
  "extended ids v st st' \<longleftrightarrow>
     (\<forall>e j. (e, j) \<in> set (q_lease st') \<longleftrightarrow>
        (if j \<in> ids then j \<in> set (zmembers (q_lease st)) \<and> e = v else (e, j) \<in> set (q_lease st)))"

lemma extended_zmembers:
  assumes "extended ids v st st'"
  shows "set (zmembers (q_lease st')) = set (zmembers (q_lease st))"
proof -
  have z: "j \<in> set (zmembers z) \<longleftrightarrow> (\<exists>e. (e, j) \<in> set z)" for j and z :: zset
    by (force simp: zmembers_def)
  have "j \<in> set (zmembers (q_lease st')) \<longleftrightarrow> j \<in> set (zmembers (q_lease st))" for j
    using assms unfolding extended_def z by auto
  then show ?thesis by blast
qed

lemma extended_s_extend: "extended (set ids) v st (s_extend (map (\<lambda>i. (v, i)) ids) st)"
  by (simp add: extended_def s_extend_def mem_zadd_xx)

lemma extended_again:
  assumes "extended ids v st st1" and "extended ids v st1 st2"
  shows "extended ids v st st2"
  using assms extended_zmembers [OF assms(1)] unfolding extended_def by simp

lemma extended_none: "extended {} v st st' \<Longrightarrow> extended ids v' st0 st \<Longrightarrow> extended ids v' st0 st'"
  by (simp add: extended_def)

lemma apply_extend_exact:
  assumes "ids \<noteq> []" and "qrep q db st"
  shows "\<exists>st'. qrep q ((apply_prog (single (ZADDXX (LeaseKey q) (map (\<lambda>i. (v, i)) ids))) ^^ Suc n) db) st'
    \<and> extended (set ids) v st st'"
proof (induction n)
  case 0
  have "qrep q (apply_prog (single (ZADDXX (LeaseKey q) (map (\<lambda>i. (v, i)) ids))) db) (s_extend (map (\<lambda>i. (v, i)) ids) st)"
    using doesD(2) [OF does_extend assms(2)] assms(1) by (simp add: apply_prog_def)
  then show ?case using extended_s_extend by auto
next
  case (Suc n)
  then obtain st1 where st1: "qrep q ((apply_prog (single (ZADDXX (LeaseKey q) (map (\<lambda>i. (v, i)) ids))) ^^ Suc n) db) st1"
    "extended (set ids) v st st1" by blast
  have "qrep q ((apply_prog (single (ZADDXX (LeaseKey q) (map (\<lambda>i. (v, i)) ids))) ^^ Suc (Suc n)) db)
      (s_extend (map (\<lambda>i. (v, i)) ids) st1)"
    using doesD(2) [OF does_extend st1(1)] assms(1) by (simp add: apply_prog_def)
  then show ?case using extended_again [OF st1(2) extended_s_extend] by blast
qed

subsection \<open>Calls that are answered\<close>

context redis_client
begin

lemma issue_answered:
  assumes "answering send up" and "up (conn r)" and "issue send False p r = (res, r')"
  shows "up (conn r') \<and> (\<exists>n. res = go_result (Inr (fst (run p ((apply_prog p ^^ n) (db_of (conn r))))))
    \<and> db_of (conn r') = (apply_prog p ^^ Suc n) (db_of (conn r)))"
proof -
  obtain v s' where v: "send (conn r) False p = (Inr v, s')" "up s'"
    using assms(1,2) unfolding answering_def by meson
  then show ?thesis using answered [OF v(1)] assms(3) by (auto simp: issue_def)
qed

lemma issue_shared:
  assumes "prog_writes shared_keys p" and "issue send ctx p r = (res, r')" and "qrep q (db_of (conn r)) st"
  shows "qrep q (db_of (conn r')) st"
proof -
  obtain n where n: "db_of (conn r') = (apply_prog p ^^ n) (db_of (conn r))" using issue_any [OF assms(2)] by blast
  have "qrep q ((apply_prog p ^^ n) (db_of (conn r))) st"
    using shared_elsewhere [OF assms(1)] assms(3) by (induction n) (simp_all add: apply_prog_def)
  then show ?thesis using n by simp
qed

lemma WriteServerState_elsewhere:
  assumes "answering send up" and "up (conn r)" and "qrep q (db_of (conn r)) st"
    and "WriteServerState zone send now info ws ttl r = (e, r')"
  shows "up (conn r') \<and> qrep q (db_of (conn r')) st"
proof (cases "EncodeServerInfo zone (Some info)")
  case (Inl err)
  then show ?thesis using assms(2-4) by (simp add: WriteServerState_def)
next
  case (Inr b)
  let ?sk = "ServerInfoKey (si_Host info) (si_PID info) (si_ServerID info)"
  let ?wk = "WorkersKey (si_Host info) (si_PID info) (si_ServerID info)"
  let ?p = "if second_ns dvd ttl then writeServerStateCmd ?sk ?wk (ttl div second_ns) b (encode_workers zone ws)
    else Ret (RErr ''ERR value is not an integer or out of range'')"
  have step: "up (conn r2) \<and> qrep q (db_of (conn r2)) st"
    if "up (conn r1)" "qrep q (db_of (conn r1)) st" "prog_writes shared_keys p" "issue send False p r1 = (res, r2)"
    for r1 r2 p res
    using issue_answered [OF assms(1) that(1,4)] issue_shared [OF that(3,4,2)] by blast
  obtain v1 r1 where i1: "issue send False (single (ZADD AllServers (unix (now + ttl)) ?sk)) r = (v1, r1)" by fastforce
  obtain v2 r2 where i2: "issue send False (single (ZADD AllWorkers (unix (now + ttl)) ?wk)) r1 = (v2, r2)" by fastforce
  obtain v3 r3 where i3: "issue send False ?p r2 = (v3, r3)" by fastforce
  have s1: "up (conn r1) \<and> qrep q (db_of (conn r1)) st" by (rule step [OF assms(2,3) _ i1]) simp
  have s2: "up (conn r2) \<and> qrep q (db_of (conn r2)) st"
    by (rule step [OF conjunct1 [OF s1] conjunct2 [OF s1] _ i2]) simp
  have "prog_writes shared_keys ?p" using prog_writes_server_scripts(1) by simp
  from step [OF conjunct1 [OF s2] conjunct2 [OF s2] this i3]
  have s3: "up (conn r3) \<and> qrep q (db_of (conn r3)) st" .
  have "r' \<in> {r1, r2, r3}"
    using assms(4) Inr i1 i2 i3
    by (auto simp: WriteServerState_def Let_def runScript_def split: sum.splits prod.splits if_splits)
  then show ?thesis using s1 s2 s3 by auto
qed

lemma ExtendLease_elsewhere:
  assumes "answering send up" and "up (conn r)" and "ExtendLease send now q ids r = (res, r')"
  shows "up (conn r') \<and> same_elsewhere q (db_of (conn r)) (db_of (conn r'))"
proof -
  let ?ps = "map (\<lambda>i. (unix (now + LeaseDuration), i)) ids"
  obtain res0 where i: "issue send False (qop_prog undefined q (Op_extend ?ps)) r = (res0, r')"
    using assms(3) by (auto simp: ExtendLease_def Let_def split: prod.splits sum.splits)
  then show ?thesis
    using issue_answered [OF assms(1,2) i] issue_any [OF i] same_elsewhere_apply by metis
qed

lemma ExtendLease_answered:
  assumes "answering send up" and "up (conn r)" and "ids \<noteq> []" and "qrep q (db_of (conn r)) st"
    and "ExtendLease send now q ids r = (res, r')"
  shows "res = Inr (now + LeaseDuration)
    \<and> (\<exists>st'. qrep q (db_of (conn r')) st' \<and> extended (set ids) (unix (now + LeaseDuration)) st st')"
proof -
  let ?p = "single (ZADDXX (LeaseKey q) (map (\<lambda>i. (unix (now + LeaseDuration), i)) ids))"
  obtain res0 where i: "issue send False ?p r = (res0, r')"
    and res: "res = (case res0 of Inl e \<Rightarrow> Inl e | Inr _ \<Rightarrow> Inr (now + LeaseDuration))"
    using assms(5) by (auto simp: ExtendLease_def Let_def split: prod.splits sum.splits)
  obtain n where n: "res0 = go_result (Inr (fst (run ?p ((apply_prog ?p ^^ n) (db_of (conn r))))))"
    "db_of (conn r') = (apply_prog ?p ^^ Suc n) (db_of (conn r))"
    using issue_answered [OF assms(1,2) i] by blast
  have "\<exists>st1. qrep q ((apply_prog ?p ^^ n) (db_of (conn r))) st1"
    using apply_extend_exact [OF assms(3,4)] assms(4) by (cases n) auto
  then have "fst (run ?p ((apply_prog ?p ^^ n) (db_of (conn r)))) = RInt 0"
    using doesD(1) [OF does_extend] assms(3) by auto
  then show ?thesis using n res apply_extend_exact [OF assms(3,4)] by auto
qed

lemma extend_leases_exact:
  assumes "answering send up" and "up (conn r)" and "qrep q (db_of (conn r)) st" and "good_name q"
    and "distinct (map fst m)" and "\<And>q' ids. (q', ids) \<in> set m \<Longrightarrow> ids \<noteq> [] \<and> good_name q'"
    and "extend_leases send clk i m ws r = (ws', r')"
  shows "\<exists>st' k. i \<le> k \<and> qrep q (db_of (conn r')) st' \<and> extended (ids_of m q) (unix (clk k + LeaseDuration)) st st'"
  using assms(2,3,5-)
proof (induction m arbitrary: i ws r st)
  case Nil
  then show ?case by (intro exI [of _ st] exI [of _ i]) (simp add: extended_def ids_of_def)
next
  case (Cons p m)
  obtain q1 ids where p: "p = (q1, ids)" by fastforce
  have head: "ids \<noteq> []" "good_name q1" using Cons.prems(4) p by auto
  have rest: "distinct (map fst m)" "\<And>q' ids. (q', ids) \<in> set m \<Longrightarrow> ids \<noteq> [] \<and> good_name q'"
    using Cons.prems(3,4) by auto
  obtain res r1 where e: "ExtendLease send (clk i) q1 ids r = (res, r1)" by fastforce
  note el = ExtendLease_elsewhere [OF assms(1) Cons.prems(1) e]
  obtain ws1 where tail: "extend_leases send clk (i + 2) m ws1 r1 = (ws', r')"
    using Cons.prems(5) p e by (cases res) auto
  note IH = Cons.IH [OF conjunct1 [OF el] _ rest tail]
  show ?case
  proof (cases "q1 = q")
    case True
    obtain st1 where st1: "qrep q (db_of (conn r1)) st1" "extended (set ids) (unix (clk i + LeaseDuration)) st st1"
      using ExtendLease_answered [OF assms(1) Cons.prems(1) head(1) _ e] Cons.prems(2) True by auto
    have none: "ids_of m q = {}"
      using Cons.prems(3) p True by (auto simp: ids_of_def map_of_eq_None_iff split: option.split dest!: map_of_SomeD)
        (force dest: map_of_SomeD)
    have "ids_of (p # m) q = set ids" using p True by (simp add: ids_of_def)
    then show ?thesis using IH [OF st1(1)] extended_none [OF _ st1(2)] none by (metis order_refl)
  next
    case False
    have "qrep q (db_of (conn r1)) st"
      using qrep_same_elsewhere [OF conjunct2 [OF el] head(2) assms(4)] False Cons.prems(2) by auto
    moreover have "ids_of (p # m) q = ids_of m q" using p False by (simp add: ids_of_def)
    ultimately show ?thesis using IH by (metis add_leD1)
  qed
qed

text \<open>One beat.\<close>

lemma beat_extends:
  assumes "answering send up" and "up (conn r)" and "qrep q (db_of (conn r)) st" and "good_name q"
    and "distinct (map fst (h_workers h))" and "\<And>i w. map_of (h_workers h) i = Some w \<Longrightarrow> good_name (Queue (w_msg w))"
    and "beat zone send clk status h r = (h', r')"
  shows "\<exists>st' k. 2 \<le> k \<and> qrep q (db_of (conn r')) st'
    \<and> extended {j. \<exists>w. map_of (h_workers h) j = Some w \<and> IsValid (clk 0) (w_lease w) \<and> Queue (w_msg w) = q}
        (unix (clk k + LeaseDuration)) st st'"
proof -
  let ?m = "ids_by_queue (clk 0) (h_workers h) []"
  obtain e r1 where w: "WriteServerState zone send (clk 1) (server_info status h)
      (map (worker_info h) (h_workers h)) (h_interval h * 2) r = (e, r1)"
    by fastforce
  obtain ws' r2 where x: "extend_leases send clk 2 ?m (notify_expired (clk 0) (h_workers h)) r1 = (ws', r2)"
    by fastforce
  have r': "r' = r2" using assms(7) by (simp add: beat_def Let_def w x del: One_nat_def)
  have "good_name (Queue (w_msg v))" if "(i, v) \<in> set (h_workers h)" for i v
    using assms(5,6) that by (metis map_of_is_SomeI)
  then have names: "ids \<noteq> [] \<and> good_name q'" if "(q', ids) \<in> set ?m" for q' ids
    using ids_by_queue_entries [of "[]" good_name "h_workers h" q' ids "clk 0"] that by auto
  note s = WriteServerState_elsewhere [OF assms(1-3) w]
  have "distinct (map fst ?m)" by (rule distinct_ids_by_queue) simp
  from extend_leases_exact [OF assms(1) conjunct1 [OF s] conjunct2 [OF s] assms(4) this names x]
  show ?thesis unfolding r' ids_by_queue_exact [OF assms(5)] by blast
qed

end

end
