(* ===== verification/Logger.thy ===== *)
theory Logger
  imports TQ_Prelude
begin

text \<open>
  \<open>internal/log/log.go\<close>: the levelled logger. The destination (\<open>Base\<close>) is a value of type
  \<open>'b\<close> with one function that runs a method of it; \<open>baseLogger\<close> is the destination the
  package provides. A panic is \<open>None\<close>.
\<close>

type_synonym Level = int \<comment> \<open>\<open>int32\<close>, only compared\<close>

definition log_DebugLevel :: Level where
  "log_DebugLevel = 0"

definition log_InfoLevel :: Level where
  "log_InfoLevel = 1"

definition log_WarnLevel :: Level where
  "log_WarnLevel = 2"

definition log_ErrorLevel :: Level where
  "log_ErrorLevel = 3"

definition log_FatalLevel :: Level where
  "log_FatalLevel = 4"

lemmas log_levels = log_DebugLevel_def log_InfoLevel_def log_WarnLevel_def log_ErrorLevel_def
  log_FatalLevel_def

definition Level_String :: "Level \<Rightarrow> string" where
  "Level_String l =
     (if l = log_DebugLevel then ''debug''
      else if l = log_InfoLevel then ''info''
      else if l = log_WarnLevel then ''warning''
      else if l = log_ErrorLevel then ''error''
      else if l = log_FatalLevel then ''fatal''
      else ''unknown'')"

subsection \<open>Destinations\<close>

datatype base_method = Base_Debug | Base_Info | Base_Warn | Base_Error | Base_Fatal

type_synonym 'b base_impl = "base_method \<Rightarrow> string list \<Rightarrow> 'b \<Rightarrow> 'b"

text \<open>
  The package's destination: the lines printed after the standard logger's own prefix, and
  the exit status once \<open>os.Exit\<close> has run. The arguments are strings, which \<open>Print\<close>
  concatenates; nothing is printed after the exit.
\<close>

record baseLogger =
  out_lines :: "string list"
  exit_status :: "int option"

definition prefixPrint :: "string \<Rightarrow> string list \<Rightarrow> baseLogger \<Rightarrow> baseLogger" where
  "prefixPrint prefix args b =
     (if exit_status b = None then b\<lparr>out_lines := out_lines b @ [concat (prefix # args)]\<rparr> else b)"

fun baseLogger_impl :: "baseLogger base_impl" where
  "baseLogger_impl Base_Debug args b = prefixPrint ''DEBUG: '' args b"
| "baseLogger_impl Base_Info args b = prefixPrint ''INFO: '' args b"
| "baseLogger_impl Base_Warn args b = prefixPrint ''WARN: '' args b"
| "baseLogger_impl Base_Error args b = prefixPrint ''ERROR: '' args b"
| "baseLogger_impl Base_Fatal args b =
     (let b' = prefixPrint ''FATAL: '' args b
      in if exit_status b' = None then b'\<lparr>exit_status := Some 1\<rparr> else b')"

subsection \<open>The logger\<close>

record 'b Logger =
  lg_base :: 'b
  lg_level :: Level

definition NewLogger :: "'b option \<Rightarrow> 'b \<Rightarrow> 'b Logger" where
  "NewLogger base stderr_base =
     \<lparr>lg_base = (case base of None \<Rightarrow> stderr_base | Some b \<Rightarrow> b), lg_level = log_DebugLevel\<rparr>"

definition canLogAt :: "Level \<Rightarrow> 'b Logger \<Rightarrow> bool" where
  "canLogAt v l \<longleftrightarrow> v \<ge> lg_level l"

definition Logger_Debug :: "'b base_impl \<Rightarrow> string list \<Rightarrow> 'b Logger \<Rightarrow> 'b Logger" where
  "Logger_Debug impl args l =
     (if \<not> canLogAt log_DebugLevel l then l else l\<lparr>lg_base := impl Base_Debug args (lg_base l)\<rparr>)"

definition Logger_Info :: "'b base_impl \<Rightarrow> string list \<Rightarrow> 'b Logger \<Rightarrow> 'b Logger" where
  "Logger_Info impl args l =
     (if \<not> canLogAt log_InfoLevel l then l else l\<lparr>lg_base := impl Base_Info args (lg_base l)\<rparr>)"

definition Logger_Warn :: "'b base_impl \<Rightarrow> string list \<Rightarrow> 'b Logger \<Rightarrow> 'b Logger" where
  "Logger_Warn impl args l =
     (if \<not> canLogAt log_WarnLevel l then l else l\<lparr>lg_base := impl Base_Warn args (lg_base l)\<rparr>)"

definition Logger_Error :: "'b base_impl \<Rightarrow> string list \<Rightarrow> 'b Logger \<Rightarrow> 'b Logger" where
  "Logger_Error impl args l =
     (if \<not> canLogAt log_ErrorLevel l then l else l\<lparr>lg_base := impl Base_Error args (lg_base l)\<rparr>)"

definition Logger_Fatal :: "'b base_impl \<Rightarrow> string list \<Rightarrow> 'b Logger \<Rightarrow> 'b Logger" where
  "Logger_Fatal impl args l =
     (if \<not> canLogAt log_FatalLevel l then l else l\<lparr>lg_base := impl Base_Fatal args (lg_base l)\<rparr>)"

text \<open>The formatting methods; \<open>sprintf\<close> is the text \<open>fmt.Sprintf\<close> makes of format and arguments.\<close>

definition Logger_Debugf where
  "Logger_Debugf impl sprintf fmt args l = Logger_Debug impl [sprintf fmt args] l"

definition Logger_Infof where
  "Logger_Infof impl sprintf fmt args l = Logger_Info impl [sprintf fmt args] l"

definition Logger_Warnf where
  "Logger_Warnf impl sprintf fmt args l = Logger_Warn impl [sprintf fmt args] l"

definition Logger_Errorf where
  "Logger_Errorf impl sprintf fmt args l = Logger_Error impl [sprintf fmt args] l"

definition Logger_Fatalf where
  "Logger_Fatalf impl sprintf fmt args l = Logger_Fatal impl [sprintf fmt args] l"

definition SetLevel :: "Level \<Rightarrow> 'b Logger \<Rightarrow> 'b Logger option" where
  "SetLevel v l =
     (if v < log_DebugLevel \<or> v > log_FatalLevel then None else Some (l\<lparr>lg_level := v\<rparr>))"

subsection \<open>Facts\<close>

text \<open>The five methods by their level.\<close>

fun method_level :: "base_method \<Rightarrow> Level" where
  "method_level Base_Debug = log_DebugLevel"
| "method_level Base_Info = log_InfoLevel"
| "method_level Base_Warn = log_WarnLevel"
| "method_level Base_Error = log_ErrorLevel"
| "method_level Base_Fatal = log_FatalLevel"

fun log_at :: "base_method \<Rightarrow> 'b base_impl \<Rightarrow> string list \<Rightarrow> 'b Logger \<Rightarrow> 'b Logger" where
  "log_at Base_Debug = Logger_Debug"
| "log_at Base_Info = Logger_Info"
| "log_at Base_Warn = Logger_Warn"
| "log_at Base_Error = Logger_Error"
| "log_at Base_Fatal = Logger_Fatal"

lemma log_at_gate:
  "log_at m impl args l =
     (if lg_level l \<le> method_level m then l\<lparr>lg_base := impl m args (lg_base l)\<rparr> else l)"
  by (cases m)
    (auto simp: canLogAt_def Logger_Debug_def Logger_Info_def Logger_Warn_def Logger_Error_def
      Logger_Fatal_def)

lemma Fatal_always_logs: "SetLevel v l = Some l' \<Longrightarrow> lg_level l' \<le> log_FatalLevel"
  by (auto simp: SetLevel_def split: if_splits)

end
