(* ===== verification/Server.thy ===== *)
theory Server
  imports Logger Workers
begin

text \<open>
  \<open>server.go\<close>: the configuration and its defaults, the life cycle of a server, log levels
  and the default retry delay.
\<close>

subsection \<open>Server state\<close>

datatype serverStateValue = srvStateNew | srvStateActive | srvStateStopped | srvStateClosed

fun serverStateValue_String :: "serverStateValue \<Rightarrow> string" where
  "serverStateValue_String srvStateNew = ''new''"
| "serverStateValue_String srvStateActive = ''active''"
| "serverStateValue_String srvStateStopped = ''stopped''"
| "serverStateValue_String srvStateClosed = ''closed''"

subsection \<open>Log levels\<close>

type_synonym LogLevel = int \<comment> \<open>\<open>int32\<close>, only compared\<close>

definition level_unspecified :: LogLevel where "level_unspecified = 0"
definition DebugLevel :: LogLevel where "DebugLevel = 1"
definition InfoLevel :: LogLevel where "InfoLevel = 2"
definition WarnLevel :: LogLevel where "WarnLevel = 3"
definition ErrorLevel :: LogLevel where "ErrorLevel = 4"
definition FatalLevel :: LogLevel where "FatalLevel = 5"

lemmas srv_levels = level_unspecified_def DebugLevel_def InfoLevel_def WarnLevel_def ErrorLevel_def
  FatalLevel_def

text \<open>\<open>String\<close> panics on any other value: \<open>None\<close>.\<close>

definition LogLevel_String :: "LogLevel \<Rightarrow> string option" where
  "LogLevel_String l =
     (if l = DebugLevel then Some ''debug''
      else if l = InfoLevel then Some ''info''
      else if l = WarnLevel then Some ''warn''
      else if l = ErrorLevel then Some ''error''
      else if l = FatalLevel then Some ''fatal''
      else None)"

text \<open>
  \<open>strings.ToLower\<close>, up to the code points whose lower case has no ASCII letter: besides the
  ASCII capitals only U+0130 and U+212A have one.
\<close>

definition lower_ascii :: "char \<Rightarrow> char" where
  "lower_ascii c =
     (let n = of_char c :: nat in if 65 \<le> n \<and> n \<le> 90 then char_of (n + 32) else c)"

fun ToLower :: "string \<Rightarrow> string" where
  "ToLower [] = []"
| "ToLower (c # cs) =
     (if c = CHR 0xC4 \<and> take 1 cs = [CHR 0xB0] then CHR ''i'' # ToLower (drop 1 cs)
      else if c = CHR 0xE2 \<and> take 2 cs = [CHR 0x84, CHR 0xAA] then CHR ''k'' # ToLower (drop 2 cs)
      else lower_ascii c # ToLower cs)"

text \<open>The new value of the flag, or the error that leaves it as it was.\<close>

definition LogLevel_Set :: "string \<Rightarrow> gerror + LogLevel" where
  "LogLevel_Set val =
     (let v = ToLower val in
      if v = ''debug'' then Inr DebugLevel
      else if v = ''info'' then Inr InfoLevel
      else if v = ''warn'' \<or> v = ''warning'' then Inr WarnLevel
      else if v = ''error'' then Inr ErrorLevel
      else if v = ''fatal'' then Inr FatalLevel
      else Inl (Plain (''titanqueue: unsupported log level '' @ quoted val)))"

definition toInternalLogLevel :: "LogLevel \<Rightarrow> Level option" where
  "toInternalLogLevel l =
     (if l = DebugLevel then Some log_DebugLevel
      else if l = InfoLevel then Some log_InfoLevel
      else if l = WarnLevel then Some log_WarnLevel
      else if l = ErrorLevel then Some log_ErrorLevel
      else if l = FatalLevel then Some log_FatalLevel
      else None)"

subsection \<open>Retry delay\<close>

text \<open>
  \<open>math.Pow(float64(n), 4)\<close> squares twice, each product rounded to a double; the conversion
  to \<open>int\<close> of a value out of range gives the smallest integer, as it does on amd64.
\<close>

definition pow4 :: "int \<Rightarrow> int" where
  "pow4 n = (let x = to_double n; y = to_double (x * x) in to_double (y * y))"

definition double_to_int :: "int \<Rightarrow> int" where
  "double_to_int x = (if - 9223372036854775808 \<le> x \<and> x \<le> max_int64 then x else - 9223372036854775808)"

text \<open>\<open>r\<close> is the value of \<open>rand.IntN(30)\<close>; the result is in nanoseconds.\<close>

definition DefaultRetryDelayFunc :: "int \<Rightarrow> int \<Rightarrow> int" where
  "DefaultRetryDelayFunc r n =
     (let s = wrap64 (wrap64 (double_to_int (pow4 n) + 15) + wrap64 (r * wrap64 (n + 1)))
      in wrap64 (s * second_ns))"

definition defaultIsFailureFunc :: "gerror option \<Rightarrow> bool" where
  "defaultIsFailureFunc err \<longleftrightarrow> err \<noteq> None"

subsection \<open>Configuration\<close>

record ('c, 'd, 'f) Config =
  cfg_Concurrency :: int
  cfg_BaseContext :: "'c option"
  cfg_TaskCheckInterval :: int
  cfg_RetryDelayFunc :: "'d option"
  cfg_IsFailure :: "'f option"
  cfg_Queues :: "(string \<times> int) list"
  cfg_StrictPriority :: bool
  cfg_LogLevel :: LogLevel
  cfg_ShutdownTimeout :: int
  cfg_HealthCheckInterval :: int
  cfg_DelayedTaskCheckInterval :: int
  cfg_JanitorInterval :: int
  cfg_JanitorBatchSize :: int

definition defaultQueueConfig :: "(string \<times> int) list" where
  "defaultQueueConfig = [(DefaultQueueName, 1)]"

definition defaultTaskCheckInterval :: int where "defaultTaskCheckInterval = 1 * second_ns"
definition defaultShutdownTimeout :: int where "defaultShutdownTimeout = 8 * second_ns"
definition defaultHealthCheckInterval :: int where "defaultHealthCheckInterval = 15 * second_ns"
definition defaultDelayedTaskCheckInterval :: int where
  "defaultDelayedTaskCheckInterval = 5 * second_ns"
definition defaultJanitorInterval :: int where "defaultJanitorInterval = 8 * second_ns"
definition defaultJanitorBatchSize :: int where "defaultJanitorBatchSize = 100"

text \<open>What the components of a server are made with.\<close>

record ('c, 'd, 'f) server_params =
  sp_concurrency :: int
  sp_baseCtxFn :: 'c
  sp_taskCheckInterval :: int
  sp_retryDelayFunc :: 'd
  sp_isFailureFunc :: 'f
  sp_queues :: "(string \<times> int) list"
  sp_qnames :: "string list"
  sp_queueConfig :: "(string \<times> int) list" \<comment> \<open>of the processor\<close>
  sp_orderedQueues :: "string list option"
  sp_logLevel :: Level
  sp_shutdownTimeout :: int
  sp_healthcheckInterval :: int
  sp_delayedTaskCheckInterval :: int
  sp_janitorInterval :: int
  sp_janitorBatchSize :: int
  sp_syncInterval :: int
  sp_heartbeatInterval :: int
  sp_recoverInterval :: int

text \<open>The queues of the configuration that are served.\<close>

definition config_queues :: "(string \<times> int) list \<Rightarrow> (string \<times> int) list" where
  "config_queues qs =
     (let valid = filter (\<lambda>(qname, p). ValidateQueueName qname = None \<and> 0 < p) qs
      in if valid = [] then defaultQueueConfig else valid)"

text \<open>\<open>newProcessor\<close>: the normalised priorities and, for strict priority, the fixed order.\<close>

definition newProcessor_queues ::
  "(string \<times> int) list \<Rightarrow> bool \<Rightarrow> ((string \<times> int) list \<times> string list option) option" where
  "newProcessor_queues qs0 strictPriority =
     (case normalizeQueues qs0 of
        None \<Rightarrow> None
      | Some qs \<Rightarrow> Some (qs, if strictPriority then Some (sortByPriority qs) else None))"

text \<open>
  \<open>background\<close>, \<open>delayDefault\<close> and \<open>failureDefault\<close> are \<open>context.Background\<close>,
  \<open>DefaultRetryDelayFunc\<close> and \<open>defaultIsFailureFunc\<close>. \<open>None\<close> is a panic.
\<close>

definition NewServerFromRedisClient ::
  "int \<Rightarrow> 'c \<Rightarrow> 'd \<Rightarrow> 'f \<Rightarrow> ('c, 'd, 'f) Config \<Rightarrow> ('c, 'd, 'f) server_params option" where
  "NewServerFromRedisClient numCPU background delayDefault failureDefault cfg =
     (let n = (if cfg_Concurrency cfg < 1 then numCPU else cfg_Concurrency cfg);
          tci = (if cfg_TaskCheckInterval cfg \<le> 0 then defaultTaskCheckInterval
                 else cfg_TaskCheckInterval cfg);
          qs = config_queues (cfg_Queues cfg);
          loglevel = (if cfg_LogLevel cfg = level_unspecified then InfoLevel else cfg_LogLevel cfg)
      in case toInternalLogLevel loglevel of
           None \<Rightarrow> None
         | Some lvl \<Rightarrow>
             (case newProcessor_queues qs (cfg_StrictPriority cfg) of
                None \<Rightarrow> None
              | Some (qc, oq) \<Rightarrow> Some
                 \<lparr>sp_concurrency = n,
                  sp_baseCtxFn = (case cfg_BaseContext cfg of None \<Rightarrow> background | Some f \<Rightarrow> f),
                  sp_taskCheckInterval = tci,
                  sp_retryDelayFunc = (case cfg_RetryDelayFunc cfg of None \<Rightarrow> delayDefault | Some f \<Rightarrow> f),
                  sp_isFailureFunc = (case cfg_IsFailure cfg of None \<Rightarrow> failureDefault | Some f \<Rightarrow> f),
                  sp_queues = qs,
                  sp_qnames = map fst qs,
                  sp_queueConfig = qc,
                  sp_orderedQueues = oq,
                  sp_logLevel = lvl,
                  sp_shutdownTimeout =
                    (if cfg_ShutdownTimeout cfg = 0 then defaultShutdownTimeout else cfg_ShutdownTimeout cfg),
                  sp_healthcheckInterval =
                    (if cfg_HealthCheckInterval cfg = 0 then defaultHealthCheckInterval
                     else cfg_HealthCheckInterval cfg),
                  sp_delayedTaskCheckInterval =
                    (if cfg_DelayedTaskCheckInterval cfg = 0 then defaultDelayedTaskCheckInterval
                     else cfg_DelayedTaskCheckInterval cfg),
                  sp_janitorInterval =
                    (if cfg_JanitorInterval cfg = 0 then defaultJanitorInterval else cfg_JanitorInterval cfg),
                  sp_janitorBatchSize =
                    (if cfg_JanitorBatchSize cfg = 0 then defaultJanitorBatchSize else cfg_JanitorBatchSize cfg),
                  sp_syncInterval = 5 * second_ns,
                  sp_heartbeatInterval = 5 * second_ns,
                  sp_recoverInterval = 60 * second_ns\<rparr>))"

subsection \<open>Life cycle\<close>

datatype component = Heartbeater | Healthchecker | Subscriber | Syncer | Recoverer | Forwarder
  | Processor_comp | Janitor

text \<open>What a call does beyond the state: in the order of the code.\<close>

datatype srv_event = Ev_start component | Ev_stop_processor | Ev_shutdown component | Ev_wait | Ev_close
  | Ev_ping

record 'h Server =
  srv_state :: serverStateValue
  srv_sharedConnection :: bool
  srv_handler :: "'h option" \<comment> \<open>\<open>processor.handler\<close>; \<open>None\<close> is the one that fails\<close>
  srv_events :: "srv_event list"

definition new_server :: "bool \<Rightarrow> 'h Server" where
  "new_server shared =
     \<lparr>srv_state = srvStateNew, srv_sharedConnection = shared, srv_handler = None, srv_events = []\<rparr>"

definition emit :: "srv_event list \<Rightarrow> 'h Server \<Rightarrow> 'h Server" where
  "emit evs srv = srv\<lparr>srv_events := srv_events srv @ evs\<rparr>"

definition Server_start :: "'h Server \<Rightarrow> gerror option \<times> 'h Server" where
  "Server_start srv =
     (case srv_state srv of
        srvStateActive \<Rightarrow> (Some (Plain ''titanqueue: the server is already running''), srv)
      | srvStateStopped \<Rightarrow>
          (Some (Plain ''titanqueue: the server is in the stopped state. Waiting for shutdown.''), srv)
      | srvStateClosed \<Rightarrow> (Some (Sentinel ErrServerClosed), srv)
      | srvStateNew \<Rightarrow> (None, srv\<lparr>srv_state := srvStateActive\<rparr>))"

definition start_events :: "srv_event list" where
  "start_events = map Ev_start
     [Heartbeater, Healthchecker, Subscriber, Syncer, Recoverer, Forwarder, Processor_comp, Janitor]"

text \<open>A nil handler is \<open>None\<close>.\<close>

definition Server_Start :: "'h option \<Rightarrow> 'h Server \<Rightarrow> gerror option \<times> 'h Server" where
  "Server_Start handler srv =
     (case handler of
        None \<Rightarrow> (Some (Plain ''titanqueue: server cannot run with nil handler''), srv)
      | Some h \<Rightarrow>
          (let srv1 = srv\<lparr>srv_handler := Some h\<rparr> in
           case Server_start srv1 of
             (Some err, srv2) \<Rightarrow> (Some err, srv2)
           | (None, srv2) \<Rightarrow> (None, emit start_events srv2)))"

definition shutdown_events :: "srv_event list" where
  "shutdown_events = map Ev_shutdown
     [Forwarder, Processor_comp, Recoverer, Syncer, Subscriber, Janitor, Healthchecker, Heartbeater]
     @ [Ev_wait]"

definition Server_Shutdown :: "'h Server \<Rightarrow> 'h Server" where
  "Server_Shutdown srv =
     (if srv_state srv = srvStateNew \<or> srv_state srv = srvStateClosed then srv
      else emit (shutdown_events @ (if \<not> srv_sharedConnection srv then [Ev_close] else []))
             (srv\<lparr>srv_state := srvStateClosed\<rparr>))"

definition Server_Stop :: "'h Server \<Rightarrow> 'h Server" where
  "Server_Stop srv =
     (if srv_state srv \<noteq> srvStateActive then srv
      else emit [Ev_stop_processor] (srv\<lparr>srv_state := srvStateStopped\<rparr>))"

text \<open>\<open>ping\<close> is the answer of \<open>broker.Ping\<close>.\<close>

definition Server_Ping :: "gerror option \<Rightarrow> 'h Server \<Rightarrow> gerror option \<times> 'h Server" where
  "Server_Ping ping srv =
     (if srv_state srv = srvStateClosed then (None, srv) else (ping, emit [Ev_ping] srv))"

text \<open>\<open>waitForSignals\<close> (\<open>signals_unix.go\<close>): \<open>SIGTSTP\<close> stops the processor, the others end it.\<close>

datatype os_signal = SIGTERM | SIGINT | SIGTSTP

fun waitForSignals :: "os_signal list \<Rightarrow> 'h Server \<Rightarrow> 'h Server option" where
  "waitForSignals [] srv = None" \<comment> \<open>still waiting\<close>
| "waitForSignals (sig # sigs) srv =
     (if sig = SIGTSTP then waitForSignals sigs (Server_Stop srv) else Some srv)"

text \<open>On Windows (\<open>signals_windows.go\<close>) only an interrupt is delivered, and ends the wait.\<close>

definition waitForSignals_windows :: "os_signal list \<Rightarrow> 'h Server \<Rightarrow> 'h Server option" where
  "waitForSignals_windows sigs srv = (if SIGINT \<in> set sigs then Some srv else None)"

text \<open>\<open>None\<close>: no signal has ended the run yet.\<close>

definition Server_Run :: "os_signal list \<Rightarrow> 'h option \<Rightarrow> 'h Server \<Rightarrow> (gerror option \<times> 'h Server) option" where
  "Server_Run sigs handler srv =
     (case Server_Start handler srv of
        (Some err, srv1) \<Rightarrow> Some (Some err, srv1)
      | (None, srv1) \<Rightarrow>
          (case waitForSignals sigs srv1 of
             None \<Rightarrow> None
           | Some srv2 \<Rightarrow> Some (None, Server_Shutdown srv2)))"

subsection \<open>Facts\<close>

datatype 'h srv_op = Op_Start "'h option" | Op_Stop | Op_Shutdown | Op_Ping "gerror option"

fun srv_step :: "'h srv_op \<Rightarrow> 'h Server \<Rightarrow> 'h Server" where
  "srv_step (Op_Start h) srv = snd (Server_Start h srv)"
| "srv_step Op_Stop srv = Server_Stop srv"
| "srv_step Op_Shutdown srv = Server_Shutdown srv"
| "srv_step (Op_Ping p) srv = snd (Server_Ping p srv)"

definition srv_run :: "'h srv_op list \<Rightarrow> 'h Server \<Rightarrow> 'h Server" where
  "srv_run ops srv = fold srv_step ops srv"

definition close_events :: "bool \<Rightarrow> srv_event list" where
  "close_events shared = (if \<not> shared then [Ev_close] else [])"

text \<open>What has happened, pings left out, in each state.\<close>

definition srv_ok :: "bool \<Rightarrow> 'h Server \<Rightarrow> bool" where
  "srv_ok shared srv \<longleftrightarrow>
     srv_sharedConnection srv = shared
     \<and> filter (\<lambda>e. e \<noteq> Ev_ping) (srv_events srv) \<in>
       (case srv_state srv of
          srvStateNew \<Rightarrow> {[]}
        | srvStateActive \<Rightarrow> {start_events}
        | srvStateStopped \<Rightarrow> {start_events @ [Ev_stop_processor]}
        | srvStateClosed \<Rightarrow>
            {start_events @ shutdown_events @ close_events shared,
             start_events @ [Ev_stop_processor] @ shutdown_events @ close_events shared})"

lemma no_ping_events [simp]:
  "filter (\<lambda>e. e \<noteq> Ev_ping) start_events = start_events"
  "filter (\<lambda>e. e \<noteq> Ev_ping) shutdown_events = shutdown_events"
  by (simp_all add: start_events_def shutdown_events_def)

lemma srv_ok_step: "srv_ok shared srv \<Longrightarrow> srv_ok shared (srv_step op srv)"
  by (cases op; cases "srv_state srv")
    (auto simp: srv_ok_def Server_Start_def Server_start_def Server_Stop_def Server_Shutdown_def
      Server_Ping_def emit_def close_events_def split: option.split)

lemma srv_ok_run: "srv_ok shared srv \<Longrightarrow> srv_ok shared (srv_run ops srv)"
  by (induction ops arbitrary: srv) (simp_all add: srv_run_def srv_ok_step)

lemma srv_ok_new: "srv_ok shared (new_server shared)"
  by (simp add: srv_ok_def new_server_def)

lemma closed_run:
  "srv_state srv = srvStateClosed \<Longrightarrow>
   srv_state (srv_run ops srv) = srvStateClosed \<and> srv_events (srv_run ops srv) = srv_events srv"
proof (induction ops arbitrary: srv)
  case (Cons op ops)
  have "srv_state (srv_step op srv) = srvStateClosed \<and> srv_events (srv_step op srv) = srv_events srv"
    using Cons.prems
    by (cases op)
      (auto simp: Server_Start_def Server_start_def Server_Stop_def Server_Shutdown_def Server_Ping_def
        split: option.split)
  then show ?case using Cons.IH by (simp add: srv_run_def)
qed (simp add: srv_run_def)

lemma bitlen_le: "n < 2 ^ k \<Longrightarrow> bitlen n \<le> k"
proof (induction k arbitrary: n)
  case 0
  then show ?case by (subst bitlen.simps) simp
next
  case (Suc k)
  show ?case
  proof (cases "n \<le> 0")
    case True
    then show ?thesis by (subst bitlen.simps) simp
  next
    case False
    have "n div 2 < 2 ^ k" using Suc.prems by (simp add: div_less_iff_less_mult)
    then have "bitlen (n div 2) \<le> k" by (rule Suc.IH)
    then show ?thesis using False by (subst bitlen.simps) simp
  qed
qed

lemma to_double_exact: "\<bar>i\<bar> < 2 ^ 53 \<Longrightarrow> to_double i = i"
  using bitlen_le [of "\<bar>i\<bar>" 53] by (simp add: to_double_def Let_def)

lemma pow4_exact:
  assumes "0 \<le> n" and "n \<le> 9741"
  shows "pow4 n = n ^ 4" and "n ^ 4 < 2 ^ 53"
proof -
  have "n ^ 4 \<le> 9741 ^ 4" using assms by (intro power_mono) auto
  also have "(9741::int) ^ 4 < 2 ^ 53" by simp
  finally show b: "n ^ 4 < 2 ^ 53" .
  have "n * n \<le> 9741 * 9741" using assms by (intro mult_mono) auto
  then have "to_double (n * n) = n * n" using assms by (intro to_double_exact) auto
  moreover have "to_double n = n" using assms by (intro to_double_exact) auto
  moreover have e: "n * n * (n * n) = n ^ 4" by (simp add: power4_eq_xxxx mult.assoc)
  moreover have "to_double (n ^ 4) = n ^ 4" using b by (intro to_double_exact) simp
  ultimately show "pow4 n = n ^ 4" by (simp only: pow4_def Let_def)
qed

lemma retry_delay_seconds:
  assumes "0 \<le> n" and "n \<le> 9741" and "0 \<le> r" and "r < 30"
  shows "DefaultRetryDelayFunc r n = wrap64 ((n ^ 4 + 15 + r * (n + 1)) * second_ns)"
proof -
  note p = pow4_exact [OF assms(1,2)]
  have z: "0 \<le> n ^ 4" by simp
  have "r * (n + 1) \<le> 29 * 9742" using assms by (intro mult_mono) auto
  then have m: "r * (n + 1) \<le> 282518" by simp
  have m0: "0 \<le> r * (n + 1)" using assms by simp
  have w: "wrap64 i = i" if "0 \<le> i" "i < 2 ^ 62" for i
    using that by (simp add: wrap64_def)
  have "wrap64 (n + 1) = n + 1" using assms by (intro w) auto
  moreover have "wrap64 (r * (n + 1)) = r * (n + 1)" using m m0 by (intro w) auto
  moreover have "double_to_int (n ^ 4) = n ^ 4"
  proof -
    have "- 9223372036854775808 \<le> n ^ 4" using z by linarith
    moreover have "n ^ 4 \<le> 9223372036854775807" using p(2) by simp
    ultimately show ?thesis by (simp only: double_to_int_def max_int64_def if_True simp_thms)
  qed
  moreover have "wrap64 (n ^ 4 + 15) = n ^ 4 + 15" using p(2) z by (intro w) auto
  moreover have "wrap64 (n ^ 4 + 15 + r * (n + 1)) = n ^ 4 + 15 + r * (n + 1)"
    using p(2) z m m0 by (intro w) auto
  ultimately show ?thesis using p(1) by (simp only: DefaultRetryDelayFunc_def Let_def)
qed

lemma config_queues_ok:
  "config_queues qs \<noteq> [] \<and> (\<forall>(q, p) \<in> set (config_queues qs). ValidateQueueName q = None \<and> 0 < p)"
proof -
  have "ValidateQueueName DefaultQueueName = None" by code_simp
  then show ?thesis by (auto simp: config_queues_def Let_def defaultQueueConfig_def)
qed

lemma NewServer_facts:
  assumes "cfg_LogLevel cfg = level_unspecified \<or> toInternalLogLevel (cfg_LogLevel cfg) \<noteq> None"
  shows "\<exists>sp. NewServerFromRedisClient numCPU bg dd fd cfg = Some sp
    \<and> sp_queues sp = config_queues (cfg_Queues cfg)
    \<and> sp_qnames sp = map fst (sp_queues sp)
    \<and> sp_concurrency sp = (if cfg_Concurrency cfg < 1 then numCPU else cfg_Concurrency cfg)
    \<and> 0 < sp_taskCheckInterval sp
    \<and> map fst (sp_queueConfig sp) = sp_qnames sp
    \<and> (\<forall>qp \<in> set (sp_queueConfig sp). 0 < snd qp)
    \<and> sp_orderedQueues sp =
        (if cfg_StrictPriority cfg then Some (sortByPriority (sp_queueConfig sp)) else None)"
proof -
  let ?qs = "config_queues (cfg_Queues cfg)"
  let ?l = "if cfg_LogLevel cfg = level_unspecified then InfoLevel else cfg_LogLevel cfg"
  have "toInternalLogLevel InfoLevel \<noteq> None" by (simp add: toInternalLogLevel_def srv_levels)
  then obtain lvl where l: "toInternalLogLevel ?l = Some lvl"
    using assms by (metis option.exhaust)
  have q: "?qs \<noteq> []" "\<forall>p \<in> set ?qs. 0 < snd p" using config_queues_ok [of "cfg_Queues cfg"] by auto
  obtain d cfg' where n: "normalizeQueues ?qs = Some cfg'" "map fst cfg' = map fst ?qs"
    "\<forall>p \<in> set cfg'. 0 < snd p"
    using normalizeQueues_facts [OF q] by blast
  show ?thesis
    using l n
    by (auto simp: NewServerFromRedisClient_def newProcessor_queues_def Let_def
        defaultTaskCheckInterval_def second_ns_def)
qed

end
