(* ===== verification/ConnOpt.thy ===== *)
theory ConnOpt
  imports Errors
begin

text \<open>
  \<open>titanqueue.go\<close>: the Redis connection options and \<open>ParseRedisURI\<close>. The syntax of URLs is
  \<open>net/url\<close>'s: its parser is the argument \<open>parse_url\<close>, and a parsed URL is the record \<open>url\<close>
  of the parts that are read. \<open>SplitHostPort\<close>, \<open>Split\<close>, \<open>Trim\<close> and \<open>Atoi\<close> are written out.
\<close>

record url =
  u_Scheme :: string
  u_Password :: "string option" \<comment> \<open>\<open>u.User.Password()\<close>\<close>
  u_Host :: string
  u_Path :: string
  u_Query :: "(string \<times> string) list"

text \<open>
  \<open>TLSConfig\<close> is its \<open>ServerName\<close>; \<open>None\<close> is nil. Durations are in nanoseconds, and
  \<open>no_client_opt\<close> and \<open>no_failover_opt\<close> are the zero values of the structs.
\<close>

record RedisClientOpt =
  co_Network :: string
  co_Addr :: string
  co_Username :: string
  co_Password :: string
  co_DB :: int
  co_DialTimeout :: int
  co_ReadTimeout :: int
  co_WriteTimeout :: int
  co_PoolSize :: int
  co_TLSConfig :: "string option"

definition no_client_opt :: RedisClientOpt where
  "no_client_opt = \<lparr>co_Network = [], co_Addr = [], co_Username = [], co_Password = [], co_DB = 0,
     co_DialTimeout = 0, co_ReadTimeout = 0, co_WriteTimeout = 0, co_PoolSize = 0, co_TLSConfig = None\<rparr>"

record RedisFailoverClientOpt =
  fo_MasterName :: string
  fo_SentinelAddrs :: "string list"
  fo_SentinelUsername :: string
  fo_SentinelPassword :: string
  fo_Username :: string
  fo_Password :: string
  fo_DB :: int
  fo_DialTimeout :: int
  fo_ReadTimeout :: int
  fo_WriteTimeout :: int
  fo_PoolSize :: int
  fo_TLSConfig :: "string option"

definition no_failover_opt :: RedisFailoverClientOpt where
  "no_failover_opt = \<lparr>fo_MasterName = [], fo_SentinelAddrs = [], fo_SentinelUsername = [],
     fo_SentinelPassword = [], fo_Username = [], fo_Password = [], fo_DB = 0, fo_DialTimeout = 0,
     fo_ReadTimeout = 0, fo_WriteTimeout = 0, fo_PoolSize = 0, fo_TLSConfig = None\<rparr>"

datatype RedisConnOpt = ClientOpt RedisClientOpt | FailoverOpt RedisFailoverClientOpt

text \<open>
  \<open>MakeRedisClient\<close>: the constructors of the client library are arguments, applied to the
  fields of their option structs in the order of the code.
\<close>

definition ClientOpt_MakeRedisClient where
  "ClientOpt_MakeRedisClient redis_NewClient opt =
     redis_NewClient (co_Network opt) (co_Addr opt) (co_Username opt) (co_Password opt) (co_DB opt)
       (co_DialTimeout opt) (co_ReadTimeout opt) (co_WriteTimeout opt) (co_PoolSize opt) (co_TLSConfig opt)"

definition FailoverOpt_MakeRedisClient where
  "FailoverOpt_MakeRedisClient redis_NewFailoverClient opt =
     redis_NewFailoverClient (fo_MasterName opt) (fo_SentinelAddrs opt) (fo_SentinelUsername opt)
       (fo_SentinelPassword opt) (fo_Username opt) (fo_Password opt) (fo_DB opt) (fo_DialTimeout opt)
       (fo_ReadTimeout opt) (fo_WriteTimeout opt) (fo_PoolSize opt) (fo_TLSConfig opt)"

definition MakeRedisClient where
  "MakeRedisClient redis_NewClient redis_NewFailoverClient opt =
     (case opt of ClientOpt c \<Rightarrow> ClientOpt_MakeRedisClient redis_NewClient c
      | FailoverOpt f \<Rightarrow> FailoverOpt_MakeRedisClient redis_NewFailoverClient f)"

subsection \<open>Text\<close>

fun str_split :: "char \<Rightarrow> string \<Rightarrow> string list" where
  "str_split sep [] = [[]]"
| "str_split sep (c # cs) =
     (if c = sep then [] # str_split sep cs
      else (case str_split sep cs of [] \<Rightarrow> [[c]] | w # ws \<Rightarrow> (c # w) # ws))"

definition str_trim :: "char \<Rightarrow> string \<Rightarrow> string" where
  "str_trim sep s = rev (dropWhile (\<lambda>c. c = sep) (rev (dropWhile (\<lambda>c. c = sep) s)))"

text \<open>\<open>strconv.Atoi\<close>: an optional sign, digits, the range of \<open>int\<close>.\<close>

definition Atoi :: "string \<Rightarrow> int option" where
  "Atoi s =
     (case s of
        [] \<Rightarrow> None
      | c # cs \<Rightarrow>
          (let body = (if c = CHR ''-'' \<or> c = CHR ''+'' then cs else s) in
           if body = [] then None
           else case read_digits 0 body of
                  None \<Rightarrow> None
                | Some n \<Rightarrow>
                    (let i = (if c = CHR ''-'' then - int n else int n) in
                     if - (2 ^ 63) \<le> i \<and> i < 2 ^ 63 then Some i else None)))"

text \<open>\<open>net.SplitHostPort\<close>; \<open>None\<close> is its error.\<close>

definition last_index :: "char \<Rightarrow> string \<Rightarrow> nat option" where
  "last_index c s =
     (if c \<in> set s then Some (length s - 1 - length (takeWhile (\<lambda>x. x \<noteq> c) (rev s))) else None)"

definition SplitHostPort :: "string \<Rightarrow> (string \<times> string) option" where
  "SplitHostPort hostport =
     (case last_index (CHR '':'') hostport of
        None \<Rightarrow> None
      | Some i \<Rightarrow>
          if take 1 hostport = ''[''
          then (if CHR '']'' \<notin> set hostport then None
                else (let end = length (takeWhile (\<lambda>x. x \<noteq> CHR '']'') hostport) in
                      if end + 1 \<noteq> i then None
                      else if CHR ''['' \<in> set (drop 1 hostport) \<or> CHR '']'' \<in> set (drop (end + 1) hostport)
                      then None
                      else Some (take (end - 1) (drop 1 hostport), drop (i + 1) hostport)))
          else (let host = take i hostport in
                if CHR '':'' \<in> set host \<or> CHR ''['' \<in> set hostport \<or> CHR '']'' \<in> set hostport then None
                else Some (host, drop (i + 1) hostport)))"

definition url_password :: "url \<Rightarrow> string" where
  "url_password u = (case u_Password u of None \<Rightarrow> [] | Some v \<Rightarrow> v)"

definition query_get :: "url \<Rightarrow> string \<Rightarrow> string" where
  "query_get u k = (case map_of (u_Query u) k of None \<Rightarrow> [] | Some v \<Rightarrow> v)"

subsection \<open>Parsing\<close>

definition parseRedisURI :: "url \<Rightarrow> gerror + RedisConnOpt" where
  "parseRedisURI u =
     (let opt = (\<lambda>db. ClientOpt
            (no_client_opt\<lparr>co_Addr := u_Host u, co_Password := url_password u, co_DB := db,
             co_TLSConfig :=
               (if u_Scheme u = ''rediss''
                then Some (case SplitHostPort (u_Host u) of None \<Rightarrow> u_Host u | Some (h, _) \<Rightarrow> h)
                else None)\<rparr>))
      in if 0 < length (u_Path u)
         then (case Atoi (hd (str_split (CHR ''/'') (str_trim (CHR ''/'') (u_Path u)))) of
                 None \<Rightarrow> Inl (Plain ''titanqueue: could not parse redis uri: database number should be the first segment of the path'')
               | Some db \<Rightarrow> Inr (opt db))
         else Inr (opt 0))"

definition parseRedisSocketURI :: "url \<Rightarrow> gerror + RedisConnOpt" where
  "parseRedisSocketURI u =
     (let errPrefix = ''titanqueue: could not parse redis socket uri'';
          opt = (\<lambda>db. ClientOpt
            (no_client_opt\<lparr>co_Network := ''unix'', co_Addr := u_Path u, co_Password := url_password u,
             co_DB := db\<rparr>));
          n = query_get u ''db''
      in if length (u_Path u) = 0 then Inl (Plain (errPrefix @ '': path does not exist''))
         else if n \<noteq> []
         then (case Atoi n of
                 None \<Rightarrow> Inl (Plain (errPrefix @ '': query param `db` should be a number''))
               | Some db \<Rightarrow> Inr (opt db))
         else Inr (opt 0))"

definition parseRedisSentinelURI :: "url \<Rightarrow> gerror + RedisConnOpt" where
  "parseRedisSentinelURI u =
     Inr (FailoverOpt
       (no_failover_opt\<lparr>fo_MasterName := query_get u ''master'',
        fo_SentinelAddrs := str_split (CHR '','') (u_Host u),
        fo_SentinelPassword := url_password u\<rparr>))"

definition ParseRedisURI :: "(string \<Rightarrow> gerror + url) \<Rightarrow> string \<Rightarrow> gerror + RedisConnOpt" where
  "ParseRedisURI parse_url uri =
     (case parse_url uri of
        Inl err \<Rightarrow> Inl (Wrapf ''titanqueue: could not parse redis uri: '' err)
      | Inr u \<Rightarrow>
          if u_Scheme u = ''redis'' \<or> u_Scheme u = ''rediss'' then parseRedisURI u
          else if u_Scheme u = ''redis-socket'' then parseRedisSocketURI u
          else if u_Scheme u = ''redis-sentinel'' then parseRedisSentinelURI u
          else Inl (Plain (''titanqueue: unsupported uri scheme: '' @ quoted (u_Scheme u))))"

subsection \<open>Facts\<close>

lemma Atoi_show_int:
  assumes "- (2 ^ 63) \<le> i" and "i < 2 ^ 63"
  shows "Atoi (show_int i) = Some i"
proof (cases "i < 0")
  case True
  then show ?thesis using assms by (simp add: Atoi_def show_int_def Let_def)
next
  case False
  obtain c cs where c: "show_nat (nat i) = c # cs" by (cases "show_nat (nat i)") auto
  have "c \<noteq> CHR ''-''" using c by (rule hd_show_nat_neq_minus)
  moreover have "read_digits 0 (c # cs) = Some (nat i)" using read_digits_show_nat [of "nat i"] c by simp
  moreover have "c \<noteq> CHR ''+''"
  proof
    assume "c = CHR ''+''"
    then show False using \<open>read_digits 0 (c # cs) = Some (nat i)\<close> by (simp add: digit_val_def)
  qed
  ultimately show ?thesis
    using False c assms by (simp add: Atoi_def show_int_def Let_def del: read_digits.simps)
qed

lemma str_split_none: "sep \<notin> set s \<Longrightarrow> str_split sep s = [s]"
  by (induction s) auto

lemma str_trim_both:
  assumes "sep \<notin> set s"
  shows "str_trim sep (sep # s) = s" and "str_trim sep s = s"
proof -
  have d: "dropWhile (\<lambda>c. c = sep) t = t" if "sep \<notin> set t" for t
    using that by (cases t) auto
  show "str_trim sep (sep # s) = s" "str_trim sep s = s"
    using d [of s] d [of "rev s"] assms by (simp_all add: str_trim_def)
qed

lemma digit_val_slash: "digit_val (CHR ''/'') = None"
  by (simp add: digit_val_def)

lemma slash_notin_show_int: "CHR ''/'' \<notin> set (show_int i)"
proof -
  have "read_digits a s = None" if "CHR ''/'' \<in> set s" for a s
    using that by (induction s arbitrary: a) (auto simp: digit_val_slash split: option.split)
  then have "CHR ''/'' \<notin> set (show_nat n)" for n
    using read_digits_show_nat [of n] by (metis option.distinct(1))
  then show ?thesis by (simp add: show_int_def)
qed

lemma last_index_port:
  assumes "CHR '':'' \<notin> set p"
  shows "last_index (CHR '':'') (h @ CHR '':'' # p) = Some (length h)"
proof -
  have "takeWhile (\<lambda>x. x \<noteq> CHR '':'') (rev p @ CHR '':'' # rev h) = rev p"
    using assms by (subst takeWhile_append2) auto
  then show ?thesis by (simp add: last_index_def)
qed

lemma SplitHostPort_plain:
  assumes "set h \<inter> {CHR '':'', CHR ''['', CHR '']''} = {}" and "set p \<inter> {CHR '':'', CHR ''['', CHR '']''} = {}"
  shows "SplitHostPort (h @ CHR '':'' # p) = Some (h, p)"
proof -
  have "take 1 (h @ CHR '':'' # p) \<noteq> ''[''" using assms(1) by (cases h) auto
  then show ?thesis
    using assms by (simp add: SplitHostPort_def last_index_port Let_def)
qed

lemma parseRedisURI_tcp:
  assumes "u_Scheme u \<in> {''redis'', ''rediss''}" and "u_Path u = CHR ''/'' # show_int db"
    and "- (2 ^ 63) \<le> db" and "db < 2 ^ 63"
  shows "\<exists>tls. parseRedisURI u = Inr (ClientOpt
           (no_client_opt\<lparr>co_Addr := u_Host u, co_Password := url_password u, co_DB := db,
            co_TLSConfig := tls\<rparr>))
    \<and> (tls \<noteq> None \<longleftrightarrow> u_Scheme u = ''rediss'')"
  using assms slash_notin_show_int [of db] Atoi_show_int [of db]
  by (auto simp: parseRedisURI_def str_trim_both str_split_none)

text \<open>
  A TCP address with a database number in its path: host, database and password are those of
  the URI, and TLS is used exactly for the scheme \<open>rediss\<close>, with the host name to verify.
\<close>

lemma ParseRedisURI_tcp:
  assumes "parse_url uri = Inr u" and "u_Scheme u \<in> {''redis'', ''rediss''}"
    and "u_Path u = CHR ''/'' # show_int db" and "- (2 ^ 63) \<le> db" and "db < 2 ^ 63"
    and "u_Host u = h @ CHR '':'' # p" and "(set h \<union> set p) \<inter> {CHR '':'', CHR ''['', CHR '']''} = {}"
  shows "ParseRedisURI parse_url uri = Inr (ClientOpt
    (no_client_opt\<lparr>co_Addr := h @ CHR '':'' # p, co_Password := url_password u, co_DB := db,
     co_TLSConfig := (if u_Scheme u = ''rediss'' then Some h else None)\<rparr>))"
proof -
  have "SplitHostPort (u_Host u) = Some (h, p)"
    unfolding assms(6) by (rule SplitHostPort_plain) (use assms(7) in auto)
  then show ?thesis
    using assms slash_notin_show_int [of db] Atoi_show_int [of db]
    by (auto simp: ParseRedisURI_def parseRedisURI_def str_trim_both str_split_none)
qed

end
