(* ===== verification/Example.thy ===== *)
theory Example
  imports Server ConnOpt Ui
begin

text \<open>
  A concrete Redis server with one queue, in the states the witnesses of the properties start
  from: a pending task, an active task, a scheduled task. Each is built by running the
  scripts, and comes with the queue it represents.
\<close>

definition demo_msg :: TaskMessage where
  "demo_msg = \<lparr>Type = ''mail'', Payload = Some ''x'', ID = ''t1'', Queue = ''default'', Retry = 25, Retried = 0,
     ErrorMsg = [], LastFailedAt = 0, Timeout = 1800, Deadline = 0, msg_UniqueKey = [], Retention = 0,
     CompletedAt = 0\<rparr>"

definition demo_empty :: keyspace where
  "demo_empty = \<lparr>ents = [], srv_ms = 0\<rparr>"

definition demo_run :: "qop list \<Rightarrow> keyspace" where
  "demo_run ops = fold (\<lambda>op db. snd (run (qop_prog 100 ''default'' op) db)) ops demo_empty"

definition demo_effect :: "qop list \<Rightarrow> queue_state" where
  "demo_effect ops = fold (\<lambda>op st. snd (qop_effect ''default'' op st)) ops empty_queue"

definition no_archive :: "qop \<Rightarrow> bool" where
  "no_archive op \<longleftrightarrow> (case op of Op_archive _ _ _ _ _ _ _ \<Rightarrow> False | _ \<Rightarrow> True)"

lemma no_archive_fits: "no_archive op \<Longrightarrow> trim_fits um op st"
  by (cases op) (simp_all add: no_archive_def)

text \<open>Every trim of the operations fits what \<open>unpack\<close> takes.\<close>

fun ops_fit :: "qop list \<Rightarrow> queue_state \<Rightarrow> bool" where
  "ops_fit [] st = True"
| "ops_fit (op # ops) st = (trim_fits 100 op st \<and> ops_fit ops (snd (qop_effect ''default'' op st)))"

lemma ops_fit_append:
  "ops_fit (xs @ ys) st = (ops_fit xs st \<and> ops_fit ys (fold (\<lambda>op st. snd (qop_effect ''default'' op st)) xs st))"
  by (induction xs arbitrary: st) simp_all

lemma no_archive_ops_fit: "list_all no_archive ops \<Longrightarrow> ops_fit ops st"
  by (induction ops arbitrary: st) (simp_all add: no_archive_fits)

text \<open>The counters after \<open>n\<close> operations are at most twice that.\<close>

lemma demo_rep_fit:
  assumes "ops_fit ops empty_queue" and "length ops < 1000"
  shows "qrep ''default'' (demo_run ops) (demo_effect ops) \<and> qinv (demo_effect ops)
    \<and> 0 \<le> q_daily (demo_effect ops) \<and> q_daily (demo_effect ops) \<le> 2 * int (length ops)
    \<and> q_failed (demo_effect ops) \<le> int (length ops)"
  using assms
proof (induction ops rule: rev_induct)
  case Nil
  then show ?case
    using qrep_empty [of "''default''" 0] qinv_empty
    by (simp add: demo_run_def demo_effect_def demo_empty_def empty_queue_def)
next
  case (snoc op ops)
  let ?st = "demo_effect ops"
  have ih: "qrep ''default'' (demo_run ops) ?st" "qinv ?st" "0 \<le> q_daily ?st"
    "q_daily ?st \<le> 2 * int (length ops)" "q_failed ?st \<le> int (length ops)"
    using snoc by (auto simp: ops_fit_append)
  have c: "counters_ok ?st"
    using ih(3-5) snoc.prems(2) by (simp add: counters_ok_def max_int64_def)
  have f: "trim_fits 100 op ?st" using snoc.prems(1) by (simp add: ops_fit_append demo_effect_def)
  note d = qop_refines [OF ih(2) c f, where q = "''default''"]
  have "qrep ''default'' (demo_run (ops @ [op])) (demo_effect (ops @ [op]))"
    using doesD(2) [OF d ih(1)] snoc.prems by (simp add: demo_run_def demo_effect_def)
  moreover have "demo_effect (ops @ [op]) = snd (qop_effect ''default'' op ?st)"
    by (simp add: demo_effect_def)
  ultimately show ?case
    using qinv_qop [OF ih(2), of "''default''" op] qop_counters [of ?st "''default''" op] ih(3-5)
    by (auto simp: counts_from_def)
qed

lemmas demo_rep = demo_rep_fit [OF no_archive_ops_fit]

lemma demo_counters_ok:
  assumes "list_all no_archive ops" and "length ops < 1000"
  shows "counters_ok (demo_effect ops)"
  using demo_rep [OF assms] assms(2) by (auto simp: counters_ok_def max_int64_def)

definition demo_pending :: "qop list" where
  "demo_pending = [Op_enqueue ''t1'' (encode demo_msg) 5]"

definition demo_active :: "qop list" where
  "demo_active = demo_pending @ [Op_dequeue 30]"

definition demo_scheduled :: "qop list" where
  "demo_scheduled = [Op_schedule ''t1'' (encode demo_msg) 10]"

definition demo_conn :: "qop list \<Rightarrow> net rdb" where
  "demo_conn ops = \<lparr>conn = \<lparr>server = demo_run ops, faults = []\<rparr>, queuesPublished = [''default'']\<rparr>"

lemma demo_conn_simps [simp]:
  "server (conn (demo_conn ops)) = demo_run ops" "queuesPublished (demo_conn ops) = [''default'']"
  by (simp_all add: demo_conn_def)

lemma demo_ops_ok [simp]:
  "list_all no_archive demo_pending" "list_all no_archive demo_active" "list_all no_archive demo_scheduled"
  "length demo_pending < 1000" "length demo_active < 1000" "length demo_scheduled < 1000"
  by (simp_all add: demo_pending_def demo_active_def demo_scheduled_def no_archive_def)

lemmas demo_pending_rep = demo_rep [of demo_pending, simplified]
lemmas demo_active_rep = demo_rep [of demo_active, simplified]
lemmas demo_scheduled_rep = demo_rep [of demo_scheduled, simplified]

lemma demo_active_task: "''t1'' \<in> set (q_active (demo_effect demo_active))"
  by (simp add: demo_effect_def demo_active_def demo_pending_def empty_queue_def s_enqueue_def s_dequeue_def
      put_fields_def Let_def)

lemma demo_msg_ok: "msg_ok demo_msg"
  by code_simp

lemma demo_msg_simps [simp]:
  "ID demo_msg = ''t1''" "Queue demo_msg = ''default''" "msg_UniqueKey demo_msg = []"
  "Retention demo_msg = 0"
  by (simp_all add: demo_msg_def)

lemma demo_archived: "q_archived (demo_effect demo_active) = []" "q_lease (demo_effect demo_active) = [(30, ''t1'')]"
  by (simp_all add: demo_effect_def demo_active_def demo_pending_def empty_queue_def s_enqueue_def s_dequeue_def
      put_fields_def Let_def zadd_def zrem_def)

lemma demo_fits: "trim_fits 100 (Op_archive ''t1'' m t died cutoff 10000 e) (demo_effect demo_active)"
  by (simp add: demo_archived s_release_def archive_old_def archive_extra_def s_trim_def zadd_def zrem_def
      zrange_le_def zrange_idx_def zrem_all_def Let_def)

lemma demo_send: "redis_client net_send server"
  by (rule net.redis_client_axioms)

subsection \<open>Calls over a network without faults\<close>

lemma net_issue:
  "faults (conn r) = [] \<Longrightarrow>
   issue net_send False p r =
     (go_result (Inr (fst (run p (server (conn r))))),
      r\<lparr>conn := \<lparr>server = apply_prog p (server (conn r)), faults = []\<rparr>\<rparr>)"
  by (simp add: issue_def net_send_def)

lemma demo_no_faults [simp]: "faults (conn (demo_conn ops)) = []"
  by (simp add: demo_conn_def)

lemma demo_settles:
  assumes "settles op = Some ''t1''" and "trim_fits 100 op (demo_effect demo_active)"
  shows "fst (runScript net_send False name (qop_prog 100 ''default'' op) (demo_conn demo_active)) = None"
proof -
  have c: "counters_ok (demo_effect demo_active)" by (rule demo_counters_ok) simp_all
  have r: "fst (run (qop_prog 100 ''default'' op) (demo_run demo_active)) = RStatus ''OK''"
    using doesD(1) [OF qop_refines [OF _ c assms(2)]] demo_active_rep
      settled_not_active(1) [OF assms(1) demo_active_task] by metis
  show ?thesis by (simp add: runScript_def net_issue r)
qed

lemma demo_settle_results:
  "fst (Done net_send False now demo_msg (demo_conn demo_active)) = None"
  "fst (Requeue net_send False demo_msg (demo_conn demo_active)) = None"
  "fst (MarkAsComplete net_send False now demo_msg (demo_conn demo_active)) = None"
  "fst (RDB_Retry net_send False now demo_msg at e f (demo_conn demo_active)) = None"
  "fst (Archive 100 net_send False now demo_msg e (demo_conn demo_active)) = None"
proof -
  let ?e = "unix (now + statsTTL)"
  show "fst (Done net_send False now demo_msg (demo_conn demo_active)) = None"
    using demo_settles [of "Op_done ''t1'' now ?e" "''rdb.Done''"]
    by (subst Done_plain [where um = 100]) simp_all
  show "fst (Requeue net_send False demo_msg (demo_conn demo_active)) = None"
    using demo_settles [of "Op_requeue ''t1''" "''rdb.Requeue''"]
    by (subst Requeue_qop [where um = 100]) simp_all
  show "fst (MarkAsComplete net_send False now demo_msg (demo_conn demo_active)) = None"
    using demo_settles [of "Op_complete ''t1'' now ?e (wrap64 (unix now + 0))
        (encode (demo_msg\<lparr>CompletedAt := unix now\<rparr>))" "''rdb.MarkAsComplete''"]
    by (subst MarkAsComplete_qop [where um = 100]) (auto simp: Let_def split: prod.split)
  show "fst (RDB_Retry net_send False now demo_msg at e f (demo_conn demo_active)) = None"
    using demo_settles [of "Op_retry ''t1'' (encode (retry_message now e f demo_msg)) now (unix at) ?e f"
        "''rdb.Retry''"]
    by (subst Retry_qop [where um = 100]) simp_all
  show "fst (Archive 100 net_send False now demo_msg e (demo_conn demo_active)) = None"
    using demo_settles [of "Op_archive ''t1'' (encode (archive_message now e demo_msg)) now (unix now)
        (unix (archive_cutoff now)) 10000 ?e" "''rdb.Archive''"] demo_fits
    by (subst Archive_qop) (simp add: maxArchiveSize_def)
qed

end
