(* ===== verification/LifeProps.thy ===== *)
theory LifeProps
  imports Example LifeCycle
begin

text \<open>
  The promises the broker makes about a task over its whole life, whatever clients and servers
  do with the queues in between: it moves along the documented life cycle, is not lost, is
  handed to one worker at a time, and waits in the order of arrival.
\<close>

lemma reach_follow:
  assumes "reach um B n db" and "execution um B db tr db'" and "n + length tr < 2 ^ 61" and "good_name q" and "q \<notin> B"
    and "\<And>st. qrep q db st \<Longrightarrow> qinv st \<Longrightarrow> P st"
    and "\<And>op st. (q, op) \<in> set tr \<Longrightarrow> qinv st \<Longrightarrow> P st \<Longrightarrow> P (snd (qop_effect q op st))"
    and "\<And>U st. P st \<Longrightarrow> P (drop_locks U st)"
  obtains st where "qrep q db' st" and "qinv st" and "P st" and "counters_ok st"
proof -
  obtain st0 where st0: "qrep q db st0" "qinv st0" "0 \<le> q_daily st0" "q_daily st0 \<le> 2 * int n" "q_failed st0 \<le> int n"
    using reach_queue_ok [OF assms(1) _ assms(4,5)] assms(3) by (auto simp: queue_ok_def)
  obtain st where "qrep q db' st" "qinv st" "P st" "0 \<le> q_daily st"
    "q_daily st \<le> 2 * int (n + length tr)" "q_failed st \<le> int (n + length tr)"
    using execution_keeps [OF assms(2-5) st0 assms(6) [OF st0(1,2)] assms(7,8)] by blast
  then show ?thesis
    using assms(3) by (intro that [of st]) (auto simp: counters_ok_def max_int64_def)
qed

text \<open>
  C5. Each script moves each task along the life cycle, or leaves its state alone: a task starts
  as pending or scheduled, only a pending task becomes active, only the script naming an
  active task settles it, and scheduled and retried tasks become pending again. Trims of the
  archive take no more than \<open>unpack\<close> takes.
\<close>

theorem task_life_cycle:
  assumes "qrep q db st" and "qinv st" and "counters_ok st" and "trim_fits um op st"
  shows "moved op tid (stored_field db q tid ''state'')
    (stored_field (snd (run (qop_prog um q op) db)) q tid ''state'')"
  using qop_moves [OF assms(2), of op tid q] collection_rep(2) [OF assms(1)]
    collection_rep(2) [OF doesD(2) [OF qop_refines [OF assms(2-4)] assms(1)]]
  by (simp add: state_of_def)

theorem task_life_cycle_witness:
  "moved (Op_requeue ''t1'') ''t1'' (stored_field (demo_run demo_active) ''default'' ''t1'' ''state'')
     (stored_field (snd (run (qop_prog 100 ''default'' (Op_requeue ''t1'')) (demo_run demo_active))) ''default'' ''t1'' ''state'')"
  using task_life_cycle [of "''default''" "demo_run demo_active" "demo_effect demo_active" 100 "Op_requeue ''t1''"]
    demo_active_rep demo_counters_ok [of demo_active] by simp

text \<open>
  C1. A task that has been accepted is not lost. From any state of the system, through any
  operations on any queues, as long as none of them finishes the task (done, completed,
  archived), it stays in Redis with its message, in exactly one of the pending, active,
  scheduled and retry collections.
  The queue is one, with no closing brace in its name, in which no trim of the archive takes more
  than \<open>unpack\<close> takes; in other queues one may.
\<close>

theorem accepted_task_not_lost:
  assumes "reach um B n db" and "execution um B db tr db'" and "n + length tr < 2 ^ 61" and "good_name q" and "q \<notin> B"
    and "s \<in> unfinished" and "tid \<in> collection db q s"
    and "list_all (\<lambda>(q', op). q' = q \<longrightarrow> ends op \<noteq> Some tid) tr"
  shows "\<exists>s' \<in> unfinished. tid \<in> collection db' q s' \<and> (\<forall>t. tid \<in> collection db' q t \<longrightarrow> t = s')
    \<and> stored_field db' q tid ''state'' = Some (TaskState_String s') \<and> stored_field db' q tid ''msg'' \<noteq> None"
proof -
  obtain st where st: "qrep q db' st" "qinv st" "\<exists>s' \<in> unfinished. tid \<in> in_state st s'" "counters_ok st"
  proof (rule reach_follow [OF assms(1-5), where P = "\<lambda>st. \<exists>s' \<in> unfinished. tid \<in> in_state st s'"])
    show "qrep q db st \<Longrightarrow> \<exists>s' \<in> unfinished. tid \<in> in_state st s'" for st
      using assms(6,7) collection_rep(1) by blast
    show "\<exists>s' \<in> unfinished. tid \<in> in_state (snd (qop_effect q op st)) s'"
      if "(q, op) \<in> set tr" "qinv st" "\<exists>s' \<in> unfinished. tid \<in> in_state st s'" for op st
    proof -
      have "ends op \<noteq> Some tid" using assms(8) that(1) by (auto simp: list_all_iff)
      then show ?thesis using unfinished_kept [OF that(2)] that(3) by blast
    qed
    show "\<exists>s' \<in> unfinished. tid \<in> in_state (drop_locks U st) s'"
      if "\<exists>s' \<in> unfinished. tid \<in> in_state st s'" for U st
      using that by (auto simp: unfinished_def drop_locks_def)
  qed blast
  then obtain s' where s': "s' \<in> unfinished" "tid \<in> in_state st s'" by blast
  then have "state_of st tid = Some (TaskState_String s')" "field_of st tid ''msg'' \<noteq> None"
    using qinv_state [OF st(2) s'(2)] qinv_msg [OF st(2) s'(2)] by blast+
  moreover have "tid \<in> in_state st t \<Longrightarrow> t = s'" for t
    using placed_unique [OF qinv_parts(4) [OF st(2)] _ s'(2)] by simp
  ultimately show ?thesis
    unfolding collection_rep [OF st(1)] state_of_def using s' by blast
qed

lemma demo_reach_pending: "reach 100 {} 1 (demo_run demo_pending)"
proof -
  have "reach 100 {} 0 demo_empty" unfolding demo_empty_def by (rule reach.fresh)
  then have "reach 100 {} (Suc 0) (demo_run demo_pending)"
    unfolding demo_run_def demo_pending_def
    by (simp only: fold_simps append.simps comp_def id_def) (intro reach.operate; simp add: good_name_def)
  then show ?thesis by simp
qed

text \<open>A worker takes the task and gives it back.\<close>

definition demo_trace :: "(string \<times> qop) list" where
  "demo_trace = [(''default'', Op_dequeue 30), (''default'', Op_requeue ''t1'')]"

definition demo_after :: keyspace where
  "demo_after = demo_run (demo_pending @ [Op_dequeue 30, Op_requeue ''t1''])"

lemma demo_execution: "execution 100 {} (demo_run demo_pending) demo_trace demo_after"
proof -
  have "execution 100 {} (demo_run demo_pending) ([] @ [(''default'', Op_dequeue 30)])
      (snd (run (qop_prog 100 ''default'' (Op_dequeue 30)) (demo_run demo_pending)))"
    by (intro execution.intros) (simp_all add: good_name_def)
  then have "execution 100 {} (demo_run demo_pending) (([] @ [(''default'', Op_dequeue 30)]) @ [(''default'', Op_requeue ''t1'')])
      (snd (run (qop_prog 100 ''default'' (Op_requeue ''t1''))
        (snd (run (qop_prog 100 ''default'' (Op_dequeue 30)) (demo_run demo_pending)))))"
    by (rule execution.operate) (simp_all add: good_name_def)
  then show ?thesis
    by (simp add: demo_trace_def demo_after_def demo_run_def)
qed

lemma demo_pending_collection: "''t1'' \<in> collection (demo_run demo_pending) ''default'' TaskStatePending"
  using demo_pending_rep
  by (subst collection_rep(1) [of _ _ "demo_effect demo_pending"])
     (simp_all add: demo_effect_def demo_pending_def s_enqueue_def empty_queue_def)

theorem accepted_task_not_lost_witness:
  "\<exists>s' \<in> unfinished. ''t1'' \<in> collection demo_after ''default'' s'"
  using accepted_task_not_lost [OF demo_reach_pending demo_execution _ _ _ _ demo_pending_collection]
  by (auto simp: demo_trace_def good_name_def unfinished_def)

text \<open>
  C2. One worker at a time: while an active task is not settled, whatever else happens, it stays
  active, is not pending, and every message a dequeue hands out belongs to another task, which
  was pending and becomes active.
  The queue is one, with no closing brace in its name, in which no trim of the archive takes more
  than \<open>unpack\<close> takes; in other queues one may.
\<close>

theorem active_task_exclusive:
  assumes "reach um B n db" and "execution um B db tr db'" and "n + length tr < 2 ^ 61" and "good_name q" and "q \<notin> B"
    and "tid \<in> collection db q TaskStateActive"
    and "list_all (\<lambda>(q', op). q' = q \<longrightarrow> settles op \<noteq> Some tid) tr"
    and "run (qop_prog um q (Op_dequeue e)) db' = (res, db'')"
  shows "tid \<in> collection db' q TaskStateActive \<and> tid \<notin> collection db' q TaskStatePending
    \<and> (res = RNil \<or> (\<exists>m i. res = RBulk m \<and> i \<noteq> tid \<and> i \<in> collection db' q TaskStatePending
        \<and> stored_field db' q i ''msg'' = Some m \<and> i \<in> collection db'' q TaskStateActive))"
proof -
  obtain st where st: "qrep q db' st" "qinv st" "tid \<in> set (q_active st)" "counters_ok st"
  proof (rule reach_follow [OF assms(1-5), where P = "\<lambda>st. tid \<in> set (q_active st)"])
    show "qrep q db st \<Longrightarrow> tid \<in> set (q_active st)" for st
      using assms(6) collection_rep(1) [of q db st TaskStateActive] by simp
    show "tid \<in> set (q_active (snd (qop_effect q op st)))"
      if "(q, op) \<in> set tr" "qinv st" "tid \<in> set (q_active st)" for op st
      using active_kept [OF that(2,3)] that(1) assms(7) by (fastforce simp: list_all_iff)
    show "tid \<in> set (q_active st) \<Longrightarrow> tid \<in> set (q_active (drop_locks U st))" for U st
      by (simp add: drop_locks_def)
  qed blast
  have pend: "tid \<notin> set (q_pending st)"
    using in_state_disjoint [OF st(2), of tid TaskStateActive TaskStatePending] st(3) by simp
  note d = qop_refines [OF st(2,4), of um "Op_dequeue e" q, simplified trim_fits.simps, OF TrueI]
  have r: "res = bulk_or_nil (fst (s_dequeue e st))" and db'': "qrep q db'' (snd (s_dequeue e st))"
    using doesD [OF d st(1)] assms(8) by simp_all
  show ?thesis
  proof (cases "q_paused st \<or> q_pending st = []")
    case True
    then show ?thesis
      using r st(3) pend
      by (simp add: collection_rep(1) [OF st(1)] s_dequeue_def bulk_or_nil_def del: collection.simps)
  next
    case False
    let ?i = "last (q_pending st)"
    obtain m where m: "field_of st ?i ''msg'' = Some m"
      using qinv_msg [OF st(2), of ?i TaskStatePending] False by auto
    then have "res = RBulk m" using r False by (simp add: s_dequeue_Some bulk_or_nil_def)
    moreover have "?i \<noteq> tid" using pend False by auto
    moreover have "?i \<in> set (q_active (snd (s_dequeue e st)))" using False by (simp add: s_dequeue_Some)
    ultimately show ?thesis
      using st(3) pend m False
      by (auto simp: collection_rep [OF st(1)] collection_rep(1) [OF db''] simp del: collection.simps intro!: exI [of _ ?i])
  qed
qed

lemma demo_active_collection: "''t1'' \<in> collection (demo_run demo_active) ''default'' TaskStateActive"
  using demo_active_rep demo_active_task
  by (subst collection_rep(1) [of _ _ "demo_effect demo_active"]) simp_all

theorem active_task_exclusive_witness:
  "''t1'' \<notin> collection (demo_run demo_active) ''default'' TaskStatePending"
proof -
  have "reach 100 {} 2 (demo_run demo_active)"
    using reach.operate [OF demo_reach_pending, of "''default''" "Op_dequeue 30"]
    by (simp add: demo_active_def demo_run_def good_name_def numeral_2_eq_2)
  moreover have "execution 100 {} (demo_run demo_active) [] (demo_run demo_active)" by (rule execution.start)
  moreover obtain res db'' where "run (qop_prog 100 ''default'' (Op_dequeue 40)) (demo_run demo_active) = (res, db'')"
    by fastforce
  ultimately show ?thesis
    using active_task_exclusive [of 100 "{}" 2 "demo_run demo_active" "[]" "demo_run demo_active" "''default''" "''t1''"]
      demo_active_collection by (auto simp: good_name_def)
qed

text \<open>
  C6. The pending tasks of a queue are a first-in first-out queue: over any sequence of
  enqueues under new IDs and dequeues, the scripts answer exactly as a plain queue of
  messages does that starts with the messages waiting in Redis.
  The queue is one, with no closing brace in its name, in which no trim of the archive has taken more
  than \<open>unpack\<close> takes.
\<close>

theorem queue_is_fifo:
  assumes "reach um B n db" and "n < 2 ^ 61" and "good_name q" and "q \<notin> B" and "\<not> present db (PausedKey q)"
    and "list_all put_or_take ops" and "distinct (put_ids ops)"
    and "list_all (\<lambda>i. \<not> present db (TaskKey q i)) (put_ids ops)"
  shows "replies (map (qop_prog um q) ops) db = fifo (pending_messages db q) ops"
proof -
  obtain st where st: "qrep q db st" "qinv st" "counters_ok st"
    using reach_queue_ok [OF assms(1-4)] assms(2) by (auto simp: queue_ok_def counters_ok_def max_int64_def)
  show ?thesis
    unfolding pending_messages_rep [OF st(1)]
    by (rule fifo_replies [OF st(2,1,3)])
       (use assms(5-8) in \<open>auto simp: paused_rep [OF st(1)] task_present_rep [OF st(1)] list_all_iff\<close>)
qed

theorem queue_is_fifo_witness:
  "replies (map (qop_prog 100 ''default'') [Op_enqueue ''a'' ''first'' 1, Op_enqueue ''b'' ''second'' 2,
      Op_dequeue 9, Op_dequeue 9, Op_dequeue 9]) demo_empty
    = [RInt 1, RInt 1, RBulk ''first'', RBulk ''second'', RNil]"
proof -
  have r: "reach 100 {} 0 demo_empty" unfolding demo_empty_def by (rule reach.fresh)
  have "\<not> present demo_empty k" for k by (simp add: demo_empty_def present_def lookup_def)
  moreover have "pending_messages demo_empty ''default'' = []"
    by (simp add: pending_messages_def demo_empty_def get_list_def lookup_def)
  ultimately show ?thesis
    using queue_is_fifo [OF r, of "''default''" "[Op_enqueue ''a'' ''first'' 1, Op_enqueue ''b'' ''second'' 2,
      Op_dequeue 9, Op_dequeue 9, Op_dequeue 9]"]
    by (simp add: good_name_def del: qop_prog.simps)
qed

end
