(* ===== verification/BrokerProps.thy ===== *)
theory BrokerProps
  imports Example
begin

text \<open>
  The properties of the broker, \<open>internal/rdb/rdb.go\<close>: what its scripts make of the queues in
  Redis, and what its methods promise the client and the server over a Redis client library
  that may send a command several times.
\<close>

subsection \<open>The queues in Redis\<close>

definition consistent :: "queue_state \<Rightarrow> bool" where
  "consistent st \<longleftrightarrow>
     (\<forall>tid s t. tid \<in> in_state st s \<and> tid \<in> in_state st t \<longrightarrow> s = t)
     \<and> distinct (q_pending st) \<and> distinct (q_active st)
     \<and> (\<forall>tid s. tid \<in> in_state st s \<longrightarrow> field_of st tid ''state'' = Some (TaskState_String s)
          \<and> field_of st tid ''msg'' \<noteq> None)
     \<and> (\<forall>tid s. field_of st tid ''state'' = Some (TaskState_String s) \<and> s \<noteq> TaskStateArchived
          \<longrightarrow> tid \<in> in_state st s)
     \<and> set (zmembers (q_lease st)) = set (q_active st)"

lemma qinv_consistent:
  assumes "qinv st"
  shows "consistent st"
proof -
  note parts = qinv_parts [OF assms]
  have p: "tid \<in> in_state st s \<Longrightarrow> state_of st tid = Some (TaskState_String s)" for tid s
    using parts by (simp add: placed_def)
  have "tid \<in> in_state st s \<Longrightarrow> tid \<in> in_state st t \<Longrightarrow> s = t" for tid s t
    using p [of tid s] p [of tid t] by simp
  moreover have "tid \<in> in_state st s \<Longrightarrow> field_of st tid ''msg'' \<noteq> None" for tid s
    using p [of tid s] parts by (simp add: has_msgs_def)
  moreover have "state_of st tid = Some (TaskState_String s) \<Longrightarrow> s \<noteq> TaskStateArchived \<Longrightarrow> tid \<in> in_state st s"
    for tid s using parts by (simp add: not_lost_def)
  ultimately show ?thesis
    using p parts unfolding consistent_def state_of_def by blast
qed

text \<open>
  C3. The scripts of \<open>rdb.go\<close> run in any order and number, on any queues whose names have no
  closing brace, with the server's clock passing in between. Then every queue in which no trim
  of the archive took more than \<open>unpack\<close> takes, whatever happened in the queues \<open>B\<close> in which one
  did, represents a queue in which a task is in at most one of the six collections, a task
  whose hash has a state is in the collection of that state, and exactly the active tasks hold
  a lease. Only an archived task may be in no collection: the trim that makes room in the
  archive may remove the very task being archived, whose hash the script then writes again.
\<close>

theorem queues_stay_consistent:
  assumes "reach um B n db" and "n < 2 ^ 61" and "good_name q" and "q \<notin> B"
  shows "\<exists>st. qrep q db st \<and> consistent st"
  using reach_queue_ok [OF assms] qinv_consistent by (auto simp: queue_ok_def)

lemma reach_demo: "reach 100 {} (Suc (Suc 0)) (demo_run demo_active)"
proof -
  have "reach 100 {} 0 demo_empty" unfolding demo_empty_def by (rule reach.fresh)
  then show ?thesis
    unfolding demo_run_def demo_active_def demo_pending_def
    by (simp only: fold_simps append.simps comp_def id_def)
      (intro reach.operate; simp add: good_name_def)
qed

theorem queues_stay_consistent_witness:
  "\<exists>st. qrep ''default'' (demo_run demo_active) st \<and> consistent st"
  by (rule queues_stay_consistent [OF reach_demo]) (simp_all add: good_name_def)

text \<open>
  C4. Each of the scripts that work on a queue, and the single commands \<open>ZADD XX\<close> and \<open>HSET\<close>, does
  to the stored queue what its operation of the abstract queue says and answers what the
  operation says, on every branch: the error replies, and the archiving that stops in the
  middle of a trim, included. Unless that happens the invariant is preserved. The two
  scripts on the records of servers change no queue. The counters of the queue are taken to be
  below the largest 64-bit integer, where \<open>INCR\<close> fails.
\<close>

theorem scripts_refine_queue:
  assumes "qrep q db st" and "qinv st" and "counters_ok st"
  shows "fst (run (qop_prog um q op) db) = fst (script_effect um q op st)
    \<and> qrep q (snd (run (qop_prog um q op) db)) (snd (script_effect um q op st))
    \<and> (trim_fits um op st \<longrightarrow> script_effect um q op st = qop_effect q op st \<and> qinv (snd (qop_effect q op st)))
    \<and> qrep q (snd (run (writeServerStateCmd (ServerInfoKey h pid sid) (WorkersKey h pid sid) ttl info ws) db)) st
    \<and> qrep q (snd (run (clearServerStateCmd (ServerInfoKey h pid sid) (WorkersKey h pid sid)) db)) st"
  using doesD [OF script_refines [OF assms(2,3)] assms(1)] qinv_qop [OF assms(2)] script_effect_fits
    server_scripts_elsewhere [OF assms(1)] by simp

theorem scripts_refine_queue_witness:
  "fst (run (qop_prog 100 ''default'' (Op_archive ''t1'' ''m'' 0 7 0 10000 9)) (demo_run demo_active))
     = RStatus ''OK''"
  using scripts_refine_queue [of "''default''" "demo_run demo_active" "demo_effect demo_active" 100
      "Op_archive ''t1'' ''m'' 0 7 0 10000 9"]
    demo_active_rep demo_counters_ok [of demo_active] demo_fits demo_active_task
  by (simp add: settle_def)



text \<open>The replies of an operation its method can deal with.\<close>

fun reply_typed :: "qop \<Rightarrow> reply \<Rightarrow> bool" where
  "reply_typed (Op_enqueue _ _ _) r \<longleftrightarrow> r = RInt 0 \<or> r = RInt 1"
| "reply_typed (Op_enqueue_unique _ _ _ _ _) r \<longleftrightarrow> r = RInt (- 1) \<or> r = RInt 0 \<or> r = RInt 1"
| "reply_typed (Op_schedule _ _ _) r \<longleftrightarrow> r = RInt 0 \<or> r = RInt 1"
| "reply_typed (Op_schedule_unique _ _ _ _ _) r \<longleftrightarrow> r = RInt (- 1) \<or> r = RInt 0 \<or> r = RInt 1"
| "reply_typed (Op_dequeue _) r \<longleftrightarrow> r = RNil \<or> (\<exists>m. r = RBulk m)"
| "reply_typed (Op_forward _ _ _) r \<longleftrightarrow> (\<exists>n. 0 \<le> n \<and> n \<le> 100 \<and> r = RInt n)"
| "reply_typed (Op_expire _ _) r \<longleftrightarrow> (\<exists>n. 0 \<le> n \<and> r = RInt n)"
| "reply_typed (Op_list_expired _) r \<longleftrightarrow> (\<exists>ms. r = RArr (map RBulk ms))"
| "reply_typed (Op_extend _) r \<longleftrightarrow> r = RInt 0"
| "reply_typed (Op_result _ _) r \<longleftrightarrow> (\<exists>n. r = RInt n)"
| "reply_typed _ r \<longleftrightarrow> r = RStatus ''OK'' \<or> r = RErr ''NOT FOUND''"

text \<open>Arguments Redis refuses: an expiry below one second and an empty list of members.\<close>

fun args_ok :: "qop \<Rightarrow> bool" where
  "args_ok (Op_enqueue_unique _ _ ttl _ _) \<longleftrightarrow> 0 < ttl"
| "args_ok (Op_schedule_unique _ _ ttl _ _) \<longleftrightarrow> 0 < ttl"
| "args_ok (Op_extend ps) \<longleftrightarrow> ps \<noteq> []"
| "args_ok _ \<longleftrightarrow> True"

text \<open>
  C7. In every state Redis can get into, the reply of every script on a queue in which no trim of
  the archive has taken more than \<open>unpack\<close> takes has the type its method expects: no command
  meets a key of the wrong kind, no counter overflows, and the only error is that a task to
  settle is not active. Arguments Redis refuses and such a trim itself are excepted, and queues
  whose names hold a closing brace.
\<close>

theorem replies_well_typed:
  assumes "reach um B n db" and "n < 2 ^ 61" and "good_name q" and "q \<notin> B"
    and "\<And>st. qrep q db st \<Longrightarrow> trim_fits um op st" and "args_ok op"
  shows "reply_typed op (fst (run (qop_prog um q op) db))"
proof -
  obtain st where st: "qrep q db st" "qinv st" "counters_ok st"
    using reach_queue_ok [OF assms(1-4)] assms(2) by (auto simp: queue_ok_def counters_ok_def max_int64_def)
  have "fst (run (qop_prog um q op) db) = fst (qop_effect q op st)"
    using doesD(1) [OF qop_refines [OF st(2,3) assms(5) [OF st(1)]] st(1)] .
  then show ?thesis
    using assms(6) by (cases op) (auto simp: settle_def add_unique_def bulk_or_nil_def split: option.splits)
qed

theorem replies_well_typed_witness:
  "fst (run (qop_prog 100 ''default'' (Op_done ''t1'' 0 9)) (demo_run demo_active)) = RStatus ''OK''
     \<or> fst (run (qop_prog 100 ''default'' (Op_done ''t1'' 0 9)) (demo_run demo_active)) = RErr ''NOT FOUND''"
  using replies_well_typed [OF reach_demo, of "''default''" "Op_done ''t1'' 0 9"] by (simp add: good_name_def)

subsection \<open>Taking a task\<close>

text \<open>
  C9. \<open>Dequeue\<close> gives the worker the message of a task that is then active in one of the
  queues asked for, and holds a lease ending at the time returned.
\<close>

theorem Dequeue_takes_leased_task:
  assumes "redis_client send db_of" and "queues_ok qnames (db_of (conn r))"
    and "Dequeue send clk i qnames r = (Inr (msg, lease), r')"
  shows "\<exists>q \<in> set qnames. \<exists>st tid m. qrep q (db_of (conn r')) st \<and> qinv st
    \<and> tid \<in> set (q_active st) \<and> (unix lease, tid) \<in> set (q_lease st)
    \<and> field_of st tid ''msg'' = Some m \<and> DecodeMessage m = Inr msg"
  using redis_client.Dequeue_holds [OF assms(1,3,2)] unfolding holds_task_def by blast

lemma demo_dequeue:
  "\<exists>r'. Dequeue net_send (\<lambda>_. t) 0 [''default''] (demo_conn demo_pending) = (Inr (demo_msg, t + LeaseDuration), r')"
proof -
  let ?op = "Op_dequeue (unix (t + LeaseDuration))"
  have c: "counters_ok (demo_effect demo_pending)" by (rule demo_counters_ok) simp_all
  have q: "qinv (demo_effect demo_pending)" "qrep ''default'' (demo_run demo_pending) (demo_effect demo_pending)"
    using demo_pending_rep by simp_all
  have e: "fst (s_dequeue (unix (t + LeaseDuration)) (demo_effect demo_pending)) = Some (encode demo_msg)"
    by (simp add: demo_effect_def demo_pending_def empty_queue_def s_enqueue_def s_dequeue_def
        put_fields_def Let_def map_of_hset_all delete_conv')
  have "fst (run (qop_prog 100 ''default'' ?op) (demo_run demo_pending)) = RBulk (encode demo_msg)"
    using doesD(1) [OF qop_refines [OF q(1) c, where um = 100 and op = ?op] q(2)] e
    by (simp add: bulk_or_nil_def)
  then show ?thesis by (simp add: net_issue DecodeMessage_encode demo_msg_ok Let_def)
qed

lemma demo_queues_ok: "queues_ok [''default''] (demo_run demo_pending)"
  using demo_pending_rep by (auto simp: queues_ok_def good_name_def)

theorem Dequeue_takes_leased_task_witness:
  "\<exists>r' st tid. Dequeue net_send (\<lambda>_. 5) 0 [''default''] (demo_conn demo_pending)
       = (Inr (demo_msg, 5 + LeaseDuration), r')
     \<and> qrep ''default'' (server (conn r')) st \<and> tid \<in> set (q_active st)"
proof -
  obtain r' where r: "Dequeue net_send (\<lambda>_. 5) 0 [''default''] (demo_conn demo_pending)
      = (Inr (demo_msg, 5 + LeaseDuration), r')"
    using demo_dequeue by blast
  have q: "queues_ok [''default''] (server (conn (demo_conn demo_pending)))" using demo_queues_ok by simp
  show ?thesis
    using Dequeue_takes_leased_task [OF demo_send q r] r by auto
qed

subsection \<open>Settling a task\<close>

text \<open>
  C10. \<open>Done\<close> of a task without a uniqueness lock: when it reports success the task was
  active and is now gone, its lease too, and the counters have grown once, however often the
  client sent the script. When it reports an error, that has happened or nothing has.
\<close>

theorem Done_settles_once:
  assumes "redis_client send db_of" and "qinv st" and "counters_ok st"
    and "qrep (Queue msg) (db_of (conn r)) st" and "msg_UniqueKey msg = []"
    and "Done send ctx now msg r = (res, r')"
  shows "settled (Queue msg) (db_of (conn r')) res (ID msg) st (s_count_done (s_done (ID msg) st))"
  by (rule redis_client.settled_call [OF assms(1) _ assms(2,3) _ assms(4)
        assms(6) [unfolded Done_plain [OF assms(5), where um = undefined]]])
    (simp_all add: settle_active)

lemmas demo_start = conjunct1 [OF conjunct2 [OF demo_active_rep]] demo_counters_ok [OF demo_ops_ok(2) demo_ops_ok(5)]

lemma demo_active_qrep: "qrep (Queue demo_msg) (server (conn (demo_conn demo_active))) (demo_effect demo_active)"
  using demo_active_rep by simp

theorem Done_settles_once_witness:
  "qrep ''default'' (server (conn (snd (Done net_send False 100 demo_msg (demo_conn demo_active)))))
     (s_count_done (s_done ''t1'' (demo_effect demo_active)))"
  using Done_settles_once [OF demo_send demo_start demo_active_qrep _ surjective_pairing, of False 100]
    demo_settle_results(1)
  by (auto dest: settledD)

text \<open>
  C11. \<open>Done\<close> of a task enqueued with \<open>Unique\<close> also gives back the uniqueness lock, when the
  task still holds it, and never a lock another task has taken in between.
\<close>

theorem Done_releases_own_lock:
  assumes "redis_client send db_of" and "qinv st" and "counters_ok st"
    and "qrep (Queue msg) (db_of (conn r)) st" and "msg_UniqueKey msg = kname (Queue msg) (KUnique u)"
    and "Done send ctx now msg r = (res, r')"
  shows "\<exists>st1. settled (Queue msg) (db_of (conn r')) res (ID msg) st st1
    \<and> q_tasks st1 (ID msg) = []
    \<and> q_locks st1 = (if q_locks st u = Some (ID msg) then (q_locks st)(u := None) else q_locks st)"
proof -
  let ?st1 = "s_unlock u (ID msg) (s_count_done (s_done (ID msg) st))"
  have "settled (Queue msg) (db_of (conn r')) res (ID msg) st ?st1"
    by (rule redis_client.settled_call [OF assms(1) _ assms(2,3) _ assms(4)
          assms(6) [unfolded Done_unique [OF assms(5), where um = undefined]]])
      (simp_all add: settle_active)
  then show ?thesis
    by (intro exI [of _ ?st1])
      (auto simp: s_unlock_def s_count_done_def s_done_def drop_task_def s_release_def)
qed

definition demo_unique_msg :: TaskMessage where
  "demo_unique_msg = demo_msg\<lparr>msg_UniqueKey := kname ''default'' (KUnique ''mail:0'')\<rparr>"

definition demo_locked :: "qop list" where
  "demo_locked = [Op_enqueue_unique ''mail:0'' ''t1'' 60 (encode demo_unique_msg) 5, Op_dequeue 30]"

lemma demo_locked_rep:
  "qinv (demo_effect demo_locked)" "counters_ok (demo_effect demo_locked)"
  "qrep ''default'' (demo_run demo_locked) (demo_effect demo_locked)"
proof -
  have "list_all no_archive demo_locked" "length demo_locked < 1000"
    by (simp_all add: demo_locked_def no_archive_def)
  from demo_rep [OF this] demo_counters_ok [OF this]
  show "qinv (demo_effect demo_locked)" "counters_ok (demo_effect demo_locked)"
    "qrep ''default'' (demo_run demo_locked) (demo_effect demo_locked)" by simp_all
qed

theorem Done_releases_own_lock_witness:
  "\<exists>st1 res r'. Done net_send False 100 demo_unique_msg (demo_conn demo_locked) = (res, r')
     \<and> settled ''default'' (server (conn r')) res ''t1'' (demo_effect demo_locked) st1 \<and> q_tasks st1 ''t1'' = []"
proof -
  obtain res r' where d: "Done net_send False 100 demo_unique_msg (demo_conn demo_locked) = (res, r')"
    by fastforce
  have "qrep (Queue demo_unique_msg) (server (conn (demo_conn demo_locked))) (demo_effect demo_locked)"
    "msg_UniqueKey demo_unique_msg = kname (Queue demo_unique_msg) (KUnique ''mail:0'')"
    using demo_locked_rep by (simp_all add: demo_unique_msg_def)
  from Done_releases_own_lock [OF demo_send demo_locked_rep(1,2) this d]
  show ?thesis using d by (auto simp: demo_unique_msg_def)
qed

text \<open>
  C12. \<open>MarkAsComplete\<close>: the task moves from the active list to the completed set, scored with
  the end of its retention, and the stored message is the one with \<open>CompletedAt\<close> set.
\<close>

theorem MarkAsComplete_settles_once:
  assumes "redis_client send db_of" and "qinv st" and "counters_ok st"
    and "qrep (Queue msg) (db_of (conn r)) st"
    and "MarkAsComplete send ctx now msg r = (res, msg', r')"
  shows "msg' = msg\<lparr>CompletedAt := unix now\<rparr>
    \<and> settled (Queue msg) (db_of (conn r')) res (ID msg) st
        (s_count_done (s_complete (ID msg) (wrap64 (unix now + Retention msg)) (encode msg') st))"
proof -
  let ?m = "msg\<lparr>CompletedAt := unix now\<rparr>"
  obtain res0 r0 where s: "runScript send ctx ''rdb.MarkAsComplete''
      (qop_prog undefined (Queue msg) (Op_complete (ID msg) now (unix (now + statsTTL))
         (wrap64 (unix now + Retention msg)) (encode ?m))) r = (res0, r0)"
    by fastforce
  then have e: "msg' = ?m" "res = res0" "r' = r0"
    using assms(5) unfolding MarkAsComplete_qop [where um = undefined] by (auto simp: Let_def)
  have "settled (Queue msg) (db_of (conn r0)) res0 (ID msg) st
      (s_count_done (s_complete (ID msg) (wrap64 (unix now + Retention msg)) (encode ?m) st))"
    by (rule redis_client.settled_call [OF assms(1) _ assms(2,3) _ assms(4) s]) (simp_all add: settle_active)
  then show ?thesis using e by simp
qed

theorem MarkAsComplete_settles_once_witness:
  "\<exists>r'. MarkAsComplete net_send False 100 demo_msg (demo_conn demo_active)
       = (None, demo_msg\<lparr>CompletedAt := unix 100\<rparr>, r')
     \<and> qrep ''default'' (server (conn r'))
         (s_count_done (s_complete ''t1'' (unix 100) (encode (demo_msg\<lparr>CompletedAt := unix 100\<rparr>))
            (demo_effect demo_active)))"
proof -
  obtain res msg' r' where m: "MarkAsComplete net_send False 100 demo_msg (demo_conn demo_active) = (res, msg', r')"
    by (cases "MarkAsComplete net_send False 100 demo_msg (demo_conn demo_active)") auto
  have "res = None" using demo_settle_results(3) [of 100] m by simp
  moreover have "wrap64 (unix 100) = unix 100" by (simp add: unix_def second_ns_def wrap64_def)
  ultimately show ?thesis
    using m MarkAsComplete_settles_once [OF demo_send demo_start demo_active_qrep m] by (auto dest: settledD)
qed

text \<open>
  C13. \<open>Retry\<close>: the task moves to the retry set at the time of the next attempt, with the error
  stored in its message; only a failure counts as one, in the message's \<open>Retried\<close> and in
  the counters.
\<close>

theorem Retry_settles_once:
  assumes "redis_client send db_of" and "qinv st" and "counters_ok st"
    and "qrep (Queue msg) (db_of (conn r)) st"
    and "RDB_Retry send ctx now msg processAt errMsg isFailure r = (res, r')"
  shows "settled (Queue msg) (db_of (conn r')) res (ID msg) st
    ((if isFailure then s_count_failed else (\<lambda>st. st))
       (s_retry (ID msg) (unix processAt)
          (encode (msg\<lparr>Retried := (if isFailure then wrap64 (Retried msg + 1) else Retried msg), ErrorMsg := errMsg,
             LastFailedAt := unix now\<rparr>)) st))"
proof -
  have m: "retry_message now errMsg isFailure msg =
      msg\<lparr>Retried := (if isFailure then wrap64 (Retried msg + 1) else Retried msg), ErrorMsg := errMsg, LastFailedAt := unix now\<rparr>"
    by (simp add: retry_message_def)
  show ?thesis
    unfolding m [symmetric]
    by (rule redis_client.settled_call [OF assms(1) _ assms(2,3) _ assms(4)
          assms(5) [unfolded Retry_qop [where um = undefined]]])
      (simp_all add: settle_active)
qed

theorem Retry_settles_once_witness:
  "\<exists>r'. RDB_Retry net_send False 100 demo_msg 200 ''boom'' True (demo_conn demo_active) = (None, r')
     \<and> (\<exists>m. qrep ''default'' (server (conn r'))
           (s_count_failed (s_retry ''t1'' (unix 200) m (demo_effect demo_active))))"
proof -
  obtain res r' where m: "RDB_Retry net_send False 100 demo_msg 200 ''boom'' True (demo_conn demo_active) = (res, r')"
    by fastforce
  have "res = None" using demo_settle_results(4) [of 100 200 "''boom''" True] m by simp
  with m settledD [OF Retry_settles_once [OF demo_send demo_start demo_active_qrep m]]
  show ?thesis by auto
qed

text \<open>
  C14. \<open>Archive\<close>: the task moves to the archive, from which the tasks archived before the
  cutoff are dropped and the oldest ones beyond the size limit; at most 9999 remain. This is
  so as long as no trim takes more results than Lua's \<open>unpack\<close> does.
\<close>

theorem Archive_settles_once:
  assumes "redis_client send db_of" and "qinv st" and "counters_ok st"
    and "qrep (Queue msg) (db_of (conn r)) st"
    and "trim_fits um (Op_archive (ID msg) (encode (archive_message now errMsg msg)) now (unix now)
           (unix (archive_cutoff now)) maxArchiveSize (unix (now + statsTTL))) st"
    and "Archive um send ctx now msg errMsg r = (res, r')"
  shows "\<exists>st1. st1 = s_count_failed (s_archive (ID msg) (unix now) (unix (archive_cutoff now)) maxArchiveSize
        (encode (msg\<lparr>ErrorMsg := errMsg, LastFailedAt := unix now\<rparr>)) st)
    \<and> settled (Queue msg) (db_of (conn r')) res (ID msg) st st1
    \<and> length (q_archived st1) \<le> 9999"
proof -
  let ?m = "encode (archive_message now errMsg msg)"
  let ?st1 = "s_count_failed (s_archive (ID msg) (unix now) (unix (archive_cutoff now)) maxArchiveSize ?m st)"
  have "settled (Queue msg) (db_of (conn r')) res (ID msg) st ?st1"
    by (rule redis_client.settled_call [OF assms(1) _ assms(2,3,5,4) assms(6) [unfolded Archive_qop]])
      (simp_all add: settle_active)
  moreover have "int (length (q_archived ?st1)) \<le> 9999"
    using s_archive_size [OF assms(2), of maxArchiveSize "ID msg" "unix now" "unix (archive_cutoff now)" ?m]
    by (simp add: s_count_failed_def maxArchiveSize_def)
  ultimately show ?thesis by (simp add: archive_message_def)
qed

theorem Archive_settles_once_witness:
  "\<exists>r' st1. Archive 100 net_send False 100 demo_msg ''boom'' (demo_conn demo_active) = (None, r')
     \<and> qrep ''default'' (server (conn r')) st1 \<and> length (q_archived st1) \<le> 9999"
proof -
  obtain res r' where m: "Archive 100 net_send False 100 demo_msg ''boom'' (demo_conn demo_active) = (res, r')"
    by fastforce
  have "trim_fits 100 (Op_archive (ID demo_msg) (encode (archive_message 100 ''boom'' demo_msg)) 100 (unix 100)
      (unix (archive_cutoff 100)) maxArchiveSize (unix (100 + statsTTL))) (demo_effect demo_active)"
    using demo_fits by (simp add: maxArchiveSize_def)
  from Archive_settles_once [OF demo_send demo_start demo_active_qrep this m]
  have "\<exists>st1. settled ''default'' (server (conn r')) res ''t1'' (demo_effect demo_active) st1
      \<and> length (q_archived st1) \<le> 9999" by auto
  moreover have "res = None" using demo_settle_results(5) [of 100 "''boom''"] m by simp
  ultimately show ?thesis using m by (auto dest: settledD)
qed

text \<open>
  C15. When a trim does take more, the archiving script stops in the middle: the task is in the
  archive, is no longer active and holds no lease, while its hash still says \<open>active\<close>; the
  overdue hashes are gone while their ids stay in the archive.
\<close>

theorem archive_stops_halfway:
  assumes "qrep q db st" and "qinv st" and "tid \<in> set (q_active st)"
    and "st1 = (s_release tid st)\<lparr>q_archived := zadd died tid (q_archived st)\<rparr>"
    and "um < length (archive_old cutoff st1)" and "cutoff < died"
    and "run (archiveCmd um (TaskKey q tid) (ActiveKey q) (LeaseKey q) (ArchivedKey q) (ProcessedKey q t)
           (FailedKey q t) (ProcessedTotalKey q) (FailedTotalKey q) (TaskKeyPrefix q) tid msg died cutoff
           max_size e max_int64) db = (rep, db')"
  shows "rep = RErr ''too many results to unpack'' \<and>
    (\<exists>st2. qrep q db' st2 \<and> tid \<notin> set (q_active st2) \<and> tid \<notin> set (zmembers (q_lease st2))
       \<and> (died, tid) \<in> set (q_archived st2) \<and> state_of st2 tid = Some ''active''
       \<and> (\<forall>i \<in> set (archive_old cutoff st1). q_tasks st2 i = [] \<and> i \<in> set (zmembers (q_archived st2))))"
proof -
  let ?st2 = "half_trimmed (archive_old cutoff st1) st1"
  note d = does_archive_too_many(1) [OF qinv_active_facts(1) [OF assms(2,3)], of um cutoff died,
      folded assms(4), OF assms(5)]
  let ?p = "archiveCmd um (TaskKey q tid) (ActiveKey q) (LeaseKey q) (ArchivedKey q) (ProcessedKey q t)
           (FailedKey q t) (ProcessedTotalKey q) (FailedTotalKey q) (TaskKeyPrefix q) tid msg died cutoff
           max_size e max_int64"
  have "fst (run ?p db) = RErr ''too many results to unpack''" by (rule doesD(1) [OF d assms(1)])
  moreover have "qrep q (snd (run ?p db)) ?st2" by (rule doesD(2) [OF d assms(1)])
  ultimately have r: "rep = RErr ''too many results to unpack''" "qrep q db' ?st2"
    unfolding assms(7) by simp_all
  have act: "state_of st tid = Some ''active''"
    using placedD [OF qinv_parts(4) [OF assms(2)], of tid TaskStateActive] assms(3) by simp
  have "zset_ok (q_archived st)" using qinv_parts(1) [OF assms(2)] by (simp add: qtype_ok_def)
  then have "(s, tid) \<in> set (q_archived st1) \<Longrightarrow> s = died" for s
    by (auto simp: assms(4) set_zadd)
  then have no: "tid \<notin> set (archive_old cutoff st1)"
    using assms(6) by (auto simp: archive_old_def set_zrange_le)
  have "tid \<notin> set (q_active ?st2)" "tid \<notin> set (zmembers (q_lease ?st2))" "(died, tid) \<in> set (q_archived ?st2)"
    by (simp_all add: assms(4) half_trimmed_def set_zadd)
  moreover have "state_of ?st2 tid = Some ''active''"
    using act no by (simp add: state_of_def field_of_def assms(4) half_trimmed_def)
  moreover have "i \<in> set (archive_old cutoff st1) \<Longrightarrow> q_tasks ?st2 i = [] \<and> i \<in> set (zmembers (q_archived ?st2))" for i
    by (force simp: archive_old_def zrange_le_def zmembers_def half_trimmed_def)
  ultimately show ?thesis using r by (intro conjI exI [of _ ?st2]) auto
qed

definition demo_archived_ops :: "qop list" where
  "demo_archived_ops = demo_active @ [Op_archive ''t1'' ''m'' 0 1 0 10000 9,
     Op_enqueue ''t2'' ''m2'' 5, Op_dequeue 30]"

lemma demo_archived_rep:
  "qrep ''default'' (demo_run demo_archived_ops) (demo_effect demo_archived_ops)"
  "qinv (demo_effect demo_archived_ops)" "''t2'' \<in> set (q_active (demo_effect demo_archived_ops))"
  "q_archived (demo_effect demo_archived_ops) = [(1, ''t1'')]"
proof -
  have f: "ops_fit demo_archived_ops empty_queue"
    using no_archive_ops_fit [OF demo_ops_ok(2)]
      demo_fits [of "''m''" 0 1 0 9, unfolded demo_effect_def]
    unfolding demo_archived_ops_def ops_fit_append ops_fit.simps by simp
  have l: "length demo_archived_ops < 1000"
    by (simp add: demo_archived_ops_def demo_active_def demo_pending_def)
  show "qrep ''default'' (demo_run demo_archived_ops) (demo_effect demo_archived_ops)"
    "qinv (demo_effect demo_archived_ops)" using demo_rep_fit [OF f l] by simp_all
  let ?st = "demo_effect demo_active"
  have a: "q_pending ?st = []" "\<not> q_paused ?st" "q_tasks ?st ''t2'' = []"
    by (simp_all add: demo_effect_def demo_active_def demo_pending_def empty_queue_def s_enqueue_def
        s_dequeue_def put_fields_def Let_def)
  define st1 where "st1 = s_count_failed (s_archive ''t1'' 1 0 10000 ''m'' ?st)"
  have b: "q_pending st1 = []" "\<not> q_paused st1" "q_tasks st1 ''t2'' = []" "q_archived st1 = [(1, ''t1'')]"
    using a demo_archived(1)
    by (simp_all add: st1_def s_count_failed_def s_archive_def s_trim_def put_fields_def
        s_release_def Let_def archive_old_def archive_extra_def zadd_def zrem_def zrange_le_def
        zrange_idx_def zrem_all_def) auto
  have "demo_effect demo_archived_ops = fold (\<lambda>op st. snd (qop_effect ''default'' op st))
      [Op_archive ''t1'' ''m'' 0 1 0 10000 9, Op_enqueue ''t2'' ''m2'' 5, Op_dequeue 30] ?st"
    unfolding demo_archived_ops_def demo_effect_def by (simp only: fold_append comp_def)
  also have "\<dots> = snd (s_dequeue 30 (s_enqueue ''m2'' ''t2'' 5 [] st1))"
    using b by (simp add: settle_active demo_active_task st1_def [symmetric])
  finally have e: "demo_effect demo_archived_ops = snd (s_dequeue 30 (s_enqueue ''m2'' ''t2'' 5 [] st1))" .
  show "q_archived (demo_effect demo_archived_ops) = [(1, ''t1'')]"
    "''t2'' \<in> set (q_active (demo_effect demo_archived_ops))"
    using b unfolding e by (simp_all add: s_dequeue_def s_enqueue_def put_fields_def Let_def)
qed

theorem archive_stops_halfway_witness:
  "\<exists>st2. qrep ''default'' (snd (run (archiveCmd 0 (TaskKey ''default'' ''t2'') (ActiveKey ''default'')
        (LeaseKey ''default'') (ArchivedKey ''default'') (ProcessedKey ''default'' 0)
        (FailedKey ''default'' 0) (ProcessedTotalKey ''default'') (FailedTotalKey ''default'')
        (TaskKeyPrefix ''default'') ''t2'' ''m2'' 8 5 10000 9 max_int64) (demo_run demo_archived_ops))) st2
     \<and> state_of st2 ''t2'' = Some ''active'' \<and> ''t2'' \<notin> set (q_active st2)"
proof -
  let ?st = "demo_effect demo_archived_ops"
  let ?st1 = "(s_release ''t2'' ?st)\<lparr>q_archived := zadd 8 ''t2'' (q_archived ?st)\<rparr>"
  have "0 < length (archive_old 5 ?st1)"
    by (simp add: archive_old_def demo_archived_rep(4) zadd_def zrem_def zrange_le_def)
  from archive_stops_halfway [OF demo_archived_rep(1,2,3) refl this _ surjective_pairing,
      where t = 0 and msg = "''m2''" and max_size = 10000 and e = 9]
  show ?thesis by auto
qed

text \<open>
  \<open>Requeue\<close>: the task goes back to the end of the pending list from which tasks are taken,
  with state \<open>pending\<close>, and no counter moves.
\<close>

lemma Requeue_settles_once:
  assumes "redis_client send db_of" and "qinv st" and "counters_ok st"
    and "qrep (Queue msg) (db_of (conn r)) st"
    and "Requeue send ctx msg r = (res, r')"
  shows "\<exists>st1. settled (Queue msg) (db_of (conn r')) res (ID msg) st st1
    \<and> last (q_pending st1) = ID msg \<and> ID msg \<notin> set (q_active st1)
    \<and> state_of st1 (ID msg) = Some ''pending'' \<and> q_processed st1 = q_processed st"
proof -
  have "settled (Queue msg) (db_of (conn r')) res (ID msg) st (s_requeue (ID msg) st)"
    by (rule redis_client.settled_call [OF assms(1) _ assms(2,3) _ assms(4)
          assms(5) [unfolded Requeue_qop [where um = undefined]]])
      (simp_all add: settle_active)
  then show ?thesis
    by (intro exI [of _ "s_requeue (ID msg) st"])
      (simp add: s_requeue_def put_fields_def s_release_def state_of_def field_of_def map_of_hset_all)
qed

lemma Requeue_settles_once_witness:
  "\<exists>r' st1. Requeue net_send False demo_msg (demo_conn demo_active) = (None, r')
     \<and> qrep ''default'' (server (conn r')) st1 \<and> last (q_pending st1) = ''t1''"
proof -
  obtain res r' where m: "Requeue net_send False demo_msg (demo_conn demo_active) = (res, r')" by fastforce
  have "res = None" using demo_settle_results(2) m by simp
  with m Requeue_settles_once [OF demo_send demo_start demo_active_qrep m]
  show ?thesis by (auto dest: settledD)
qed

end
