(* ===== verification/DeliveryProps.thy ===== *)
theory DeliveryProps
  imports Example Goroutines Recovery
begin

text \<open>
  The properties of the broker's other half: adding tasks, forwarding the due ones, deleting
  the completed ones whose retention is over, the leases and the keys.
\<close>

subsection \<open>Adding a task\<close>

text \<open>
  C16. \<open>Enqueue\<close> of a task whose ID is free puts it at the head of the pending list, exactly
  once however often the client sent the script, and changes nothing when the ID is taken;
  the ID being taken is always reported.
\<close>

theorem Enqueue_adds_once:
  assumes "redis_client send db_of" and "qrep (Queue msg) (db_of (conn r)) st"
    and "Rdb.Enqueue send ctx now msg r = (res, r')"
  shows "if q_tasks st (ID msg) = []
    then added (Queue msg) (db_of (conn r')) res st (s_enqueue (encode msg) (ID msg) now [] st)
    else refused (Queue msg) (db_of (conn r')) res st"
  by (rule redis_client.Enqueue_outcome [OF assms(1,3,2)])

lemma demo_nothing: "qrep (Queue demo_msg) (server (conn (demo_conn []))) empty_queue"
  using demo_rep [of "[]"] by (simp add: demo_effect_def)

lemma demo_add:
  assumes "does ''default'' (qop_prog 100 ''default'' op) empty_queue (RInt 1) st1"
  shows "fst (runScriptWithErrorCode net_send False name (qop_prog 100 ''default'' op) (demo_conn [])) = Inr 1"
  using doesD(1) [OF assms] demo_nothing by (simp add: runScriptWithErrorCode_def net_issue)

lemma free_empty: "q_tasks empty_queue i = []" "q_locks empty_queue u = None"
  by (simp_all add: empty_queue_def)

theorem Enqueue_adds_once_witness:
  "\<exists>r'. Rdb.Enqueue net_send False 5 demo_msg (demo_conn []) = (None, r')
     \<and> qrep ''default'' (server (conn r')) (s_enqueue (encode demo_msg) ''t1'' 5 [] empty_queue)"
proof -
  obtain res r' where r: "Rdb.Enqueue net_send False 5 demo_msg (demo_conn []) = (res, r')" by fastforce
  have "does ''default'' (qop_prog 100 ''default'' (Op_enqueue ''t1'' (encode demo_msg) 5)) empty_queue (RInt 1)
      (s_enqueue (encode demo_msg) ''t1'' 5 [] empty_queue)"
    by (simp add: does_enqueue free_empty)
  from demo_add [OF this, of "''rdb.Enqueue''"] have "fst (Rdb.Enqueue net_send False 5 demo_msg (demo_conn [])) = None"
    by (auto simp: Enqueue_def publishQueue_def Let_def add_result_def split: prod.split)
  with r Enqueue_adds_once [OF demo_send demo_nothing r] show ?thesis
    by (auto simp: added_def free_empty)
qed

text \<open>
  \<open>Schedule\<close> does the same with the scheduled set, scored with the time the task is to be
  processed at.
\<close>

lemma Schedule_adds_once:
  assumes "redis_client send db_of" and "qrep (Queue msg) (db_of (conn r)) st"
    and "Rdb.Schedule send ctx msg processAt r = (res, r')"
  shows "if q_tasks st (ID msg) = []
    then added (Queue msg) (db_of (conn r')) res st
      (s_schedule (encode msg) (ID msg) (unix processAt) [] st)
    else refused (Queue msg) (db_of (conn r')) res st"
  by (rule redis_client.Schedule_outcome [OF assms(1,3,2)])

lemma Schedule_adds_once_witness:
  "\<exists>r'. Rdb.Schedule net_send False demo_msg 7000000000 (demo_conn []) = (None, r')
     \<and> qrep ''default'' (server (conn r')) (s_schedule (encode demo_msg) ''t1'' (unix 7000000000) [] empty_queue)"
proof -
  obtain res r' where r: "Rdb.Schedule net_send False demo_msg 7000000000 (demo_conn []) = (res, r')" by fastforce
  have "does ''default'' (qop_prog 100 ''default'' (Op_schedule ''t1'' (encode demo_msg) (unix 7000000000)))
      empty_queue (RInt 1) (s_schedule (encode demo_msg) ''t1'' (unix 7000000000) [] empty_queue)"
    by (simp add: does_schedule free_empty)
  from demo_add [OF this, of "''rdb.Schedule''"]
  have "fst (Rdb.Schedule net_send False demo_msg 7000000000 (demo_conn [])) = None"
    by (auto simp: Schedule_def publishQueue_def Let_def add_result_def split: prod.split)
  with r Schedule_adds_once [OF demo_send demo_nothing r] show ?thesis
    by (auto simp: added_def free_empty)
qed

text \<open>
  C17. \<open>EnqueueUnique\<close> adds the task only while nobody holds the lock of its type and payload,
  and takes the lock with it. When the lock is free but the task ID is taken, the call fails
  and may leave the lock held by a task that was never added.
\<close>

theorem EnqueueUnique_takes_lock:
  assumes "redis_client send db_of" and "qrep (Queue msg) (db_of (conn r)) st"
    and "msg_UniqueKey msg = kname (Queue msg) (KUnique u)" and "second_ns \<le> ttl"
    and "Rdb.EnqueueUnique send ctx now msg ttl r = (res, r')"
  shows "if q_locks st u \<noteq> None then refused (Queue msg) (db_of (conn r')) res st
    else if q_tasks st (ID msg) = []
    then added (Queue msg) (db_of (conn r')) res st
      (s_enqueue (encode msg) (ID msg) now [(''unique_key'', msg_UniqueKey msg)] (s_lock u (ID msg) st))
    else refused (Queue msg) (db_of (conn r')) res st
      \<or> refused (Queue msg) (db_of (conn r')) res (s_lock u (ID msg) st)"
  by (rule redis_client.EnqueueUnique_outcome [OF assms(1,5,2,3,4)])

definition demo_unique :: TaskMessage where
  "demo_unique = demo_msg\<lparr>msg_UniqueKey := kname ''default'' (KUnique ''mail:0'')\<rparr>"

lemma demo_unique_simps [simp]:
  "ID demo_unique = ''t1''" "Queue demo_unique = ''default''"
  "msg_UniqueKey demo_unique = kname ''default'' (KUnique ''mail:0'')"
  by (simp_all add: demo_unique_def)

theorem EnqueueUnique_takes_lock_witness:
  "\<exists>res r'. Rdb.EnqueueUnique net_send False 5 demo_unique second_ns (demo_conn demo_active) = (res, r')
     \<and> res \<noteq> None"
proof -
  obtain res r' where r: "Rdb.EnqueueUnique net_send False 5 demo_unique second_ns (demo_conn demo_active) = (res, r')"
    by fastforce
  have q: "qrep (Queue demo_unique) (server (conn (demo_conn demo_active))) (demo_effect demo_active)"
    using demo_active_rep by simp
  have t: "q_tasks (demo_effect demo_active) ''t1'' \<noteq> []"
    using qinv_active_facts(2) [OF _ demo_active_task] demo_active_rep by simp
  show ?thesis
    using EnqueueUnique_takes_lock [OF demo_send q demo_unique_simps(3) [folded demo_unique_simps(2)] order_refl r] r t
    by (auto simp: refused_def split: if_splits)
qed

text \<open>\<open>ScheduleUnique\<close> does the same with the scheduled set.\<close>

lemma ScheduleUnique_takes_lock:
  assumes "redis_client send db_of" and "qrep (Queue msg) (db_of (conn r)) st"
    and "msg_UniqueKey msg = kname (Queue msg) (KUnique u)" and "second_ns \<le> ttl"
    and "Rdb.ScheduleUnique send ctx msg processAt ttl r = (res, r')"
  shows "if q_locks st u \<noteq> None then refused (Queue msg) (db_of (conn r')) res st
    else if q_tasks st (ID msg) = []
    then added (Queue msg) (db_of (conn r')) res st
      (s_schedule (encode msg) (ID msg) (unix processAt) [(''unique_key'', msg_UniqueKey msg)]
         (s_lock u (ID msg) st))
    else refused (Queue msg) (db_of (conn r')) res st
      \<or> refused (Queue msg) (db_of (conn r')) res (s_lock u (ID msg) st)"
  by (rule redis_client.ScheduleUnique_outcome [OF assms(1,5,2,3,4)])

lemma ScheduleUnique_takes_lock_witness:
  "\<exists>r'. Rdb.ScheduleUnique net_send False demo_unique 7000000000 second_ns (demo_conn []) = (None, r')
     \<and> (\<exists>st1. qrep ''default'' (server (conn r')) st1 \<and> q_locks st1 ''mail:0'' = Some ''t1'')"
proof -
  let ?u = "kname ''default'' (KUnique ''mail:0'')"
  let ?st1 = "s_schedule (encode demo_unique) ''t1'' (unix 7000000000) [(''unique_key'', ?u)]
      (s_lock ''mail:0'' ''t1'' empty_queue)"
  obtain res r' where r: "Rdb.ScheduleUnique net_send False demo_unique 7000000000 second_ns (demo_conn []) = (res, r')"
    by fastforce
  have "does ''default'' (qop_prog 100 ''default''
      (Op_schedule_unique ''mail:0'' ''t1'' (whole_seconds second_ns) (unix 7000000000) (encode demo_unique)))
      empty_queue (RInt 1) ?st1"
    by (simp add: does_schedule_unique net.whole_seconds_pos free_empty)
  from demo_add [OF this, of "''rdb.ScheduleUnique''"]
  have n: "fst (Rdb.ScheduleUnique net_send False demo_unique 7000000000 second_ns (demo_conn [])) = None"
    by (auto simp: ScheduleUnique_def publishQueue_def Let_def add_unique_result_def split: prod.split)
  have q: "qrep (Queue demo_unique) (server (conn (demo_conn []))) empty_queue"
    using demo_nothing by simp
  have "qrep ''default'' (server (conn r')) ?st1"
    using ScheduleUnique_takes_lock [OF demo_send q demo_unique_simps(3) [folded demo_unique_simps(2)] order_refl r] r n
    by (simp add: added_def free_empty)
  moreover have "q_locks ?st1 ''mail:0'' = Some ''t1''"
    by (simp add: s_schedule_def s_lock_def put_fields_def)
  ultimately show ?thesis using r n by auto
qed

subsection \<open>Forwarding the due tasks\<close>

text \<open>
  C18. \<open>forwardAll\<close> returns, whatever the client library does. The tasks waiting in the queue
  are the same ones as before, no active task is touched, other queues are untouched, and
  after a run without error no scheduled and no retry task is left that was due at the last
  reading of the clock for its set.
\<close>

theorem forwardAll_ends:
  assumes "redis_client send db_of" and "qrep q (db_of (conn r)) st" and "qinv st"
  shows "\<exists>e i' r' st'. forwardAll send clk i q r = Some (e, i', r')
    \<and> qrep q (db_of (conn r')) st' \<and> qinv st' \<and> same_elsewhere q (db_of (conn r)) (db_of (conn r'))
    \<and> waiting st' = waiting st \<and> q_active st' = q_active st
    \<and> (e = None \<longrightarrow> (\<exists>j k. i \<le> j \<and> j < k \<and> k < i'
         \<and> due From_scheduled (unix (clk j)) st' = [] \<and> due From_retry (unix (clk k)) st' = []))"
  by (rule redis_client.forwardAll_returns [OF assms])

theorem forwardAll_ends_witness:
  "\<exists>e i' r' st'. forwardAll net_send (\<lambda>_. 20 * second_ns) 0 ''default'' (demo_conn demo_scheduled) = Some (e, i', r')
     \<and> qrep ''default'' (server (conn r')) st' \<and> ''t1'' \<in> waiting st'"
proof -
  have "qrep ''default'' (server (conn (demo_conn demo_scheduled))) (demo_effect demo_scheduled)"
    "qinv (demo_effect demo_scheduled)" using demo_scheduled_rep by simp_all
  moreover have "''t1'' \<in> waiting (demo_effect demo_scheduled)"
    by (simp add: waiting_def demo_effect_def demo_scheduled_def s_schedule_def put_fields_def empty_queue_def
        zadd_def zrem_def zmembers_def)
  ultimately show ?thesis
    using forwardAll_ends [OF demo_send, of "''default''" "demo_conn demo_scheduled"] by (metis (no_types, lifting))
qed

subsection \<open>Deleting the expired tasks\<close>

text \<open>
  \<open>DeleteExpiredCompletedTasks\<close> returns; after a run without error the last batch found
  nothing, so with a positive batch size no completed task is left whose retention had
  ended at the last reading of the clock.
\<close>

lemma DeleteExpired_ends:
  assumes "redis_client send db_of" and "qrep q (db_of (conn r)) st" and "qinv st"
  shows "\<exists>e i' r' st'. DeleteExpiredCompletedTasks send clk i q batch r = Some (e, Suc i', r')
    \<and> qrep q (db_of (conn r')) st' \<and> qinv st'
    \<and> (e = None \<longrightarrow> i \<le> i' \<and> expired_batch (unix (clk i')) batch st' = [])
    \<and> (e = None \<and> 0 < batch \<longrightarrow> (\<forall>(s, tid) \<in> set (q_completed st'). unix (clk i') < s))"
proof -
  have "\<forall>(s, tid) \<in> set (q_completed st'). t < s" if "expired_batch t batch st' = []" "0 < batch" for t st'
  proof -
    have "zrange_le t (q_completed st') = []"
      using that by (auto simp: expired_batch_def limit_def)
    then show ?thesis using set_zrange_le [of _ t "q_completed st'"] by (force simp: not_le)
  qed
  then show ?thesis using redis_client.DeleteExpired_returns [OF assms, of clk i batch] by blast
qed

lemma DeleteExpired_ends_witness:
  "\<exists>e i' r' st'. DeleteExpiredCompletedTasks net_send (\<lambda>_. 5) 0 ''default'' 100 (demo_conn demo_active)
       = Some (e, i', r') \<and> qrep ''default'' (server (conn r')) st'"
proof -
  have "qrep ''default'' (server (conn (demo_conn demo_active))) (demo_effect demo_active)"
    "qinv (demo_effect demo_active)" using demo_active_rep by simp_all
  from DeleteExpired_ends [OF demo_send this, of "\<lambda>_. 5" 0 100] show ?thesis by blast
qed

lemma demo_queues_fit:
  "list_all no_archive ops \<Longrightarrow> length ops < 1000 \<Longrightarrow> queues_ok [''default''] (server (conn (demo_conn ops)))"
  using demo_rep [of ops] by (auto simp: queues_ok_def good_name_def)

text \<open>
  C19. The goroutines of the forwarder, the janitor and the health check never hang in a round:
  whatever comes in, they end exactly when they are told to, and every queue is consistent at
  that time, errors of the client library in the middle of a round included. The health check
  has called its callback, if there is one, once for every round, also when the ping succeeded;
  the comments of \<open>healthcheck.go\<close> say that it is called only when the server is down.
\<close>

theorem background_loops_end:
  assumes "redis_client send db_of" and "queues_ok qnames (db_of (conn r))"
  shows "(\<exists>r'. forwarder_start send qnames evs r = Some (Done_signal \<in> set evs, r') \<and> queues_ok qnames (db_of (conn r')))
    \<and> (\<exists>r'. janitor_start send qnames batch evs r = Some (Done_signal \<in> set evs, r') \<and> queues_ok qnames (db_of (conn r')))
    \<and> (\<exists>calls r'. healthchecker_start send has_callback evs r = Some (Done_signal \<in> set evs, calls, r')
         \<and> length calls = (if has_callback then length (takeWhile ((\<noteq>) Done_signal) evs) else 0))"
  using redis_client.forwarder_start_ends [OF assms] redis_client.janitor_start_ends [OF assms]
    healthchecker_start_ends by blast

theorem background_loops_end_witness:
  "\<exists>r'. forwarder_start net_send [''default''] [Timer_fires (\<lambda>_. 20 * second_ns), Done_signal] (demo_conn demo_scheduled)
       = Some (True, r') \<and> queues_ok [''default''] (server (conn r'))"
  using background_loops_end [OF demo_send demo_queues_fit [OF demo_ops_ok(3) demo_ops_ok(6)],
      of "[Timer_fires (\<lambda>_. 20 * second_ns), Done_signal]"] by simp

subsection \<open>Leases\<close>

text \<open>
  C20. Extending the leases of some workers, whether the call succeeds or fails, keeps the view
  of the workers sound for every task that has a lease in Redis: no such worker trusts its
  lease for longer than Redis keeps it. On success the leases asked for end at the time
  returned, in Redis and, where they are still valid at the clock \<open>t2\<close> of the heartbeater, in
  the workers. A task without a lease in Redis gets none, yet its worker is extended with the
  others: for such a task the code does not keep the view sound.
\<close>

theorem ExtendLease_keeps_sound:
  assumes "redis_client send db_of" and "qrep q (db_of (conn r)) st" and "lease_sound q ws st"
    and "\<forall>(i, w) \<in> set ws. expireAt (w_lease w) \<le> now + LeaseDuration" and "ids \<noteq> []"
    and "ExtendLease send now q ids r = (res, r')"
  shows "\<exists>st'. qrep q (db_of (conn r')) st'
    \<and> lease_sound q (case res of Inl _ \<Rightarrow> ws | Inr t \<Rightarrow> reset_leases t2 t ids ws) st'
    \<and> set (zmembers (q_lease st')) = set (zmembers (q_lease st))
    \<and> (\<forall>t. res = Inr t \<longrightarrow> t = now + LeaseDuration
         \<and> (\<forall>i \<in> set ids. i \<in> set (zmembers (q_lease st)) \<longrightarrow> (unix t, i) \<in> set (q_lease st'))
         \<and> (\<forall>i \<in> set ids. \<forall>w. (i, w) \<in> set ws \<and> IsValid t2 (w_lease w) \<longrightarrow>
              (i, w\<lparr>w_lease := (w_lease w)\<lparr>expireAt := t\<rparr>\<rparr>) \<in> set (reset_leases t2 t ids ws)))"
proof -
  have "(i, w\<lparr>w_lease := (w_lease w)\<lparr>expireAt := t\<rparr>\<rparr>) \<in> set (reset_leases t2 t ids ws)"
    if "i \<in> set ids" "(i, w) \<in> set ws" "IsValid t2 (w_lease w)" for i w t
    using that by (force simp: reset_leases_def Lease_Reset_def)
  then show ?thesis using redis_client.ExtendLease_sound [OF assms, of t2] by meson
qed

definition demo_worker :: workerInfo where
  "demo_worker = \<lparr>w_msg = demo_msg, w_started = 0, w_deadline = 1800 * second_ns, w_lease = NewLease (30 * second_ns)\<rparr>"

lemma demo_lease_sound: "lease_sound ''default'' [(''t1'', demo_worker)] (demo_effect demo_active)"
  by (simp add: lease_sound_def demo_archived(2) demo_worker_def NewLease_def unix_def second_ns_def)

lemma demo_active_qrep': "qrep ''default'' (server (conn (demo_conn demo_active))) (demo_effect demo_active)"
  using demo_active_rep by simp

theorem ExtendLease_keeps_sound_witness:
  "\<exists>res r' st'. ExtendLease net_send (10 * second_ns) ''default'' [''t1''] (demo_conn demo_active) = (res, r')
     \<and> qrep ''default'' (server (conn r')) st'
     \<and> lease_sound ''default'' (case res of Inl _ \<Rightarrow> [(''t1'', demo_worker)]
         | Inr t \<Rightarrow> reset_leases (11 * second_ns) t [''t1''] [(''t1'', demo_worker)]) st'"
proof -
  obtain res r' where e: "ExtendLease net_send (10 * second_ns) ''default'' [''t1''] (demo_conn demo_active) = (res, r')"
    by fastforce
  have "\<forall>(i, w) \<in> set [(''t1'', demo_worker)]. expireAt (w_lease w) \<le> 10 * second_ns + LeaseDuration"
    by (simp add: demo_worker_def NewLease_def LeaseDuration_def second_ns_def)
  from ExtendLease_keeps_sound [OF demo_send demo_active_qrep' demo_lease_sound this _ e, of "11 * second_ns"]
  have "\<exists>st'. qrep ''default'' (server (conn r')) st'
     \<and> lease_sound ''default'' (case res of Inl _ \<Rightarrow> [(''t1'', demo_worker)]
         | Inr t \<Rightarrow> reset_leases (11 * second_ns) t [''t1''] [(''t1'', demo_worker)]) st'"
    by (fast intro: list.distinct(2))
  then show ?thesis using e by blast
qed

text \<open>
  C21. A whole round of the recoverer of any server, whose clock is at most 29 seconds ahead,
  leaves a task alone whose worker holds a lease valid at \<open>t\<close> that Redis holds as well: the task
  is still in the active list under the same lease, whatever else the round retries or archives
  and whichever of its calls fail. The recoverer goes by the messages it finds, so each must
  name the task and the queue it is stored under.
\<close>

theorem recoverer_spares_valid_lease:
  assumes "redis_client send db_of" and "queues_ok qs (db_of (conn r))" and "own_messages qs (db_of (conn r))"
    and "good_name q" and "qrep q (db_of (conn r)) st" and "qinv st"
    and "lease_sound q ws st" and "(tid, w) \<in> set ws" and "Queue (w_msg w) = q"
    and "IsValid t (w_lease w)" and "(e, tid) \<in> set (q_lease st)"
    and "clk 0 \<le> t + 29 * second_ns"
  shows "under_lease q tid e (db_of (conn (recoverLeaseExpiredTasks um send retryDelayFunc isFailureFunc clk qs r)))"
proof -
  have "unix (expireAt (w_lease w)) \<le> e"
    using assms(7-9,11) by (fastforce simp: lease_sound_def)
  from recoverer_spares_valid [OF assms(10) this assms(12)]
  show ?thesis by (rule redis_client.recoverer_spares [OF assms(1-6,11)])
qed

lemma demo_own_messages: "own_messages [''default''] (demo_run demo_active)"
proof -
  have rep: "qrep ''default'' (demo_run demo_active) (demo_effect demo_active)" using demo_active_rep by simp
  have "i = ''t1'' \<and> m = encode demo_msg" if "field_of (demo_effect demo_active) i ''msg'' = Some m" for i m
    using that by (auto simp: demo_effect_def demo_active_def demo_pending_def empty_queue_def s_enqueue_def
        s_dequeue_def put_fields_def Let_def field_of_def map_of_hset_all delete_conv' split: if_splits)
  then show ?thesis
    by (fastforce simp: own_messages_def collection_rep(2) [OF rep] DecodeMessage_encode demo_msg_ok)
qed

theorem recoverer_spares_valid_lease_witness:
  "under_lease ''default'' ''t1'' 30 (server (conn
     (recoverLeaseExpiredTasks 100 net_send (\<lambda>n _ _. DefaultRetryDelayFunc 7 n) (\<lambda>_. True) (\<lambda>_. 40 * second_ns)
        [''default''] (demo_conn demo_active))))"
proof (rule recoverer_spares_valid_lease [OF demo_send _ _ _ demo_active_qrep' _ demo_lease_sound, of _ _ demo_worker])
  show "queues_ok [''default''] (server (conn (demo_conn demo_active)))" by (rule demo_queues_fit) simp_all
  show "own_messages [''default''] (server (conn (demo_conn demo_active)))" using demo_own_messages by simp
  show "qinv (demo_effect demo_active)" using demo_active_rep by simp
  show "IsValid (20 * second_ns) (w_lease demo_worker)" "40 * second_ns \<le> 20 * second_ns + 29 * second_ns"
    by (simp_all add: IsValid_def demo_worker_def NewLease_def second_ns_def)
qed (simp_all add: demo_worker_def demo_archived(2) good_name_def)

text \<open>
  C22. \<open>ListLeaseExpired\<close>, when it succeeds, has found the message of every task whose lease
  ended before the cutoff, in every queue, and listing changes nothing in Redis.
\<close>

theorem ListLeaseExpired_complete:
  assumes "redis_client send db_of" and "ListLeaseExpired send cutoff qs r = (Inr msgs, r')"
  shows "(\<forall>q \<in> set qs. \<forall>st. qrep q (db_of (conn r)) st \<longrightarrow>
      (\<forall>e tid m. (e, tid) \<in> set (q_lease st) \<and> e \<le> unix cutoff \<and> field_of st tid ''msg'' = Some m \<longrightarrow>
         (\<exists>msg \<in> set msgs. DecodeMessage m = Inr msg)))
    \<and> (\<forall>k. lookup (db_of (conn r')) k = lookup (db_of (conn r)) k)"
proof -
  have m: "m \<in> set (messages_of st ids)" if "tid \<in> set ids" "field_of st tid ''msg'' = Some m" for st tid ids m
    using that by (auto simp: messages_of_def map_filter_def image_iff intro!: bexI [of _ tid])
  have "tid \<in> set (zrange_le mx (q_lease st))" if "(e, tid) \<in> set (q_lease st)" "e \<le> mx" for e mx tid st
    using that by (auto simp: set_zrange_le)
  then show ?thesis
    using redis_client.list_expired_complete [OF assms(1) assms(2) [unfolded ListLeaseExpired_def]] m
    by (metis (no_types, lifting))
qed

theorem ListLeaseExpired_complete_witness:
  "\<exists>msgs r'. ListLeaseExpired net_send (50 * second_ns) [''default''] (demo_conn demo_active) = (Inr msgs, r')
     \<and> demo_msg \<in> set msgs"
proof -
  let ?p = "listLeaseExpiredCmd (LeaseKey ''default'') (unix (50 * second_ns)) (TaskKeyPrefix ''default'')"
  have m: "field_of (demo_effect demo_active) ''t1'' ''msg'' = Some (encode demo_msg)"
    by (simp add: demo_effect_def demo_active_def demo_pending_def empty_queue_def s_enqueue_def s_dequeue_def
        put_fields_def Let_def field_of_def map_of_hset_all delete_conv')
  have "fst (run ?p (demo_run demo_active))
      = RArr (map RBulk (messages_of (demo_effect demo_active) (zrange_le 50 (q_lease (demo_effect demo_active)))))"
    using doesD(1) [OF does_list_lease_expired, of "''default''" "demo_run demo_active" "demo_effect demo_active"]
      demo_active_rep by (simp add: unix_def second_ns_def)
  then have "fst (run ?p (demo_run demo_active)) = RArr [RBulk (encode demo_msg)]"
    by (simp add: demo_archived(2) zrange_le_def messages_of_def map_filter_def m)
  then have "\<exists>r'. ListLeaseExpired net_send (50 * second_ns) [''default''] (demo_conn demo_active) = (Inr [demo_msg], r')"
    by (simp add: ListLeaseExpired_def net_issue Let_def DecodeMessage_encode demo_msg_ok)
  then obtain msgs r' where l: "ListLeaseExpired net_send (50 * second_ns) [''default''] (demo_conn demo_active) = (Inr msgs, r')"
    by blast
  have "(30, ''t1'') \<in> set (q_lease (demo_effect demo_active))" "30 \<le> unix (50 * second_ns)"
    by (simp_all add: demo_archived(2) unix_def second_ns_def)
  then obtain msg where "msg \<in> set msgs" "DecodeMessage (encode demo_msg) = Inr msg"
    using ListLeaseExpired_complete [OF demo_send l] demo_active_qrep' m by fastforce
  then show ?thesis using l by (auto simp: DecodeMessage_encode demo_msg_ok)
qed

subsection \<open>Recovery\<close>

text \<open>
  C23. The recoverer settles a task whose lease has expired like a failed one, once: with no
  retries left it goes to the archive, otherwise to the retry set with the delay of the
  configuration, counted from the time \<open>t\<close> of its own reading of the clock, and its message says
  that the lease expired; \<open>now\<close> is the clock of the broker. If the task is no longer
  active, nothing happens and the call fails.
\<close>

theorem recovery_settles_once:
  assumes "redis_client send db_of" and "qinv st" and "counters_ok st"
    and "qrep (Queue msg) (db_of (conn r)) st"
    and "trim_fits um (Op_archive (ID msg) (encode (archive_message now (Error (Sentinel ErrLeaseExpired)) msg)) now
           (unix now) (unix (archive_cutoff now)) maxArchiveSize (unix (now + statsTTL))) st"
    and "recover_one um send retryDelayFunc isFailureFunc t now msg r = (res, r')"
  shows "let err = Sentinel ErrLeaseExpired;
      m = msg\<lparr>ErrorMsg := ''titanqueue: task lease expired'', LastFailedAt := unix now\<rparr>;
      at = unix (t + retryDelayFunc (Retried msg) err (NewTask (Type msg) (Payload msg) []))
    in settled (Queue msg) (db_of (conn r')) res (ID msg) st
      (if Retry msg \<le> Retried msg
       then s_count_failed (s_archive (ID msg) (unix now) (unix (archive_cutoff now)) maxArchiveSize (encode m) st)
       else if isFailureFunc err then s_count_failed (s_retry (ID msg) at (encode (m\<lparr>Retried := wrap64 (Retried msg + 1)\<rparr>)) st)
       else s_retry (ID msg) at (encode m) st)"
proof -
  let ?err = "Sentinel ErrLeaseExpired"
  show ?thesis
  proof (cases "Retry msg \<le> Retried msg")
    case True
    then have a: "Archive um send False now msg (Error ?err) r = (res, r')"
      using assms(6) by (simp add: recover_one_def Let_def)
    have "settled (Queue msg) (db_of (conn r')) res (ID msg) st (s_count_failed (s_archive (ID msg) (unix now)
        (unix (archive_cutoff now)) maxArchiveSize (encode (archive_message now (Error ?err) msg)) st))"
      by (rule redis_client.settled_call [OF assms(1) _ assms(2,3,5,4) a [unfolded Archive_qop]])
        (simp_all add: settle_active)
    then show ?thesis using True by (simp add: Let_def archive_message_def)
  next
    case False
    let ?at = "t + retryDelayFunc (Retried msg) ?err (NewTask (Type msg) (Payload msg) [])"
    have a: "RDB_Retry send False now msg ?at (Error ?err) (isFailureFunc ?err) r = (res, r')"
      using False assms(6) by (simp add: recover_one_def Let_def)
    have "settled (Queue msg) (db_of (conn r')) res (ID msg) st
        ((if isFailureFunc ?err then s_count_failed else (\<lambda>st. st))
           (s_retry (ID msg) (unix ?at) (encode (retry_message now (Error ?err) (isFailureFunc ?err) msg)) st))"
      by (rule redis_client.settled_call [OF assms(1) _ assms(2,3) _ assms(4)
            a [unfolded Retry_qop [where um = undefined]]])
        (simp_all add: settle_active)
    moreover have "msg\<lparr>Retried := n, ErrorMsg := e, LastFailedAt := t\<rparr> = msg\<lparr>ErrorMsg := e, LastFailedAt := t, Retried := n\<rparr>"
      for n e t by (cases msg) simp
    ultimately show ?thesis
      using False by (cases "isFailureFunc ?err") (simp_all add: Let_def retry_message_def)
  qed
qed

theorem recovery_settles_once_witness:
  "\<exists>res r'. recover_one 100 net_send (\<lambda>n _ _. DefaultRetryDelayFunc 7 n) (\<lambda>_. True) 100 105 demo_msg (demo_conn demo_active)
       = (res, r')
     \<and> settled ''default'' (server (conn r')) res ''t1'' (demo_effect demo_active)
         (s_count_failed (s_retry ''t1'' (unix (100 + DefaultRetryDelayFunc 7 0))
            (encode (demo_msg\<lparr>ErrorMsg := ''titanqueue: task lease expired'', LastFailedAt := unix 105, Retried := 1\<rparr>))
            (demo_effect demo_active)))"
proof -
  obtain res r' where c: "recover_one 100 net_send (\<lambda>n _ _. DefaultRetryDelayFunc 7 n) (\<lambda>_. True) 100 105 demo_msg
      (demo_conn demo_active) = (res, r')"
    by fastforce
  have q: "qinv (demo_effect demo_active)" "counters_ok (demo_effect demo_active)"
    "qrep (Queue demo_msg) (server (conn (demo_conn demo_active))) (demo_effect demo_active)"
    using demo_active_rep demo_counters_ok [of demo_active] by simp_all
  have f: "trim_fits 100 (Op_archive (ID demo_msg) (encode (archive_message 105 (Error (Sentinel ErrLeaseExpired)) demo_msg))
      105 (unix 105) (unix (archive_cutoff 105)) maxArchiveSize (unix (105 + statsTTL))) (demo_effect demo_active)"
    using demo_fits by (simp add: maxArchiveSize_def)
  have "Retried demo_msg = 0" "Retry demo_msg = 25" by (simp_all add: demo_msg_def)
  then show ?thesis
    using recovery_settles_once [OF demo_send q f c] c by (simp add: Let_def wrap64_def)
qed

subsection \<open>Keys\<close>

text \<open>
  C24. For queue names without a closing brace, keys of two queues never meet, whatever their
  kinds, the daily counters and the uniqueness locks included; in one queue the key of a task
  is not that of another task, nor a uniqueness lock, nor one of the queue's own keys, which
  are all different; and no key of a queue is one of the keys that belong to no queue. The
  uniqueness locks of two tasks of a queue are one lock exactly when their types and the
  checksums of their payloads agree, for a checksum with outputs of one length.
\<close>

definition own_keys :: "string \<Rightarrow> int \<Rightarrow> string list" where
  "own_keys q t = [PendingKey q, ActiveKey q, ScheduledKey q, RetryKey q, ArchivedKey q, CompletedKey q,
     LeaseKey q, PausedKey q, ProcessedTotalKey q, FailedTotalKey q, ProcessedKey q t, FailedKey q t]"

theorem keys_are_separate:
  assumes "good_name q" and "good_name q'"
    and len: "\<And>b c. length (md5hex b) = length (md5hex c)"
  shows "(TaskKey q i = TaskKey q' j \<longleftrightarrow> q = q' \<and> i = j)
    \<and> TaskKey q i \<notin> set (own_keys q' t) \<union> {UniqueKey md5hex q' ty p}
    \<and> UniqueKey md5hex q ty p \<notin> set (own_keys q' t)
    \<and> (UniqueKey md5hex q ty p = UniqueKey md5hex q' ty' p' \<longrightarrow> q = q')
    \<and> (UniqueKey md5hex q ty (Some x) = UniqueKey md5hex q ty' (Some y) \<longleftrightarrow> ty = ty' \<and> md5hex x = md5hex y)
    \<and> (UniqueKey md5hex q ty None = UniqueKey md5hex q ty' None \<longleftrightarrow> ty = ty')
    \<and> distinct (own_keys q t)
    \<and> (q \<noteq> q' \<longrightarrow> set (own_keys q t) \<inter> set (own_keys q' t') = {})
    \<and> ({TaskKey q i, UniqueKey md5hex q ty p} \<union> set (own_keys q t)) \<inter> shared_keys = {}"
proof -
  have own: "k \<in> set (own_keys q t) \<Longrightarrow> \<exists>x. k = kname q x \<and> (\<forall>s. x \<noteq> KTask s \<and> x \<noteq> KUnique s)" for k q t
    by (auto simp: own_keys_def key_simps)
  have "k \<notin> set (own_keys q' t')" if "q \<noteq> q'" and "k \<in> set (own_keys q t)" for k
    using own [of k q t] own [of k q' t'] that assms(1,2) by (auto simp: good_name_def kname_inject2)
  then have "q \<noteq> q' \<longrightarrow> set (own_keys q t) \<inter> set (own_keys q' t') = {}" by blast
  moreover have "({TaskKey q i, UniqueKey md5hex q ty p} \<union> set (own_keys q t)) \<inter> shared_keys = {}"
  proof -
    have "\<exists>x. k = kname q x" if "k \<in> {TaskKey q i, UniqueKey md5hex q ty p} \<union> set (own_keys q t)" for k
      using that own [of k q t] unfolding key_simps by auto
    then show ?thesis using kname_not_shared by (metis disjoint_iff)
  qed
  moreover have "distinct (own_keys q t)" by (simp add: own_keys_def key_simps)
  moreover have "TaskKey q i \<notin> set (own_keys q' t) \<union> {UniqueKey md5hex q' ty p}"
    "UniqueKey md5hex q ty p \<notin> set (own_keys q' t)"
    using assms(1,2) by (simp_all add: own_keys_def key_simps good_name_def kname_inject2)
  moreover have "(TaskKey q i = TaskKey q' j \<longleftrightarrow> q = q' \<and> i = j)"
    "UniqueKey md5hex q ty p = UniqueKey md5hex q' ty' p' \<longrightarrow> q = q'"
    "UniqueKey md5hex q ty None = UniqueKey md5hex q ty' None \<longleftrightarrow> ty = ty'"
    using assms(1,2) by (simp_all add: key_simps good_name_def kname_inject2)
  moreover note UniqueKey_inject [OF len, where q = q and ty = ty and ty' = ty' and p = x and p' = y]
  ultimately show ?thesis by (intro conjI)
qed

theorem keys_are_separate_witness:
  "TaskKey ''default'' ''a:b'' \<noteq> TaskKey ''default:t:a'' ''b''
   \<and> UniqueKey (\<lambda>b. take 32 (b @ replicate 32 (CHR ''0''))) ''default'' ''mail:a'' (Some ''x'')
       \<noteq> UniqueKey (\<lambda>b. take 32 (b @ replicate 32 (CHR ''0''))) ''default'' ''mail'' (Some ''a:x'')"
proof -
  have g: "good_name ''default''" "good_name ''default:t:a''" by (simp_all add: good_name_def)
  have l: "length (take 32 (b @ replicate 32 (CHR ''0''))) = length (take 32 (c @ replicate 32 (CHR ''0'')))" for b c :: string
    by simp
  show ?thesis
    using keys_are_separate [OF g l, where i = "''a:b''" and j = "''b''"]
      keys_are_separate [OF g(1) g(1) l, where ty = "''mail:a''" and ty' = "''mail''" and x = "''x''" and y = "''a:x''"]
    by simp
qed

end
