(* ===== verification/Exec.thy ===== *)
theory Exec
  imports Goroutines
begin

text \<open>
  The goroutines of \<open>processor.go\<close> in full: the loop of \<open>start\<close> that runs \<open>exec\<close>, one worker
  goroutine per task with its lease, its context and the goroutine of its handler, \<open>stop\<close> and
  \<open>shutdown\<close>, and what the subscriber and the heartbeater do to what they share with the
  workers, the cancel functions and the leases. A step is what one goroutine does between two
  points at which another can come in; a run is any interleaving of the steps.

  A worker keeps its place in \<open>x_workers\<close> after it has ended: the place is the identity of
  the goroutine, and its handler may outlive it.
\<close>

subsection \<open>State\<close>

text \<open>The fields of \<open>processor\<close> that do not change; \<open>None\<close> is a panic of \<open>newProcessor\<close>.\<close>

record 's processor =
  pr_unpack :: nat \<comment> \<open>what \<open>unpack\<close> of the Redis server takes\<close>
  pr_broker :: "'s client"
  pr_queueConfig :: "(string \<times> int) list"
  pr_orderedQueues :: "string list option"
  pr_retryDelayFunc :: "int \<Rightarrow> gerror \<Rightarrow> Task \<Rightarrow> int"
  pr_isFailureFunc :: "gerror \<Rightarrow> bool"
  pr_sema :: nat \<comment> \<open>capacity of \<open>sema\<close>\<close>

definition newProcessor ::
  "nat \<Rightarrow> 's client \<Rightarrow> (int \<Rightarrow> gerror \<Rightarrow> Task \<Rightarrow> int) \<Rightarrow> (gerror \<Rightarrow> bool) \<Rightarrow> int \<Rightarrow>
   (string \<times> int) list \<Rightarrow> bool \<Rightarrow> 's processor option" where
  "newProcessor um redis retryDelayFunc isFailureFunc concurrency qs0 strictPriority =
     (case normalizeQueues qs0 of
        None \<Rightarrow> None
      | Some qs \<Rightarrow>
          if concurrency < 0 then None
          else Some \<lparr>pr_unpack = um, pr_broker = redis, pr_queueConfig = qs,
                pr_orderedQueues = (if strictPriority then Some (sortByPriority qs) else None),
                pr_retryDelayFunc = retryDelayFunc, pr_isFailureFunc = isFailureFunc,
                pr_sema = nat concurrency\<rparr>)"

text \<open>
  A worker goroutine has just been started (\<open>W_new\<close>), has its context and has registered its
  cancel function (\<open>W_ready\<close>), has started its handler and waits (\<open>W_waiting\<close>), has dealt
  with the outcome (\<open>W_settled\<close>), has run the deferred \<open>cancel\<close> and \<open>Delete\<close>
  (\<open>W_unregistered\<close>), has ended (\<open>W_ended\<close>).
\<close>

datatype worker_phase = W_new | W_ready | W_waiting | W_settled | W_unregistered | W_ended

datatype handler_state = H_none | H_running | H_returned "gerror option"

record worker =
  wk_msg :: TaskMessage
  wk_lease :: Lease
  wk_deadline :: int
  wk_phase :: worker_phase
  wk_ctx :: nat
  wk_baseErr :: "int \<Rightarrow> gerror option" \<comment> \<open>\<open>Err\<close> of the base context\<close>
  wk_handler :: handler_state

datatype loop_mode = L_idle | L_token | L_sleeping | L_stopped

record 's processor_state =
  x_mode :: loop_mode
  x_tokens :: nat \<comment> \<open>tokens in \<open>sema\<close>\<close>
  x_workers :: "worker list"
  x_quit :: bool
  x_abort :: bool
  x_shutdown :: nat \<comment> \<open>tokens \<open>shutdown\<close> has put into \<open>sema\<close>\<close>
  x_cancelations :: "nat Cancelations"
  x_sent :: "hb_event list" \<comment> \<open>what was sent on \<open>starting\<close> and \<open>finished\<close>\<close>
  x_env :: "'s proc_env"

definition exec_init :: "'s rdb \<Rightarrow> 's processor_state" where
  "exec_init b =
     \<lparr>x_mode = L_idle, x_tokens = 0, x_workers = [], x_quit = False, x_abort = False, x_shutdown = 0,
      x_cancelations = NewCancelations, x_sent = [], x_env = \<lparr>p_broker = b, p_ctx = [], p_sync = []\<rparr>\<rparr>"

definition put_worker :: "nat \<Rightarrow> worker \<Rightarrow> 's processor_state \<Rightarrow> 's processor_state" where
  "put_worker k w s = s\<lparr>x_workers := (x_workers s)[k := w]\<rparr>"

text \<open>
  The errors the context of a worker may report at a time: one when it is done, of the base
  context, of its own cancel function, or of its deadline. Which came first is left open.
\<close>

definition ctx_errs :: "int \<Rightarrow> worker \<Rightarrow> 's proc_env \<Rightarrow> gerror list" where
  "ctx_errs now w env =
     (case wk_baseErr w now of Some e \<Rightarrow> [e] | None \<Rightarrow> [])
     @ (case p_ctx env ! wk_ctx w of (d, canceled) \<Rightarrow>
          (if canceled then [Sentinel Context_Canceled] else [])
          @ (if d \<le> now then [Sentinel Context_DeadlineExceeded] else []))"

subsection \<open>The loop\<close>

text \<open>\<open>case p.sema <- struct{}{}\<close>: only when there is room.\<close>

definition exec_acquire :: "'s processor \<Rightarrow> 's processor_state \<Rightarrow> 's processor_state option" where
  "exec_acquire p s =
     (if x_mode s = L_idle \<and> x_tokens s < pr_sema p
      then Some (s\<lparr>x_mode := L_token, x_tokens := Suc (x_tokens s)\<rparr>) else None)"

text \<open>
  With the token: the poll. Without a task the loop sleeps before it gives the token back;
  after an error it gives it back at once; otherwise the heartbeater is told and a worker
  started. \<open>now\<close> is the reading of the clock for the deadline, \<open>started\<close> that of
  \<open>time.Now()\<close>.
\<close>

definition exec_dequeue ::
  "'s processor \<Rightarrow> (string list \<Rightarrow> string list) \<Rightarrow> (nat \<Rightarrow> int) \<Rightarrow> int \<Rightarrow> int \<Rightarrow> 's processor_state \<Rightarrow>
   's processor_state option" where
  "exec_dequeue p shuffle clk now started s =
     (if x_mode s \<noteq> L_token then None
      else
        (let qnames = queues shuffle (pr_queueConfig p) (pr_orderedQueues p); env = x_env s in
         case Dequeue (pr_broker p) clk 0 qnames (p_broker env) of
           (Inl err, b) \<Rightarrow>
             (let s1 = s\<lparr>x_env := env\<lparr>p_broker := b\<rparr>\<rparr> in
              if Is err ErrNoProcessableTask then Some (s1\<lparr>x_mode := L_sleeping\<rparr>)
              else Some (s1\<lparr>x_mode := L_idle, x_tokens := x_tokens s - 1\<rparr>))
         | (Inr (msg, leaseExpirationTime), b) \<Rightarrow>
             (let lease = NewLease leaseExpirationTime; deadline = computeDeadline now msg in
              Some (s\<lparr>x_mode := L_idle,
                x_env := env\<lparr>p_broker := b\<rparr>,
                x_sent := x_sent s @
                  [HB_starting \<lparr>w_msg = msg, w_started = started, w_deadline = deadline, w_lease = lease\<rparr>],
                x_workers := x_workers s @
                  [\<lparr>wk_msg = msg, wk_lease = lease, wk_deadline = deadline, wk_phase = W_new, wk_ctx = 0,
                    wk_baseErr = (\<lambda>_. None), wk_handler = H_none\<rparr>]\<rparr>))))"

definition exec_wake :: "'s processor_state \<Rightarrow> 's processor_state option" where
  "exec_wake s =
     (if x_mode s = L_sleeping then Some (s\<lparr>x_mode := L_idle, x_tokens := x_tokens s - 1\<rparr>) else None)"

subsection \<open>A worker\<close>

text \<open>The step of worker \<open>k\<close>, which must be in the phase \<open>ph\<close>.\<close>

definition at_phase ::
  "worker_phase \<Rightarrow> nat \<Rightarrow> (worker \<Rightarrow> 's processor_state option) \<Rightarrow> 's processor_state \<Rightarrow>
   's processor_state option" where
  "at_phase ph k f s =
     (if k < length (x_workers s) \<and> wk_phase (x_workers s ! k) = ph then f (x_workers s ! k) else None)"

text \<open>
  \<open>base\<close> is what \<open>baseCtxFn\<close> returned; its end, unlike its deadline, is known from \<open>baseErr\<close>.
\<close>

definition worker_begin ::
  "nat \<Rightarrow> task_context \<Rightarrow> (int \<Rightarrow> gerror option) \<Rightarrow> 's processor_state \<Rightarrow> 's processor_state option" where
  "worker_begin k base baseErr s =
     at_phase W_new k (\<lambda>w.
       case new_ctx (the (ctx_deadline (context_New base (wk_msg w) (wk_deadline w)))) (x_env s) of
         (c, env) \<Rightarrow>
           Some (put_worker k (w\<lparr>wk_phase := W_ready, wk_ctx := c, wk_baseErr := baseErr\<rparr>)
             (s\<lparr>x_env := env, x_cancelations := Cancelations_Add (ID (wk_msg w)) c (x_cancelations s)\<rparr>))) s"

text \<open>The context is not done: the handler is started in a goroutine of its own.\<close>

definition worker_start :: "nat \<Rightarrow> int \<Rightarrow> 's processor_state \<Rightarrow> 's processor_state option" where
  "worker_start k now s =
     at_phase W_ready k (\<lambda>w.
       if ctx_errs now w (x_env s) = []
       then Some (put_worker k (w\<lparr>wk_phase := W_waiting, wk_handler := H_running\<rparr>) s) else None) s"

text \<open>
  When the worker may take an event: what its two \<open>select\<close> statements wait for. The check of the
  lease (at \<open>t0\<close>), the reading of the clock for the retry (\<open>tr\<close>) and the call of the broker (at \<open>t1\<close>) that
  follow are one step: the steps of other goroutines come before or after it.
\<close>

fun event_ready :: "int \<Rightarrow> worker \<Rightarrow> 's processor_state \<Rightarrow> worker_event \<Rightarrow> bool" where
  "event_ready now w s (Already_done e) \<longleftrightarrow> wk_phase w = W_ready \<and> e \<in> set (ctx_errs now w (x_env s))"
| "event_ready now w s Aborted \<longleftrightarrow> wk_phase w = W_waiting \<and> x_abort s"
| "event_ready now w s Lease_expired \<longleftrightarrow> wk_phase w = W_waiting \<and> Lease_Done (wk_lease w)"
| "event_ready now w s (Context_ended e) \<longleftrightarrow> wk_phase w = W_waiting \<and> e \<in> set (ctx_errs now w (x_env s))"
| "event_ready now w s (Handler_returned r) \<longleftrightarrow> wk_phase w = W_waiting \<and> wk_handler w = H_returned r"

definition worker_settle ::
  "'s processor \<Rightarrow> nat \<Rightarrow> worker_event \<Rightarrow> int \<Rightarrow> int \<Rightarrow> int \<Rightarrow> int \<Rightarrow> 's processor_state \<Rightarrow> 's processor_state option" where
  "worker_settle p k ev now t0 tr t1 s =
     (if k < length (x_workers s) \<and> event_ready now (x_workers s ! k) s ev
      then
        (let w = x_workers s ! k;
             env = (if ev = Lease_expired then cancel_ctx (wk_ctx w) (x_env s) else x_env s)
         in Some (put_worker k (w\<lparr>wk_phase := W_settled\<rparr>)
              (s\<lparr>x_env := settle_task (pr_unpack p) (pr_broker p) (pr_retryDelayFunc p) (pr_isFailureFunc p)
                   t0 tr t1 (wk_lease w) (wk_msg w) ev env\<rparr>)))
      else None)"

text \<open>The deferred calls, the last one first.\<close>

definition worker_cleanup :: "nat \<Rightarrow> 's processor_state \<Rightarrow> 's processor_state option" where
  "worker_cleanup k s =
     at_phase W_settled k (\<lambda>w.
       Some (put_worker k (w\<lparr>wk_phase := W_unregistered\<rparr>)
         (s\<lparr>x_env := cancel_ctx (wk_ctx w) (x_env s),
            x_cancelations := Cancelations_Delete (ID (wk_msg w)) (x_cancelations s)\<rparr>))) s"

definition worker_end :: "nat \<Rightarrow> 's processor_state \<Rightarrow> 's processor_state option" where
  "worker_end k s =
     at_phase W_unregistered k (\<lambda>w.
       Some (put_worker k (w\<lparr>wk_phase := W_ended\<rparr>)
         (s\<lparr>x_sent := x_sent s @ [HB_finished (wk_msg w)], x_tokens := x_tokens s - 1\<rparr>))) s"

subsection \<open>The goroutine of a handler\<close>

definition at_handler ::
  "nat \<Rightarrow> (worker \<Rightarrow> 's processor_state option) \<Rightarrow> 's processor_state \<Rightarrow> 's processor_state option" where
  "at_handler k f s =
     (if k < length (x_workers s) \<and> wk_handler (x_workers s ! k) = H_running then f (x_workers s ! k) else None)"

text \<open>\<open>resCh <- p.perform(ctx, task)\<close>; the handler returned \<open>outcome\<close> or panicked.\<close>

definition handler_returns ::
  "nat \<Rightarrow> (Task \<Rightarrow> string + gerror option) \<Rightarrow> (string \<times> int) option \<Rightarrow> 's processor_state \<Rightarrow>
   's processor_state option" where
  "handler_returns k handler caller s =
     at_handler k (\<lambda>w. Some (put_worker k (w\<lparr>wk_handler := H_returned (run_handler handler caller (wk_msg w))\<rparr>) s)) s"

text \<open>The handler writes a result; \<open>cause\<close> is what the \<open>select\<close> of \<open>Write\<close> finds the context to be.\<close>

definition handler_writes ::
  "'s processor \<Rightarrow> nat \<Rightarrow> int \<Rightarrow> gerror option \<Rightarrow> string \<Rightarrow> 's processor_state \<Rightarrow> 's processor_state option" where
  "handler_writes p k now cause data s =
     at_handler k (\<lambda>w.
       if (case cause of None \<Rightarrow> ctx_errs now w (x_env s) = [] | Some e \<Rightarrow> e \<in> set (ctx_errs now w (x_env s)))
       then
         (case t_w (worker_task (wk_msg w)) of
            None \<Rightarrow> None
          | Some rw \<Rightarrow>
              Some (s\<lparr>x_env := (x_env s)\<lparr>p_broker :=
                snd (ResultWriter_Write (pr_broker p) cause rw data (p_broker (x_env s)))\<rparr>\<rparr>))
       else None) s"

subsection \<open>Stopping\<close>

text \<open>\<open>close(p.quit)\<close>, once; \<open>p.done <- struct{}{}\<close> is taken by the loop.\<close>

definition processor_stop :: "'s processor_state \<Rightarrow> 's processor_state" where
  "processor_stop s = s\<lparr>x_quit := True\<rparr>"

definition loop_done :: "'s processor_state \<Rightarrow> 's processor_state option" where
  "loop_done s = (if x_mode s = L_idle \<and> x_quit s then Some (s\<lparr>x_mode := L_stopped\<rparr>) else None)"

text \<open>The timer of \<open>shutdown\<close>, set once \<open>stop\<close> has returned, and the tokens it then takes.\<close>

definition shutdown_abort :: "'s processor_state \<Rightarrow> 's processor_state option" where
  "shutdown_abort s = (if x_mode s = L_stopped \<and> \<not> x_abort s then Some (s\<lparr>x_abort := True\<rparr>) else None)"

definition shutdown_take :: "'s processor \<Rightarrow> 's processor_state \<Rightarrow> 's processor_state option" where
  "shutdown_take p s =
     (if x_mode s = L_stopped \<and> x_tokens s < pr_sema p \<and> x_shutdown s < pr_sema p
      then Some (s\<lparr>x_tokens := Suc (x_tokens s), x_shutdown := Suc (x_shutdown s)\<rparr>) else None)"

subsection \<open>What others do to the workers\<close>

text \<open>The heartbeater resets a lease or closes its channel; the subscriber cancels.\<close>

definition lease_change :: "nat \<Rightarrow> (Lease \<Rightarrow> bool \<times> Lease) \<Rightarrow> 's processor_state \<Rightarrow> 's processor_state option" where
  "lease_change k f s =
     (if k < length (x_workers s)
      then (let w = x_workers s ! k in Some (put_worker k (w\<lparr>wk_lease := snd (f (wk_lease w))\<rparr>) s))
      else None)"

definition cancel_message :: "string \<Rightarrow> 's processor_state \<Rightarrow> 's processor_state" where
  "cancel_message tid s = s\<lparr>x_env := subscriber_message (x_cancelations s) tid (x_env s)\<rparr>"

subsection \<open>Runs\<close>

datatype exec_event =
    X_acquire
  | X_dequeue "string list \<Rightarrow> string list" "nat \<Rightarrow> int" int int
  | X_wake
  | X_begin nat task_context "int \<Rightarrow> gerror option"
  | X_start nat int
  | X_settle nat worker_event int int int int
  | X_cleanup nat
  | X_end nat
  | X_returns nat "Task \<Rightarrow> string + gerror option" "(string \<times> int) option"
  | X_writes nat int "gerror option" string
  | X_stop
  | X_done
  | X_abort
  | X_take
  | X_reset nat int int
  | X_notify nat int
  | X_cancel string

text \<open>\<open>None\<close>: the goroutine that would do the step is not at that point, or is blocked there.\<close>

fun exec_step :: "'s processor \<Rightarrow> exec_event \<Rightarrow> 's processor_state \<Rightarrow> 's processor_state option" where
  "exec_step p X_acquire s = exec_acquire p s"
| "exec_step p (X_dequeue shuffle clk now started) s = exec_dequeue p shuffle clk now started s"
| "exec_step p X_wake s = exec_wake s"
| "exec_step p (X_begin k base baseErr) s = worker_begin k base baseErr s"
| "exec_step p (X_start k now) s = worker_start k now s"
| "exec_step p (X_settle k ev now t0 tr t1) s = worker_settle p k ev now t0 tr t1 s"
| "exec_step p (X_cleanup k) s = worker_cleanup k s"
| "exec_step p (X_end k) s = worker_end k s"
| "exec_step p (X_returns k handler caller) s = handler_returns k handler caller s"
| "exec_step p (X_writes k now cause data) s = handler_writes p k now cause data s"
| "exec_step p X_stop s = Some (processor_stop s)"
| "exec_step p X_done s = loop_done s"
| "exec_step p X_abort s = shutdown_abort s"
| "exec_step p X_take s = shutdown_take p s"
| "exec_step p (X_reset k now t) s = lease_change k (Lease_Reset now t) s"
| "exec_step p (X_notify k now) s = lease_change k (NotifyExpiration now) s"
| "exec_step p (X_cancel tid) s = Some (cancel_message tid s)"

fun exec_run :: "'s processor \<Rightarrow> exec_event list \<Rightarrow> 's processor_state \<Rightarrow> 's processor_state option" where
  "exec_run p [] s = Some s"
| "exec_run p (ev # evs) s = (case exec_step p ev s of None \<Rightarrow> None | Some s' \<Rightarrow> exec_run p evs s')"

subsection \<open>Refinement of the dispatcher\<close>

definition working :: "worker \<Rightarrow> bool" where
  "working w \<longleftrightarrow> wk_phase w \<noteq> W_ended"

definition loop_dispatcher :: "loop_mode \<Rightarrow> dispatcher" where
  "loop_dispatcher m = (case m of L_idle \<Rightarrow> Idle | L_token \<Rightarrow> Holding | L_sleeping \<Rightarrow> Holding | L_stopped \<Rightarrow> Stopped)"

text \<open>The tasks of the workers that have not ended.\<close>

definition working_msgs :: "'s processor_state \<Rightarrow> TaskMessage list" where
  "working_msgs s = map wk_msg (filter working (x_workers s))"

definition working_ids :: "'s processor_state \<Rightarrow> string list" where
  "working_ids s = map ID (working_msgs s)"

definition dispatches :: "'s processor_state \<Rightarrow> dispatch \<Rightarrow> bool" where
  "dispatches s d \<longleftrightarrow> d_mode d = loop_dispatcher (x_mode s) \<and> d_tokens d = x_tokens s
     \<and> mset (d_running d) = mset (working_ids s) \<and> d_quit d = x_quit s \<and> d_shutdown d = x_shutdown s"

text \<open>A step that changes nothing the dispatcher knows.\<close>

definition same_dispatch :: "'s processor_state \<Rightarrow> 's processor_state \<Rightarrow> bool" where
  "same_dispatch s s' \<longleftrightarrow> x_mode s' = x_mode s \<and> x_tokens s' = x_tokens s \<and> working_msgs s' = working_msgs s
     \<and> x_quit s' = x_quit s \<and> x_shutdown s' = x_shutdown s \<and> x_sent s' = x_sent s"

lemma filter_map_update:
  assumes "k < length xs" and "P x = P (xs ! k)" and "f x = f (xs ! k)"
  shows "map f (filter P (xs[k := x])) = map f (filter P xs)"
  using assms
proof (induction xs arbitrary: k)
  case (Cons y ys)
  then show ?case by (cases k) auto
qed simp

lemma put_worker_working_msgs:
  "k < length (x_workers s) \<Longrightarrow> working w = working (x_workers s ! k) \<Longrightarrow> wk_msg w = wk_msg (x_workers s ! k) \<Longrightarrow>
   working_msgs (put_worker k w s) = working_msgs s"
  by (simp add: working_msgs_def put_worker_def filter_map_update)

lemma filter_drop_update:
  "k < length xs \<Longrightarrow> P (xs ! k) \<Longrightarrow> \<not> P x \<Longrightarrow>
   mset (map f (filter P xs)) = add_mset (f (xs ! k)) (mset (map f (filter P (xs[k := x]))))"
proof (induction xs arbitrary: k)
  case (Cons y ys)
  then show ?case by (cases k) auto
qed simp

lemmas exec_defs = exec_acquire_def exec_dequeue_def exec_wake_def worker_begin_def worker_start_def worker_settle_def
  worker_cleanup_def worker_end_def handler_returns_def handler_writes_def processor_stop_def loop_done_def
  shutdown_abort_def shutdown_take_def lease_change_def cancel_message_def at_phase_def at_handler_def Let_def

lemma put_worker_simps [simp]:
  "x_mode (put_worker k w s) = x_mode s" "x_tokens (put_worker k w s) = x_tokens s"
  "x_quit (put_worker k w s) = x_quit s" "x_shutdown (put_worker k w s) = x_shutdown s"
  "x_abort (put_worker k w s) = x_abort s" "x_env (put_worker k w s) = x_env s"
  "x_cancelations (put_worker k w s) = x_cancelations s" "x_sent (put_worker k w s) = x_sent s"
  "x_workers (put_worker k w s) = (x_workers s)[k := w]"
  by (simp_all add: put_worker_def)

lemma working_msgs_cong: "x_workers s' = x_workers s \<Longrightarrow> working_msgs s' = working_msgs s"
  by (simp add: working_msgs_def)

lemma same_dispatch_worker:
  assumes "k < length (x_workers s)" and "working w = working (x_workers s ! k)"
    and "wk_msg w = wk_msg (x_workers s ! k)"
    and "x_mode t = x_mode s" "x_tokens t = x_tokens s" "x_quit t = x_quit s" "x_shutdown t = x_shutdown s"
      "x_workers t = x_workers s" "x_sent t = x_sent s"
  shows "same_dispatch s (put_worker k w t)"
  using assms put_worker_working_msgs [of k t w] working_msgs_cong [of t s] by (simp add: same_dispatch_def)

text \<open>The steps of a worker before its end, of its handler and of the others.\<close>

lemma exec_step_same_dispatch:
  assumes "exec_step p ev s = Some s'"
    and "case ev of X_acquire \<Rightarrow> False | X_dequeue _ _ _ _ \<Rightarrow> False | X_wake \<Rightarrow> False | X_end _ \<Rightarrow> False
      | X_stop \<Rightarrow> False | X_done \<Rightarrow> False | X_take \<Rightarrow> False | _ \<Rightarrow> True"
  shows "same_dispatch s s'"
proof (cases ev)
  case (X_begin k base baseErr)
  then show ?thesis
    using assms(1) by (auto simp: exec_defs new_ctx_def working_def split: if_splits intro!: same_dispatch_worker)
next
  case (X_start k now)
  then show ?thesis
    using assms(1) by (auto simp: exec_defs working_def split: if_splits intro!: same_dispatch_worker)
next
  case (X_settle k e now t0 tr t1)
  have "event_ready now (x_workers s ! k) s e \<Longrightarrow> working (x_workers s ! k)" by (cases e) (simp_all add: working_def)
  then show ?thesis
    using assms(1) X_settle by (auto simp: exec_defs working_def split: if_splits intro!: same_dispatch_worker)
next
  case (X_cleanup k)
  then show ?thesis
    using assms(1) by (auto simp: exec_defs working_def split: if_splits intro!: same_dispatch_worker)
next
  case (X_returns k handler caller)
  then show ?thesis
    using assms(1) by (auto simp: exec_defs working_def split: if_splits intro!: same_dispatch_worker)
next
  case (X_writes k now cause data)
  then obtain env where "s' = s\<lparr>x_env := env\<rparr>"
    using assms(1) by (auto simp: exec_defs split: if_splits option.splits)
  then show ?thesis by (simp add: same_dispatch_def working_msgs_def)
next
  case X_abort
  then show ?thesis using assms(1) by (auto simp: exec_defs same_dispatch_def working_msgs_def split: if_splits)
next
  case (X_reset k now t)
  then show ?thesis
    using assms(1) by (auto simp: exec_defs working_def split: if_splits intro!: same_dispatch_worker)
next
  case (X_notify k now)
  then show ?thesis
    using assms(1) by (auto simp: exec_defs working_def split: if_splits intro!: same_dispatch_worker)
next
  case (X_cancel tid)
  then show ?thesis using assms(1) by (auto simp: exec_defs same_dispatch_def working_msgs_def)
qed (use assms(2) in simp_all)

lemma dispatches_same: "dispatches s d \<Longrightarrow> same_dispatch s s' \<Longrightarrow> dispatches s' d"
  by (simp add: dispatches_def same_dispatch_def working_ids_def)

text \<open>Every step of the processor is a step of the dispatcher, or one the dispatcher does not see.\<close>

lemma exec_step_dispatch:
  assumes "exec_step p ev s = Some s'" and "dispatches s d"
  shows "\<exists>d'. (dispatch_step (pr_sema p))\<^sup>=\<^sup>= d d' \<and> dispatches s' d'"
proof -
  have stutter: "same_dispatch s s' \<Longrightarrow> ?thesis" using dispatches_same [OF assms(2)] by blast
  have step: "dispatch_step (pr_sema p) d d' \<Longrightarrow> dispatches s' d' \<Longrightarrow> ?thesis" for d' by blast
  show ?thesis
  proof (cases ev)
    case X_acquire
    then show ?thesis
      using assms by (intro step [OF dispatch_step.acquire])
        (auto simp: exec_defs dispatches_def loop_dispatcher_def working_ids_def working_msgs_def split: if_splits)
  next
    case (X_dequeue shuffle clk now started)
    obtain r b where d: "Dequeue (pr_broker p) clk 0 (queues shuffle (pr_queueConfig p) (pr_orderedQueues p))
        (p_broker (x_env s)) = (r, b)" by fastforce
    show ?thesis
    proof (cases r)
      case (Inl e)
      show ?thesis
      proof (cases "Is e ErrNoProcessableTask")
        case True
        then show ?thesis
          using assms X_dequeue d Inl by (intro exI [of _ d])
            (auto simp: exec_defs dispatches_def loop_dispatcher_def working_ids_def working_msgs_def split: if_splits)
      next
        case False
        then show ?thesis
          using assms X_dequeue d Inl by (intro step [OF dispatch_step.nothing])
            (auto simp: exec_defs dispatches_def loop_dispatcher_def working_ids_def working_msgs_def split: if_splits)
      qed
    next
      case (Inr me)
      then show ?thesis
        using assms X_dequeue d by (cases me, intro step [OF dispatch_step.spawn [where tid = "ID (fst me)"]])
          (auto simp: exec_defs dispatches_def loop_dispatcher_def working_ids_def working_msgs_def working_def split: if_splits)
    qed
  next
    case X_wake
    then show ?thesis
      using assms by (intro step [OF dispatch_step.nothing])
        (auto simp: exec_defs dispatches_def loop_dispatcher_def working_ids_def working_msgs_def split: if_splits)
  next
    case (X_end k)
    define w where "w = x_workers s ! k"
    have w: "k < length (x_workers s)" "wk_phase w = W_unregistered" "w = x_workers s ! k"
      using assms(1) X_end by (auto simp: exec_defs w_def split: if_splits)
    have m: "mset (working_ids s) = add_mset (ID (wk_msg w)) (mset (working_ids s'))"
      using filter_drop_update [of k "x_workers s" working "w\<lparr>wk_phase := W_ended\<rparr>" "\<lambda>w. ID (wk_msg w)"] w assms(1) X_end
      by (auto simp: exec_defs working_ids_def working_msgs_def working_def comp_def split: if_splits)
    then have "ID (wk_msg w) \<in> set (d_running d)"
      using assms(2) by (metis dispatches_def set_mset_mset union_single_eq_member)
    then show ?thesis
      using assms X_end m w by (intro step [OF dispatch_step.finish])
        (auto simp: exec_defs dispatches_def split: if_splits)
  next
    case X_stop
    then show ?thesis
      using assms by (intro step [OF dispatch_step.quit])
        (auto simp: exec_defs dispatches_def loop_dispatcher_def working_ids_def working_msgs_def split: if_splits)
  next
    case X_done
    then show ?thesis
      using assms by (intro step [OF dispatch_step.stop])
        (auto simp: exec_defs dispatches_def loop_dispatcher_def working_ids_def working_msgs_def split: if_splits)
  next
    case X_take
    then show ?thesis
      using assms by (intro step [OF dispatch_step.take_token])
        (auto simp: exec_defs dispatches_def loop_dispatcher_def working_ids_def working_msgs_def split: if_splits)
  qed (rule stutter, rule exec_step_same_dispatch [OF assms(1)], simp)+
qed

lemma exec_run_dispatch:
  "exec_run p evs s = Some s' \<Longrightarrow> dispatches s d \<Longrightarrow> dispatch_reach (pr_sema p) d \<Longrightarrow>
   \<exists>d'. dispatch_reach (pr_sema p) d' \<and> dispatches s' d'"
proof (induction evs arbitrary: s d)
  case (Cons ev evs)
  then obtain t where t: "exec_step p ev s = Some t" "exec_run p evs t = Some s'" by (auto split: option.splits)
  then obtain d' where d': "(dispatch_step (pr_sema p))\<^sup>=\<^sup>= d d'" "dispatches t d'"
    using exec_step_dispatch Cons.prems(2) by blast
  then have "dispatch_reach (pr_sema p) d'" using Cons.prems(3) by (auto intro: dispatch_reach.step)
  then show ?case using Cons.IH t(2) d'(2) by blast
qed auto

lemma dispatches_init: "dispatches (exec_init b) dispatch_init"
  by (simp add: dispatches_def exec_init_def dispatch_init_def loop_dispatcher_def working_ids_def working_msgs_def)

lemma exec_run_append: "exec_run p (xs @ ys) s = (case exec_run p xs s of None \<Rightarrow> None | Some t \<Rightarrow> exec_run p ys t)"
  by (induction xs arbitrary: s) (auto split: option.split)

end
