(* ===== verification/Components.thy ===== *)
theory Components
  imports Exec Server
begin

text \<open>
  The components of a server as \<open>NewServerFromRedisClient\<close> of \<open>server.go\<close> makes them: the
  constructors of \<open>syncer.go\<close>, \<open>heartbeat.go\<close>, \<open>forwarder.go\<close>, \<open>subscriber.go\<close>, \<open>recoverer.go\<close>,
  \<open>healthcheck.go\<close> and \<open>janitor.go\<close>, what each component keeps of its parameters, and which of
  the channels and tables they share. A channel or a table is a number, in the order in which
  \<open>NewServerFromRedisClient\<close> makes them. The logger and the broker, which all of them share,
  and the \<open>done\<close> channel each has for itself are left out.
\<close>

type_synonym ref = nat

record syncer =
  sy_requestsCh :: ref
  sy_interval :: int

definition newSyncer :: "ref \<Rightarrow> int \<Rightarrow> syncer" where
  "newSyncer requestsCh interval = \<lparr>sy_requestsCh = requestsCh, sy_interval = interval\<rparr>"

record forwarder =
  fw_queues :: "string list"
  fw_avgInterval :: int

definition newForwarder :: "string list \<Rightarrow> int \<Rightarrow> forwarder" where
  "newForwarder qs interval = \<lparr>fw_queues = qs, fw_avgInterval = interval\<rparr>"

record subscriber =
  su_cancelations :: ref
  su_retryTimeout :: int

definition newSubscriber :: "ref \<Rightarrow> subscriber" where
  "newSubscriber cancelations = \<lparr>su_cancelations = cancelations, su_retryTimeout = 5 * second_ns\<rparr>"

record recoverer =
  rc_retryDelayFunc :: "int \<Rightarrow> gerror \<Rightarrow> Task \<Rightarrow> int"
  rc_isFailureFunc :: "gerror \<Rightarrow> bool"
  rc_queues :: "string list"
  rc_interval :: int

definition newRecoverer ::
  "string list \<Rightarrow> int \<Rightarrow> (int \<Rightarrow> gerror \<Rightarrow> Task \<Rightarrow> int) \<Rightarrow> (gerror \<Rightarrow> bool) \<Rightarrow> recoverer" where
  "newRecoverer qs interval retryDelayFunc isFailureFunc =
     \<lparr>rc_retryDelayFunc = retryDelayFunc, rc_isFailureFunc = isFailureFunc, rc_queues = qs, rc_interval = interval\<rparr>"

text \<open>Whether there is a callback stands for the callback.\<close>

record healthchecker =
  hc_interval :: int
  hc_healthcheckFunc :: bool

definition newHealthChecker :: "int \<Rightarrow> bool \<Rightarrow> healthchecker" where
  "newHealthChecker interval healthcheckFunc = \<lparr>hc_interval = interval, hc_healthcheckFunc = healthcheckFunc\<rparr>"

record janitor =
  ja_queues :: "string list"
  ja_interval :: int
  ja_batchSize :: int

definition newJanitor :: "string list \<Rightarrow> int \<Rightarrow> int \<Rightarrow> janitor" where
  "newJanitor qs interval batchSize = \<lparr>ja_queues = qs, ja_interval = interval, ja_batchSize = batchSize\<rparr>"

text \<open>\<open>hostname\<close> is what \<open>os.Hostname\<close> returns, if it returns no error.\<close>

definition newHeartbeater ::
  "string option \<Rightarrow> int \<Rightarrow> string \<Rightarrow> int \<Rightarrow> int \<Rightarrow> (string \<times> int) list \<Rightarrow> bool \<Rightarrow> heartbeater" where
  "newHeartbeater hostname pid uuid interval concurrency qs strictPriority =
     \<lparr>h_host = (case hostname of None \<Rightarrow> ''unknown-host'' | Some h \<Rightarrow> h), h_pid = pid, h_serverID = uuid,
      h_concurrency = concurrency, h_queues = qs, h_strictPriority = strictPriority, h_interval = interval,
      h_started = zero_time, h_workers = []\<rparr>"

subsection \<open>All of them\<close>

text \<open>The channels of the processor and the heartbeater are beside their records.\<close>

record 's components =
  co_syncer :: syncer
  co_heartbeater :: heartbeater
  co_hb_channels :: "ref \<times> ref" \<comment> \<open>\<open>starting\<close>, \<open>finished\<close>\<close>
  co_forwarder :: forwarder
  co_subscriber :: subscriber
  co_processor :: "'s processor"
  co_pr_channels :: "ref \<times> ref \<times> ref \<times> ref" \<comment> \<open>\<open>starting\<close>, \<open>finished\<close>, \<open>syncRequestCh\<close>, \<open>cancelations\<close>\<close>
  co_recoverer :: recoverer
  co_healthchecker :: healthchecker
  co_janitor :: janitor

definition new_components ::
  "nat \<Rightarrow> 's client \<Rightarrow> string option \<Rightarrow> int \<Rightarrow> string \<Rightarrow> bool \<Rightarrow> bool \<Rightarrow>
   ('c, int \<Rightarrow> gerror \<Rightarrow> Task \<Rightarrow> int, gerror \<Rightarrow> bool) server_params \<Rightarrow> 's components option" where
  "new_components um redis hostname pid uuid strictPriority healthcheckFunc sp =
     (let starting = 0; finished = 1; syncCh = 2; cancels = 3 in
      case newProcessor um redis (sp_retryDelayFunc sp) (sp_isFailureFunc sp) (sp_concurrency sp)
             (sp_queues sp) strictPriority of
        None \<Rightarrow> None
      | Some p \<Rightarrow> Some
          \<lparr>co_syncer = newSyncer syncCh (sp_syncInterval sp),
           co_heartbeater = newHeartbeater hostname pid uuid (sp_heartbeatInterval sp) (sp_concurrency sp)
             (sp_queues sp) strictPriority,
           co_hb_channels = (starting, finished),
           co_forwarder = newForwarder (sp_qnames sp) (sp_delayedTaskCheckInterval sp),
           co_subscriber = newSubscriber cancels,
           co_processor = p,
           co_pr_channels = (starting, finished, syncCh, cancels),
           co_recoverer = newRecoverer (sp_qnames sp) (sp_recoverInterval sp) (sp_retryDelayFunc sp) (sp_isFailureFunc sp),
           co_healthchecker = newHealthChecker (sp_healthcheckInterval sp) healthcheckFunc,
           co_janitor = newJanitor (sp_qnames sp) (sp_janitorInterval sp) (sp_janitorBatchSize sp)\<rparr>)"

text \<open>The queues a component looks at.\<close>

definition served_queues :: "'s components \<Rightarrow> string list list" where
  "served_queues co = [map fst (h_queues (co_heartbeater co)), fw_queues (co_forwarder co),
     rc_queues (co_recoverer co), ja_queues (co_janitor co), map fst (pr_queueConfig (co_processor co))]"

lemma NewServer_params:
  assumes "NewServerFromRedisClient numCPU bg dd fd cfg = Some sp"
  shows "sp_queues sp = config_queues (cfg_Queues cfg)" "sp_qnames sp = map fst (sp_queues sp)"
    "sp_concurrency sp = (if cfg_Concurrency cfg < 1 then numCPU else cfg_Concurrency cfg)"
    "normalizeQueues (sp_queues sp) = Some (sp_queueConfig sp)"
    "sp_orderedQueues sp = (if cfg_StrictPriority cfg then Some (sortByPriority (sp_queueConfig sp)) else None)"
proof -
  obtain lvl where l: "toInternalLogLevel (if cfg_LogLevel cfg = level_unspecified then InfoLevel else cfg_LogLevel cfg)
      = Some lvl"
    using assms by (auto simp: NewServerFromRedisClient_def Let_def split: option.splits)
  obtain qc where q: "normalizeQueues (config_queues (cfg_Queues cfg)) = Some qc"
    using assms by (auto simp: NewServerFromRedisClient_def newProcessor_queues_def Let_def split: option.splits)
  note d = assms [unfolded NewServerFromRedisClient_def Let_def l option.case newProcessor_queues_def q prod.case
      option.inject, symmetric]
  show "sp_queues sp = config_queues (cfg_Queues cfg)" "sp_qnames sp = map fst (sp_queues sp)"
    "sp_concurrency sp = (if cfg_Concurrency cfg < 1 then numCPU else cfg_Concurrency cfg)"
    "normalizeQueues (sp_queues sp) = Some (sp_queueConfig sp)"
    "sp_orderedQueues sp = (if cfg_StrictPriority cfg then Some (sortByPriority (sp_queueConfig sp)) else None)"
    unfolding d by (simp_all add: q)
qed

lemma new_components_ok:
  assumes "NewServerFromRedisClient numCPU bg dd fd cfg = Some sp" and "0 < numCPU"
  shows "\<exists>co. new_components um redis hostname pid uuid (cfg_StrictPriority cfg) hf sp = Some co
    \<and> pr_queueConfig (co_processor co) = sp_queueConfig sp
    \<and> pr_orderedQueues (co_processor co) = sp_orderedQueues sp
    \<and> 0 < pr_sema (co_processor co)
    \<and> h_concurrency (co_heartbeater co) = int (pr_sema (co_processor co))
    \<and> (\<forall>qs \<in> set (served_queues co). qs = map fst (config_queues (cfg_Queues cfg)))"
proof -
  note sp = NewServer_params [OF assms(1)]
  have c: "0 < sp_concurrency sp" using sp(3) assms(2) by simp
  have "config_queues (cfg_Queues cfg) \<noteq> []" "\<forall>p \<in> set (config_queues (cfg_Queues cfg)). 0 < snd p"
    using config_queues_ok [of "cfg_Queues cfg"] by auto
  from normalizeQueues_facts [OF this] have q: "map fst (sp_queueConfig sp) = map fst (config_queues (cfg_Queues cfg))"
    using sp(1,4) by auto
  obtain p where p: "newProcessor um redis (sp_retryDelayFunc sp) (sp_isFailureFunc sp) (sp_concurrency sp)
      (sp_queues sp) (cfg_StrictPriority cfg) = Some p"
    "pr_queueConfig p = sp_queueConfig sp" "pr_orderedQueues p = sp_orderedQueues sp" "pr_sema p = nat (sp_concurrency sp)"
    using sp(4,5) c by (auto simp: newProcessor_def)
  show ?thesis
    unfolding new_components_def Let_def p(1) option.case
    using p(2-4) c q sp(1,2)
    by (simp add: served_queues_def newHeartbeater_def newForwarder_def newRecoverer_def newJanitor_def)
qed

end
