(* ===== verification/ServerProps.thy ===== *)
theory ServerProps
  imports Example Goroutines Extension Logger Components
begin

text \<open>
  The properties of the server: what a worker does with a task, how the processor bounds and
  ends its workers, which queues it polls, the time limits and delays of tasks, the life
  cycle and the log.
\<close>

subsection \<open>Settling a task under its lease\<close>

text \<open>
  A worker whose lease has run out settles nothing: whatever ended the task, no command
  goes to Redis and no request to the syncer.
\<close>

lemma settle_needs_valid_lease:
  assumes "\<not> IsValid t0 l"
  shows "settle_task um send retryDelayFunc isFailureFunc t0 tr t1 l msg ev env = env"
  by (rule settle_task_expired [OF assms])

definition demo_env :: "net proc_env" where
  "demo_env = \<lparr>p_broker = demo_conn demo_active, p_ctx = [], p_sync = []\<rparr>"

lemma settle_needs_valid_lease_witness:
  "settle_task 100 net_send (\<lambda>_ _ _. 0) (\<lambda>_. True) 6 7 7 (NewLease 5) demo_msg (Handler_returned None) demo_env = demo_env"
  by (rule settle_needs_valid_lease) (simp add: IsValid_def NewLease_def)

lemma sync_dead_settle:
  "sync_dead env \<Longrightarrow> sync_dead (settle_task um send rdf isf t0 tr t1 l msg ev env)"
proof -
  assume d: "sync_dead env"
  have rq: "sync_dead (processor_requeue send t0 t1 l msg env)"
    using d by (auto simp: processor_requeue_def new_ctx_def sync_dead_def cancel_ctx_def nth_append
        nth_list_update split: prod.split)
  have fm: "sync_dead (handleFailedMessage um send rdf isf t0 tr t1 l msg e env)" for e
    using d by (simp add: handleFailedMessage_def processor_archive_def processor_retry_def Let_def
        with_lease_ctx_sync_dead)
  have sm: "sync_dead (handleSucceededMessage um send t0 t1 l msg env)"
    using d by (simp add: handleSucceededMessage_def markAsComplete_def markAsDone_def
        with_lease_ctx_sync_dead)
  show "sync_dead (settle_task um send rdf isf t0 tr t1 l msg ev env)"
    using rq fm sm by (simp add: settle_task_def split: worker_event.split option.split)
qed

text \<open>
  C26. A settlement that fails is not made up for by the syncer. The request carries a
  context that the deferred \<open>cancel()\<close> has ended by the time the worker is done, so however
  often the timer of the syncer fires, nothing changes in Redis; every request whose
  deadline has not passed is kept, and at the end every one that is left is reported as
  failed.
\<close>

theorem failed_settlements_never_retried:
  assumes "redis_client send db_of" and "sync_dead env"
    and "env' = settle_task um send retryDelayFunc isFailureFunc t0 tr t1 l msg ev env"
    and "\<forall>req. Sync_request req \<in> set evs \<longrightarrow> req \<in> set (p_sync env')"
    and "syncer_loop um send evs [] env' = (ended, kept, log, env'')"
  shows "db_of (conn (p_broker env'')) = db_of (conn (p_broker env'))
    \<and> (\<forall>req. Sync_request req \<in> set evs \<and> \<not> ended
         \<and> (\<forall>clk j. Sync_timer clk \<in> set evs \<longrightarrow> clk j \<le> sr_deadline req) \<longrightarrow> req \<in> set kept)
    \<and> (ended \<longrightarrow> log = map sr_errMsg kept)"
proof -
  have d: "\<forall>req. req \<in> set [] \<or> Sync_request req \<in> set evs \<longrightarrow> dead_request env' req"
    using sync_dead_settle [OF assms(2)] assms(3,4) by (auto simp: sync_dead_def dead_request_def)
  show ?thesis
    using redis_client.syncer_loop_dead [OF assms(1) d assms(5)] by blast
qed

definition demo_cut_env :: "net proc_env" where
  "demo_cut_env = \<lparr>p_broker = (demo_conn demo_active)\<lparr>conn := \<lparr>server = demo_run demo_active, faults = [[GiveUp]]\<rparr>\<rparr>,
     p_ctx = [], p_sync = []\<rparr>"

lemma demo_cut_settle:
  "\<exists>m. p_sync (settle_task 100 net_send (\<lambda>_ _ _. 0) (\<lambda>_. True) 6 7 7 (NewLease 50) demo_msg (Handler_returned None) demo_cut_env)
     = [\<lparr>sr_fn = Sync_Done demo_msg, sr_ctx = 0, sr_errMsg = m, sr_deadline = 50\<rparr>]"
  by (simp add: settle_task_def handleSucceededMessage_def markAsDone_def with_lease_ctx_def IsValid_def
      NewLease_def Lease_Deadline_def new_ctx_def run_sync_fn_def ctx_done_def demo_cut_env_def Done_def
      runScript_def issue_def net_send_def cancel_ctx_def Let_def)

theorem failed_settlements_never_retried_witness:
  "\<exists>req ended kept log env''.
     syncer_loop 100 net_send [Sync_request req, Sync_timer (\<lambda>_. 9), Sync_timer (\<lambda>_. 10)] []
       (settle_task 100 net_send (\<lambda>_ _ _. 0) (\<lambda>_. True) 6 7 7 (NewLease 50) demo_msg (Handler_returned None) demo_cut_env)
       = (ended, kept, log, env'')
     \<and> (ended \<or> req \<in> set kept) \<and> server (conn (p_broker env'')) = server (conn (p_broker
       (settle_task 100 net_send (\<lambda>_ _ _. 0) (\<lambda>_. True) 6 7 7 (NewLease 50) demo_msg (Handler_returned None) demo_cut_env)))"
proof -
  let ?env' = "settle_task 100 net_send (\<lambda>_ _ _. 0) (\<lambda>_. True) 6 7 7 (NewLease 50) demo_msg (Handler_returned None) demo_cut_env"
  have d: "sync_dead demo_cut_env" by (simp add: sync_dead_def demo_cut_env_def)
  obtain req where req: "p_sync ?env' = [req]" "sr_deadline req = 50" using demo_cut_settle by auto
  let ?evs = "[Sync_request req, Sync_timer (\<lambda>_. 9), Sync_timer (\<lambda>_. 10)]"
  obtain ended kept log env'' where t: "syncer_loop 100 net_send ?evs [] ?env' = (ended, kept, log, env'')"
    by (cases "syncer_loop 100 net_send ?evs [] ?env'") auto
  have "\<forall>r. Sync_request r \<in> set ?evs \<longrightarrow> r \<in> set (p_sync ?env')" using req by simp
  from failed_settlements_never_retried [OF demo_send d refl this t] req(2)
  show ?thesis using t by (intro exI [of _ req] exI [of _ ended] exI [of _ kept] exI [of _ log] exI [of _ env'']) auto
qed

subsection \<open>The workers of a processor\<close>

text \<open>
  At most as many workers run as the concurrency of the server, in every interleaving of
  the dispatcher, the workers and the shutdown; and once the shutdown holds all tokens no
  worker runs.
\<close>

lemma workers_bounded:
  assumes "dispatch_reach cap s"
  shows "length (d_running s) \<le> cap \<and> (d_shutdown s = cap \<longrightarrow> d_running s = [] \<and> d_mode s \<noteq> Holding)"
  using dispatch_reach_inv [OF assms] by (auto simp: dispatch_inv_def split: if_splits)

lemma workers_bounded_witness:
  "\<exists>s. dispatch_reach 2 s \<and> d_running s = [''t1''] \<and> length (d_running s) \<le> 2"
proof -
  let ?s1 = "dispatch_init\<lparr>d_mode := Holding, d_tokens := Suc (d_tokens dispatch_init)\<rparr>"
  let ?s = "?s1\<lparr>d_mode := Idle, d_running := ''t1'' # d_running ?s1\<rparr>"
  have "dispatch_reach 2 ?s1"
    by (intro dispatch_reach.step [OF dispatch_reach.init] dispatch_step.acquire) (simp_all add: dispatch_init_def)
  then have r: "dispatch_reach 2 ?s"
    by (rule dispatch_reach.step) (rule dispatch_step.spawn, simp)
  show ?thesis using workers_bounded [OF r] r by (intro exI [of _ ?s]) (simp add: dispatch_init_def)
qed

subsection \<open>The queues a server polls\<close>

text \<open>
  C29. A server made from a valid configuration serves the valid queues of the configuration, or
  the default queue when there are none: the heartbeater, the forwarder, the recoverer and the
  janitor work on exactly these, and the processor polls each of them exactly once per round,
  whatever the shuffle, in the order of the priorities when they are strict. It has at least
  one token, and as many as the heartbeater reports. What the processor sends, the heartbeater
  and the syncer receive, and the subscriber looks into the table the processor writes.
\<close>

theorem server_polls_every_queue:
  assumes "NewServerFromRedisClient numCPU bg dd fd cfg = Some sp" and "0 < numCPU"
    and "distinct (map fst (cfg_Queues cfg))" and "\<And>xs. mset (shuffle xs) = mset xs"
  shows "\<exists>co. new_components um redis hostname pid uuid (cfg_StrictPriority cfg) hf sp = Some co
    \<and> (let p = co_processor co; polled = queues shuffle (pr_queueConfig p) (pr_orderedQueues p);
            served = map fst (config_queues (cfg_Queues cfg))
       in (\<forall>qs \<in> set (served_queues co). qs = served) \<and> distinct served \<and> mset polled = mset served
         \<and> (cfg_StrictPriority cfg \<longrightarrow>
              (\<exists>qps. mset qps = mset (pr_queueConfig p) \<and> polled = map fst qps \<and> sorted_wrt (\<lambda>a b. snd a \<ge> snd b) qps))
         \<and> 0 < pr_sema p \<and> h_concurrency (co_heartbeater co) = int (pr_sema p)
         \<and> co_pr_channels co = (fst (co_hb_channels co), snd (co_hb_channels co), sy_requestsCh (co_syncer co),
              su_cancelations (co_subscriber co)))"
proof -
  note sp = NewServer_params [OF assms(1)]
  obtain co where co: "new_components um redis hostname pid uuid (cfg_StrictPriority cfg) hf sp = Some co"
    "pr_queueConfig (co_processor co) = sp_queueConfig sp" "pr_orderedQueues (co_processor co) = sp_orderedQueues sp"
    "0 < pr_sema (co_processor co)" "h_concurrency (co_heartbeater co) = int (pr_sema (co_processor co))"
    "\<forall>qs \<in> set (served_queues co). qs = map fst (config_queues (cfg_Queues cfg))"
    using new_components_ok [OF assms(1,2)] by blast
  have q: "config_queues (cfg_Queues cfg) \<noteq> []" "\<forall>p \<in> set (config_queues (cfg_Queues cfg)). 0 < snd p"
    using config_queues_ok [of "cfg_Queues cfg"] by auto
  from normalizeQueues_facts [OF q] have qc: "map fst (sp_queueConfig sp) = map fst (config_queues (cfg_Queues cfg))"
    "\<forall>p \<in> set (sp_queueConfig sp). 0 < snd p"
    using sp(1,4) by auto
  have d: "distinct (map fst (config_queues (cfg_Queues cfg)))"
    using assms(3) by (auto simp: config_queues_def Let_def defaultQueueConfig_def distinct_map_filter)
  have ne: "sp_queueConfig sp \<noteq> []" using qc(1) q(1) by (metis map_is_Nil_conv)
  have m: "mset (queues shuffle (sp_queueConfig sp) (sp_orderedQueues sp)) = mset (map fst (config_queues (cfg_Queues cfg)))"
    unfolding qc(1) [symmetric]
    by (rule queues_complete [OF _ ne qc(2) assms(4)])
      (use d qc(1) sp(5) in \<open>auto simp: sort_facts(1) split: if_splits\<close>)
  have one: "length xs = Suc 0 \<Longrightarrow> sort_key f xs = xs" for xs :: "(string \<times> int) list" and f :: "string \<times> int \<Rightarrow> int"
    by (cases xs) simp_all
  have s: "\<exists>qps. mset qps = mset (sp_queueConfig sp)
      \<and> queues shuffle (sp_queueConfig sp) (sp_orderedQueues sp) = map fst qps
      \<and> sorted_wrt (\<lambda>a b. snd a \<ge> snd b) qps" if "cfg_StrictPriority cfg"
    using that sp(5) sort_facts(2) [of "sp_queueConfig sp"] one [of "sp_queueConfig sp"]
    by (intro exI [of _ "sort_key (\<lambda>p. - snd p) (sp_queueConfig sp)"])
      (auto simp: queues_def sortByPriority_def split: option.split)
  have "co_pr_channels co = (fst (co_hb_channels co), snd (co_hb_channels co), sy_requestsCh (co_syncer co),
      su_cancelations (co_subscriber co))"
    using co(1) by (auto simp: new_components_def Let_def newSyncer_def newSubscriber_def split: option.splits)
  then show ?thesis using co m s d by (intro exI [of _ co]) (simp add: Let_def)
qed

definition demo_config :: "(unit, int \<Rightarrow> gerror \<Rightarrow> Task \<Rightarrow> int, gerror \<Rightarrow> bool) Config" where
  "demo_config = \<lparr>cfg_Concurrency = 0, cfg_BaseContext = None, cfg_TaskCheckInterval = 0, cfg_RetryDelayFunc = None,
     cfg_IsFailure = None, cfg_Queues = [(''low'', 10), (''critical'', 60), ('' '', 5), (''default'', 30)],
     cfg_StrictPriority = True, cfg_LogLevel = level_unspecified, cfg_ShutdownTimeout = 0,
     cfg_HealthCheckInterval = 0, cfg_DelayedTaskCheckInterval = 0, cfg_JanitorInterval = 0,
     cfg_JanitorBatchSize = 0\<rparr>"

theorem server_polls_every_queue_witness:
  "\<exists>sp co. NewServerFromRedisClient 8 () (\<lambda>n _ _. DefaultRetryDelayFunc 7 n) (\<lambda>_. True) demo_config = Some sp
     \<and> new_components 100 net_send None 1 ''u'' True False sp = Some co
     \<and> mset (queues rev (pr_queueConfig (co_processor co)) (pr_orderedQueues (co_processor co)))
       = {#''low'', ''critical'', ''default''#}"
proof -
  obtain sp where sp: "NewServerFromRedisClient 8 () (\<lambda>n _ _. DefaultRetryDelayFunc 7 n) (\<lambda>_. True) demo_config = Some sp"
    using NewServer_facts [of demo_config] by (fastforce simp: demo_config_def)
  have q: "map fst (config_queues (cfg_Queues demo_config)) = [''low'', ''critical'', ''default'']"
    by code_simp
  have "distinct (map fst (cfg_Queues demo_config))" "cfg_StrictPriority demo_config"
    by (simp_all add: demo_config_def)
  then show ?thesis
    using server_polls_every_queue [OF sp, of rev 100 net_send None 1 "''u''" False] sp q by (auto simp: Let_def)
qed

text \<open>
  The priorities are divided by their greatest common divisor: the proportions stay, and
  no further division is possible.
\<close>

lemma normalizeQueues_exact:
  assumes "cfg \<noteq> []" and "\<forall>p \<in> set cfg. 0 < snd p"
  shows "\<exists>d cfg'. 0 < d \<and> normalizeQueues cfg = Some cfg' \<and> map fst cfg' = map fst cfg
    \<and> map snd cfg = map (\<lambda>p. d * snd p) cfg' \<and> (\<forall>p \<in> set cfg'. 0 < snd p)
    \<and> (\<forall>e. (\<forall>p \<in> set cfg'. e dvd snd p) \<longrightarrow> \<bar>e\<bar> = 1)"
  by (rule normalizeQueues_facts [OF assms])

lemma normalizeQueues_exact_witness:
  "\<exists>cfg'. normalizeQueues [(''low'', 10), (''critical'', 60), (''default'', 30)] = Some cfg'
     \<and> (\<forall>e. (\<forall>p \<in> set cfg'. e dvd snd p) \<longrightarrow> \<bar>e\<bar> = 1)"
  using normalizeQueues_exact [of "[(''low'', 10), (''critical'', 60), (''default'', 30)]"] by auto

subsection \<open>Time limits and delays\<close>

text \<open>
  C31. The time limit of a task: its timeout in whole seconds from the start, or its deadline
  in whole seconds, or the earlier of both. A timeout below one second counts as none, so
  that such a task without a deadline gets the default of 30 minutes.
\<close>

theorem task_time_limit:
  assumes "0 \<le> o_timeout opt" "o_timeout opt < 2 ^ 62" "0 \<le> now" "now < 2 ^ 62"
    and "o_deadline opt = zero_time \<or> second_ns \<le> o_deadline opt \<and> o_deadline opt < 2 ^ 62"
  shows "computeDeadline now (client_message md5hex task opt) =
    (let t = o_timeout opt; D = o_deadline opt in
     if D = zero_time then (if t < second_ns then now + 30 * 60 * second_ns else now + t div second_ns * second_ns)
     else if t < second_ns then unix D * second_ns
     else min (unix now + t div second_ns) (unix D) * second_ns)"
proof -
  have s: "second_ns = 1000000000" by (simp add: second_ns_def)
  have w: "wrap64 i = i" if "0 \<le> i" "i < 2 ^ 63" for i using that by (simp add: wrap64_def)
  have ws: "whole_seconds d = d div second_ns" if "0 \<le> d" for d
    using that by (cases "d = 0") (simp_all add: whole_seconds_def s)
  have q: "0 \<le> d div second_ns" "d div second_ns * second_ns \<le> d" "d div second_ns < 2 ^ 52"
    if "0 \<le> d" "d < 2 ^ 62" for d
  proof -
    have d: "d < 4611686018427387904" using that(2) by simp
    show "0 \<le> d div second_ns" using that(1) by (simp add: s)
    show "d div second_ns * second_ns \<le> d" 
    proof -
      have "d div second_ns * second_ns + d mod second_ns = d" by simp
      moreover have "0 \<le> d mod second_ns" by (simp add: s)
      ultimately show ?thesis by linarith
    qed
    have "d div 1000000000 < 4503599627370496" using d by (simp add: div_less_iff_less_mult)
    then show "d div second_ns < 2 ^ 52" by (simp add: s)
  qed
  have z: "zero_time < 0" by (simp add: zero_time_def)
  define t where "t = o_timeout opt"
  define D where "D = o_deadline opt"
  have t: "0 \<le> t" "t < 2 ^ 62" using assms(1,2) by (simp_all add: t_def)
  have Dnz: "D \<noteq> 0" using assms(5) z by (auto simp: D_def s)
  have T: "Timeout (client_message md5hex task opt)
      = (if D = zero_time \<and> t = 0 then 1800 else t div second_ns)"
    using t Dnz by (auto simp: client_message_def effective_timeout_def effective_deadline_def Let_def
        noTimeout_def noDeadline_def defaultTimeout_def ws t_def [symmetric] D_def [symmetric] s)
  have L: "Deadline (client_message md5hex task opt) = (if D = zero_time then 0 else unix D)"
    by (simp add: client_message_def effective_deadline_def noDeadline_def D_def [symmetric] unix_def)
  have u: "unix i = i div second_ns" for i by (simp add: unix_def)
  have t0: "t div second_ns = 0 \<longleftrightarrow> t < second_ns" using t(1) by (auto simp: s zdiv_eq_0_iff)
  have dbl: "to_double i = i" if "0 \<le> i" "i < 2 ^ 53" for i using that by (intro to_double_exact) simp
  show ?thesis
  proof (cases "D = zero_time")
    case True
    have "wrap64 (t div second_ns * second_ns) = t div second_ns * second_ns"
      using q [OF t] t(2) by (intro w) (auto simp: s)
    then show ?thesis
      using True t0 by (simp add: computeDeadline_def T L Let_def t_def [symmetric] D_def [symmetric]
          defaultTimeout_def) (simp add: s wrap64_def)
  next
    case False
    then have D: "second_ns \<le> D" "D < 2 ^ 62" using assms(5) by (simp_all add: D_def)
    have D0: "unix D \<noteq> 0" "0 \<le> unix D" "unix D < 2 ^ 52"
      using D q(1,3) [of D] by (simp_all add: u s zdiv_eq_0_iff)
    have n: "0 \<le> unix now" "unix now < 2 ^ 52" using assms(3,4) q [of now] by (simp_all add: u)
    have "wrap64 (unix now + t div second_ns) = unix now + t div second_ns"
      using n q [OF t] by (intro w) auto
    moreover have "to_double (unix now + t div second_ns) = unix now + t div second_ns"
      using n q [OF t] by (intro dbl) auto
    moreover have "to_double (unix D) = unix D" using D0 by (intro dbl) auto
    ultimately show ?thesis
      using False D0(1) t0 by (auto simp: computeDeadline_def T L Let_def t_def [symmetric] D_def [symmetric])
  qed
qed

theorem task_time_limit_witness:
  "computeDeadline 7 (client_message id (NewTask ''mail'' None []) ((default_options ''id'' 0)\<lparr>o_timeout := 999999999\<rparr>))
     = 7 + 30 * 60 * second_ns"
proof -
  let ?opt = "(default_options ''id'' 0)\<lparr>o_timeout := 999999999\<rparr>"
  have "o_timeout ?opt = 999999999" "o_deadline ?opt = zero_time"
    by (simp_all add: default_options_def)
  then show ?thesis
    using task_time_limit [of ?opt 7 id "NewTask ''mail'' None []"] by (simp add: second_ns_def Let_def)
qed

text \<open>
  C32. The default delay before retry \<open>n\<close> is exactly \<open>n ^ 4 + 15 + r (n + 1)\<close> seconds, with
  \<open>r\<close> below 30, for the first 309 retries: at least 15 seconds, and growing with \<open>n\<close> for
  equal \<open>r\<close>. At \<open>n = 310\<close> the count of nanoseconds no longer fits 64 bits and the delay is
  negative.
\<close>

theorem retry_delay_exact:
  assumes "0 \<le> r" and "r < 30"
  shows "(0 \<le> n \<and> n \<le> 309 \<longrightarrow>
      DefaultRetryDelayFunc r n = (n ^ 4 + 15 + r * (n + 1)) * second_ns \<and> 15 * second_ns \<le> DefaultRetryDelayFunc r n)
    \<and> (0 \<le> n \<and> n < 309 \<longrightarrow> DefaultRetryDelayFunc r n < DefaultRetryDelayFunc r (n + 1))
    \<and> DefaultRetryDelayFunc r 310 < 0"
proof -
  have ex: "DefaultRetryDelayFunc r m = (m ^ 4 + 15 + r * (m + 1)) * second_ns"
    if "0 \<le> m" "m \<le> 309" for m
  proof -
    have "m ^ 4 \<le> 309 ^ 4" using that by (intro power_mono) auto
    moreover have "r * (m + 1) \<le> 29 * 310" using assms that by (intro mult_mono) auto
    moreover have "0 \<le> m ^ 4" "0 \<le> r * (m + 1)" using assms that by simp_all
    ultimately have "wrap64 ((m ^ 4 + 15 + r * (m + 1)) * second_ns) = (m ^ 4 + 15 + r * (m + 1)) * second_ns"
      by (intro wrap64_id) (simp_all add: second_ns_def)
    then show ?thesis using retry_delay_seconds [of m r] that assms by simp
  qed
  have ge: "15 * second_ns \<le> (m ^ 4 + 15 + r * (m + 1)) * second_ns" if "0 \<le> m" for m
    using that assms by (intro mult_right_mono) (auto simp: second_ns_def)
  have less: "(n ^ 4 + 15 + r * (n + 1)) * second_ns < ((n + 1) ^ 4 + 15 + r * (n + 1 + 1)) * second_ns"
    if "0 \<le> n"
  proof -
    have "n ^ 4 < (n + 1) ^ 4" using that by (intro power_strict_mono) auto
    moreover have "r * (n + 1) \<le> r * (n + 1 + 1)" using assms by (intro mult_left_mono) auto
    ultimately show ?thesis by (intro mult_strict_right_mono) (auto simp: second_ns_def)
  qed
  have wrap_neg: "wrap64 x < 0" if "9223372036854775808 \<le> x" "x < 18446744073709551616" for x
  proof -
    have "(x + 9223372036854775808) mod 18446744073709551616 = x + 9223372036854775808 - 18446744073709551616"
      using that by (subst minus_mod_self2 [symmetric], intro mod_pos_pos_trivial) simp_all
    then show ?thesis using that by (simp add: wrap64_def)
  qed
  have "DefaultRetryDelayFunc r 310 = wrap64 ((310 ^ 4 + 15 + r * (310 + 1)) * second_ns)"
    using retry_delay_seconds [of 310 r] assms by simp
  also have "\<dots> < 0"
  proof (rule wrap_neg)
    show "9223372036854775808 \<le> (310 ^ 4 + 15 + r * (310 + 1)) * second_ns"
      "(310 ^ 4 + 15 + r * (310 + 1)) * second_ns < 18446744073709551616"
      using assms by (simp_all add: second_ns_def)
  qed
  finally have neg: "DefaultRetryDelayFunc r 310 < 0" .
  show ?thesis using ex [of n] ex [of "n + 1"] ge [of n] less neg by auto
qed

theorem retry_delay_exact_witness:
  "DefaultRetryDelayFunc 29 1 = 74 * second_ns \<and> DefaultRetryDelayFunc 0 310 < 0"
  using retry_delay_exact [of 29 1] retry_delay_exact [of 0 0] by simp

subsection \<open>Life cycle and log\<close>

text \<open>
  C33. In every sequence of \<open>Start\<close>, \<open>Stop\<close>, \<open>Shutdown\<close> and \<open>Ping\<close> the components are
  started at most once, all in the order of the code, and shut down at most once, after
  the processor has stopped fetching if \<open>Stop\<close> was called; the connection is closed only when
  it is not shared; and nothing at all happens after the shutdown. The two orders are spelled out.
\<close>

theorem server_life_cycle:
  "srv_ok shared (srv_run ops (new_server shared))
   \<and> (srv_state (srv_run ops (new_server shared)) = srvStateClosed \<longrightarrow>
        srv_events (srv_run later (srv_run ops (new_server shared))) = srv_events (srv_run ops (new_server shared))
        \<and> (\<forall>h. fst (Server_Start (Some h) (srv_run ops (new_server shared))) = Some (Sentinel ErrServerClosed)))
   \<and> start_events = [Ev_start Heartbeater, Ev_start Healthchecker, Ev_start Subscriber, Ev_start Syncer,
       Ev_start Recoverer, Ev_start Forwarder, Ev_start Processor_comp, Ev_start Janitor]
   \<and> shutdown_events = [Ev_shutdown Forwarder, Ev_shutdown Processor_comp, Ev_shutdown Recoverer, Ev_shutdown Syncer,
       Ev_shutdown Subscriber, Ev_shutdown Janitor, Ev_shutdown Healthchecker, Ev_shutdown Heartbeater, Ev_wait]"
  using srv_ok_run [OF srv_ok_new] closed_run
  by (auto simp: Server_Start_def Server_start_def start_events_def shutdown_events_def Let_def)

theorem server_life_cycle_witness:
  "srv_events (srv_run [Op_Start (Some ())] (srv_run [Op_Start (Some ()), Op_Stop, Op_Shutdown] (new_server True)))
     = start_events @ [Ev_stop_processor] @ shutdown_events"
proof -
  let ?srv = "srv_run [Op_Start (Some ()), Op_Stop, Op_Shutdown] (new_server True)"
  have "srv_state ?srv = srvStateClosed" "srv_events ?srv = start_events @ [Ev_stop_processor] @ shutdown_events"
    by (simp_all add: srv_run_def new_server_def Server_Start_def Server_start_def Server_Stop_def
        Server_Shutdown_def emit_def Let_def)
  then show ?thesis
    using server_life_cycle [of True "[Op_Start (Some ()), Op_Stop, Op_Shutdown]" "[Op_Start (Some ())]"] by simp
qed

lemma waitForSignals_stop:
  "waitForSignals sigs srv =
     (if \<exists>s \<in> set sigs. s \<noteq> SIGTSTP
      then Some ((Server_Stop ^^ length (takeWhile (\<lambda>s. s = SIGTSTP) sigs)) srv) else None)"
  by (induction sigs arbitrary: srv) (auto simp: funpow_swap1)

lemma Server_Stop_twice: "Server_Stop (Server_Stop srv) = Server_Stop srv"
  by (simp add: Server_Stop_def emit_def)

lemma Server_Stop_pow: "(Server_Stop ^^ n) srv = (if n = 0 then srv else Server_Stop srv)"
  by (induction n) (auto simp: Server_Stop_twice)

text \<open>
  \<open>Run\<close> returns exactly when a signal other than \<open>SIGTSTP\<close> arrives: a fresh server with
  a handler then ends closed with every component started and shut down; each \<open>SIGTSTP\<close>
  before that only stops the fetching, once.
\<close>

lemma Run_ends_closed:
  "Server_Run sigs (Some h) (new_server shared) =
     (if \<exists>s \<in> set sigs. s \<noteq> SIGTSTP
      then Some (None, \<lparr>srv_state = srvStateClosed, srv_sharedConnection = shared, srv_handler = Some h,
        srv_events = start_events @ (if hd sigs = SIGTSTP then [Ev_stop_processor] else [])
          @ shutdown_events @ close_events shared\<rparr>)
      else None)"
proof (cases "\<exists>s \<in> set sigs. s \<noteq> SIGTSTP")
  case True
  then obtain s ss where "sigs = s # ss" by (cases sigs) auto
  then show ?thesis
    using True
    by (auto simp: Server_Run_def Server_Start_def Server_start_def new_server_def emit_def Let_def
        waitForSignals_stop Server_Stop_pow Server_Stop_def Server_Shutdown_def close_events_def)
next
  case False
  then show ?thesis
    by (simp add: Server_Run_def Server_Start_def Server_start_def new_server_def Let_def waitForSignals_stop)
qed

lemma Run_ends_closed_witness:
  "Server_Run [SIGTSTP, SIGTSTP, SIGTERM] (Some ()) (new_server False) =
     Some (None, \<lparr>srv_state = srvStateClosed, srv_sharedConnection = False, srv_handler = Some (),
        srv_events = start_events @ [Ev_stop_processor] @ shutdown_events @ [Ev_close]\<rparr>)"
  by (subst Run_ends_closed) (simp add: close_events_def)

text \<open>
  \<open>Set\<close> accepts what \<open>String\<close> prints, in any mixture of cases, and gives the level back; a
  logger set to the internal level of a configured level passes on exactly the messages of
  that level and above, and every fatal one.
\<close>

lemma log_levels_gate:
  assumes "LogLevel_String lv = Some s" and "ToLower s' = s"
  shows "LogLevel_Set s' = Inr lv
    \<and> (\<exists>v l'. toInternalLogLevel lv = Some v \<and> SetLevel v l = Some l' \<and> lg_level l' = v
         \<and> (\<forall>m args. log_at m impl args l'
              = (if v \<le> method_level m then l'\<lparr>lg_base := impl m args (lg_base l)\<rparr> else l'))
         \<and> v \<le> method_level Base_Fatal)"
proof -
  have lv: "lv \<in> {DebugLevel, InfoLevel, WarnLevel, ErrorLevel, FatalLevel}"
    using assms(1) by (auto simp: LogLevel_String_def split: if_splits)
  have "LogLevel_Set s' = Inr lv"
    using lv assms by (auto simp: LogLevel_String_def LogLevel_Set_def srv_levels)
  moreover obtain v where v: "toInternalLogLevel lv = Some v" "log_DebugLevel \<le> v" "v \<le> log_FatalLevel"
    using lv by (auto simp: toInternalLogLevel_def srv_levels log_levels)
  moreover have "SetLevel v l = Some (l\<lparr>lg_level := v\<rparr>)" using v by (simp add: SetLevel_def)
  ultimately show ?thesis by (auto simp: log_at_gate)
qed

subsection \<open>Heartbeats\<close>

text \<open>
  C35. The heartbeater knows, for every task ID, the task last started under it and not
  finished since. When its calls are answered, its next beat extends exactly the valid leases
  of those tasks: in the queue \<open>q\<close> they end \<open>LeaseDuration\<close> after a reading of the clock of this
  beat, all other leases of \<open>q\<close> are as they were, and none is added. As it goes by the task ID
  alone, starting a task ends the extensions for a running task of the same ID in another
  queue. The names of the queues of the running tasks hold no closing brace.
\<close>

theorem heartbeat_extends_known_leases:
  assumes "redis_client send db_of" and "heartbeater_loop zone send evs h r = (False, h', r')" and "h_workers h = []"
    and "\<forall>j m. running_task evs j None = Some m \<longrightarrow> good_name (Queue m)" and "good_name q"
    and "answering send up" and "up (conn r')" and "qrep q (db_of (conn r')) st"
    and "beat zone send clk status h' r' = (h'', r'')"
  shows "map_option w_msg (map_of (h_workers h') i) = running_task evs i None
    \<and> (\<exists>st' k. 2 \<le> k \<and> qrep q (db_of (conn r'')) st'
      \<and> (\<forall>e j. (e, j) \<in> set (q_lease st') \<longleftrightarrow>
          (if \<exists>w. map_of (h_workers h') j = Some w \<and> IsValid (clk 0) (w_lease w) \<and> Queue (w_msg w) = q
           then j \<in> set (zmembers (q_lease st)) \<and> e = unix (clk k + LeaseDuration)
           else (e, j) \<in> set (q_lease st)))
      \<and> (\<forall>e j m. running_task evs j None = Some m \<and> Queue m \<noteq> q \<longrightarrow>
          ((e, j) \<in> set (q_lease st') \<longleftrightarrow> (e, j) \<in> set (q_lease st))))"
proof -
  have d0: "distinct (map fst (h_workers h))" using assms(3) by simp
  note w = heartbeater_loop_workers [OF assms(2) d0]
  have m: "map_option w_msg (map_of (h_workers h') j) = running_task evs j None" for j
    using w [of j] assms(3) by simp
  have names: "good_name (Queue (w_msg v))" if "map_of (h_workers h') j = Some v" for j v
    using assms(4) m [of j] that by simp
  obtain st' k where st': "2 \<le> k" "qrep q (db_of (conn r'')) st'"
    "extended {j. \<exists>w. map_of (h_workers h') j = Some w \<and> IsValid (clk 0) (w_lease w) \<and> Queue (w_msg w) = q}
      (unix (clk k + LeaseDuration)) st st'"
    using redis_client.beat_extends [OF assms(1,6,7,8,5) conjunct1 [OF w] _ assms(9)] names by blast
  have x: "(e, j) \<in> set (q_lease st') \<longleftrightarrow>
      (if \<exists>w. map_of (h_workers h') j = Some w \<and> IsValid (clk 0) (w_lease w) \<and> Queue (w_msg w) = q
       then j \<in> set (zmembers (q_lease st)) \<and> e = unix (clk k + LeaseDuration)
       else (e, j) \<in> set (q_lease st))" for e j
    using st'(3) by (simp add: extended_def)
  have "(e, j) \<in> set (q_lease st') \<longleftrightarrow> (e, j) \<in> set (q_lease st)"
    if "running_task evs j None = Some m" "Queue m \<noteq> q" for e j m
    using m [of j] that unfolding x by (auto simp: if_splits)
  then show ?thesis using m [of i] st'(1,2) x by blast
qed

definition demo_heartbeater :: heartbeater where
  "demo_heartbeater = \<lparr>h_host = ''host'', h_pid = 7, h_serverID = ''s1'', h_concurrency = 2,
     h_queues = [(''default'', 1), (''low'', 1)], h_strictPriority = False, h_interval = 5 * second_ns,
     h_started = 0, h_workers = []\<rparr>"

definition demo_start :: "string \<Rightarrow> workerInfo" where
  "demo_start q = \<lparr>w_msg = demo_msg\<lparr>Queue := q\<rparr>, w_started = 0, w_deadline = 1800 * second_ns,
     w_lease = NewLease (30 * second_ns)\<rparr>"

lemma net_answering: "answering net_send (\<lambda>s. faults s = [])"
  by (simp add: answering_def net_send_def)

theorem heartbeat_extends_known_leases_witness:
  "\<exists>st1 st2.
     (let h1 = worker_starting (demo_start ''default'') demo_heartbeater in
      qrep ''default'' (server (conn (snd (beat (\<lambda>_. 0) net_send (\<lambda>_. 10 * second_ns) ''active'' h1 (demo_conn demo_active))))) st1)
     \<and> (40, ''t1'') \<in> set (q_lease st1)
     \<and> (let h2 = worker_starting (demo_start ''low'') (worker_starting (demo_start ''default'') demo_heartbeater) in
        qrep ''default'' (server (conn (snd (beat (\<lambda>_. 0) net_send (\<lambda>_. 10 * second_ns) ''active'' h2 (demo_conn demo_active))))) st2)
     \<and> (30, ''t1'') \<in> set (q_lease st2)"
proof -
  let ?evs1 = "[HB_starting (demo_start ''default'')]"
  let ?evs2 = "[HB_starting (demo_start ''default''), HB_starting (demo_start ''low'')]"
  let ?h1 = "worker_starting (demo_start ''default'') demo_heartbeater"
  let ?h2 = "worker_starting (demo_start ''low'') ?h1"
  let ?r = "demo_conn demo_active"
  have l: "heartbeater_loop (\<lambda>_. 0) net_send ?evs1 demo_heartbeater ?r = (False, ?h1, ?r)"
    "heartbeater_loop (\<lambda>_. 0) net_send ?evs2 demo_heartbeater ?r = (False, ?h2, ?r)" by simp_all
  have h: "h_workers demo_heartbeater = []" by (simp add: demo_heartbeater_def)
  have names: "\<forall>j m. running_task ?evs1 j None = Some m \<longrightarrow> good_name (Queue m)"
    "\<forall>j m. running_task ?evs2 j None = Some m \<longrightarrow> good_name (Queue m)"
    by (auto simp: demo_start_def good_name_def split: if_splits)
  have rest: "good_name ''default''" "faults (conn ?r) = []" "qrep ''default'' (server (conn ?r)) (demo_effect demo_active)"
    using demo_active_rep by (simp_all add: good_name_def)
  have t1: "''t1'' \<in> set (zmembers (q_lease (demo_effect demo_active)))" "(30, ''t1'') \<in> set (q_lease (demo_effect demo_active))"
    by (simp_all add: demo_archived(2) zmembers_def)
  have w1: "map_of (h_workers ?h1) ''t1'' = Some (demo_start ''default'')" "IsValid (10 * second_ns) (w_lease (demo_start ''default''))"
    "Queue (w_msg (demo_start ''default'')) = ''default''"
    by (simp_all add: worker_starting_def demo_start_def demo_heartbeater_def IsValid_def NewLease_def second_ns_def)
  have e: "unix (10 * second_ns + LeaseDuration) = 40" by (simp add: unix_def LeaseDuration_def second_ns_def)
  have low_queue: "Queue (demo_msg\<lparr>Queue := ''low''\<rparr>) \<noteq> ''default''" by simp
  have w2: "running_task ?evs2 ''t1'' None = Some (demo_msg\<lparr>Queue := ''low''\<rparr>)" by (simp add: demo_start_def)
  obtain h1' r1' where b1: "beat (\<lambda>_. 0) net_send (\<lambda>_. 10 * second_ns) ''active'' ?h1 ?r = (h1', r1')" by fastforce
  obtain h2' r2' where b2: "beat (\<lambda>_. 0) net_send (\<lambda>_. 10 * second_ns) ''active'' ?h2 ?r = (h2', r2')" by fastforce
  note c1 = heartbeat_extends_known_leases [OF demo_send l(1) h names(1) rest(1) net_answering rest(2,3) b1]
  note c2 = heartbeat_extends_known_leases [OF demo_send l(2) h names(2) rest(1) net_answering rest(2,3) b2]
  from c1 obtain st1 k where "qrep ''default'' (server (conn r1')) st1"
    and c1': "\<forall>e j. (e, j) \<in> set (q_lease st1) \<longleftrightarrow> (if \<exists>w. map_of (h_workers ?h1) j = Some w \<and> IsValid (10 * second_ns) (w_lease w)
      \<and> Queue (w_msg w) = ''default''
      then j \<in> set (zmembers (q_lease (demo_effect demo_active))) \<and> e = unix (10 * second_ns + LeaseDuration)
      else (e, j) \<in> set (q_lease (demo_effect demo_active)))" by blast
  moreover have "(40, ''t1'') \<in> set (q_lease st1)"
    unfolding c1' [rule_format] using w1 e t1(1) by auto
  moreover from c2 obtain st2 where "qrep ''default'' (server (conn r2')) st2"
    and c2': "\<forall>e j m. running_task ?evs2 j None = Some m \<and> Queue m \<noteq> ''default'' \<longrightarrow>
      ((e, j) \<in> set (q_lease st2) \<longleftrightarrow> (e, j) \<in> set (q_lease (demo_effect demo_active)))" by blast
  moreover have "(30, ''t1'') \<in> set (q_lease st2)"
    using c2' [rule_format, OF conjI [OF w2 low_queue], of 30] t1(2) by simp
  ultimately show ?thesis using b1 b2 by (auto simp: Let_def)
qed

end
