(* ===== verification/Cancels.thy ===== *)
theory Cancels
  imports Exec
begin

text \<open>
  The contexts of the workers of \<open>processor.go\<close> and the table of cancel functions the
  subscriber looks into: which contexts are working, and which cancel function belongs to which
  worker, in every reachable state.
\<close>

subsection \<open>Contexts and cancel functions\<close>

definition open_worker :: "worker \<Rightarrow> bool" where
  "open_worker w \<longleftrightarrow> wk_phase w = W_ready \<or> wk_phase w = W_waiting \<or> wk_phase w = W_settled"

text \<open>The workers between \<open>Add\<close> and \<open>Delete\<close>, and the contexts handed out to workers so far.\<close>

definition opens :: "'s processor_state \<Rightarrow> (string \<times> nat) list" where
  "opens s = map (\<lambda>w. (ID (wk_msg w), wk_ctx w)) (filter open_worker (x_workers s))"

definition worker_ctxs :: "'s processor_state \<Rightarrow> nat list" where
  "worker_ctxs s = map wk_ctx (filter (\<lambda>w. wk_phase w \<noteq> W_new) (x_workers s))"

definition ctx_worker_ok :: "(int \<times> bool) list \<Rightarrow> worker \<Rightarrow> bool" where
  "ctx_worker_ok ctx w \<longleftrightarrow> (wk_phase w \<noteq> W_new \<longrightarrow> wk_ctx w < length ctx)
     \<and> (wk_phase w = W_unregistered \<or> wk_phase w = W_ended \<longrightarrow> wk_ctx w < length ctx \<and> snd (ctx ! wk_ctx w))
     \<and> (wk_handler w \<noteq> H_none \<longrightarrow> wk_phase w \<noteq> W_new \<and> wk_phase w \<noteq> W_ready)"

definition ctx_inv :: "'s processor_state \<Rightarrow> bool" where
  "ctx_inv s \<longleftrightarrow> (let ctx = p_ctx (x_env s) in
     (\<forall>w \<in> set (x_workers s). ctx_worker_ok ctx w) \<and> distinct (worker_ctxs s)
     \<and> (\<forall>c < length ctx. \<not> snd (ctx ! c) \<longrightarrow> c \<in> snd ` set (opens s))
     \<and> (\<forall>i c. x_cancelations s i = Some c \<longrightarrow> (i, c) \<in> set (opens s)))"

text \<open>Contexts are only added, canceled ones stay canceled, and those added are canceled.\<close>

definition ctx_ages :: "(int \<times> bool) list \<Rightarrow> (int \<times> bool) list \<Rightarrow> bool" where
  "ctx_ages xs ys \<longleftrightarrow> length xs \<le> length ys
     \<and> (\<forall>c < length ys. \<not> snd (ys ! c) \<longrightarrow> c < length xs \<and> \<not> snd (xs ! c))"

lemma ctx_agesI:
  "length xs \<le> length ys \<Longrightarrow> (\<And>c. c < length ys \<Longrightarrow> \<not> snd (ys ! c) \<Longrightarrow> c < length xs \<and> \<not> snd (xs ! c)) \<Longrightarrow>
   ctx_ages xs ys"
  by (simp add: ctx_ages_def)

lemma ctx_agesD:
  "ctx_ages xs ys \<Longrightarrow> length xs \<le> length ys"
  "ctx_ages xs ys \<Longrightarrow> c < length ys \<Longrightarrow> \<not> snd (ys ! c) \<Longrightarrow> c < length xs"
  "ctx_ages xs ys \<Longrightarrow> c < length xs \<Longrightarrow> snd (xs ! c) \<Longrightarrow> snd (ys ! c)"
  unfolding ctx_ages_def by (blast, blast, meson order.strict_trans2)

lemma ctx_ages_refl [simp]: "ctx_ages xs xs"
  by (simp add: ctx_ages_def)

lemma ctx_ages_trans:
  assumes "ctx_ages xs ys" and "ctx_ages ys zs"
  shows "ctx_ages xs zs"
  using assms order_trans [of "length xs" "length ys" "length zs"] unfolding ctx_ages_def by blast

lemma ctx_ages_cancel [simp]: "ctx_ages (p_ctx env) (p_ctx (cancel_ctx c env))"
  by (rule ctx_agesI) (auto simp: cancel_ctx_def nth_list_update split: if_splits, metis nth_list_update_eq nth_list_update_neq snd_conv)

text \<open>A context made for a call is canceled when the call returns.\<close>

lemma ctx_ages_call:
  assumes "new_ctx d env = (c, env1)" and "p_ctx env2 = p_ctx env1"
  shows "ctx_ages (p_ctx env) (p_ctx (cancel_ctx c env2))"
proof (rule ctx_agesI)
  have p: "p_ctx (cancel_ctx c env2) = p_ctx env @ [(d, True)]"
    using assms by (auto simp: new_ctx_def cancel_ctx_def list_update_append)
  show "length (p_ctx env) \<le> length (p_ctx (cancel_ctx c env2))" using p by simp
  show "c' < length (p_ctx env) \<and> \<not> snd (p_ctx env ! c')"
    if "c' < length (p_ctx (cancel_ctx c env2))" "\<not> snd (p_ctx (cancel_ctx c env2) ! c')" for c'
    using that p by (cases "c' < length (p_ctx env)") (auto simp: nth_append less_Suc_eq)
qed

lemma ctx_ages_lease: "ctx_ages (p_ctx env) (p_ctx (with_lease_ctx um send t0 t1 l fn errMsg env))"
proof (cases "IsValid t0 l")
  case True
  obtain c env1 where n: "new_ctx (Lease_Deadline l) env = (c, env1)" by fastforce
  obtain e env2 where r: "run_sync_fn um send t1 c fn env1 = (e, env2)" by fastforce
  then have "p_ctx env2 = p_ctx env1" using run_sync_fn_simps(1) [of um send t1 c fn env1] by simp
  then show ?thesis using True n r by (cases e) (auto simp: with_lease_ctx_def intro: ctx_ages_call [OF n])
qed (simp add: with_lease_ctx_def)

lemma ctx_ages_settle: "ctx_ages (p_ctx env) (p_ctx (settle_task um send rdf isf t0 tr t1 l msg ev env))"
proof -
  have "ctx_ages (p_ctx env) (p_ctx (processor_requeue send t0 t1 l msg env))"
    by (auto simp: processor_requeue_def split: prod.split intro: ctx_ages_call)
  moreover have "ctx_ages (p_ctx env) (p_ctx (handleFailedMessage um send rdf isf t0 tr t1 l msg e env))" for e
    by (simp add: handleFailedMessage_def processor_archive_def processor_retry_def Let_def ctx_ages_lease)
  moreover have "ctx_ages (p_ctx env) (p_ctx (handleSucceededMessage um send t0 t1 l msg env))"
    by (simp add: handleSucceededMessage_def markAsComplete_def markAsDone_def ctx_ages_lease)
  ultimately show ?thesis by (simp add: settle_task_def split: worker_event.split option.split)
qed

lemma ctx_worker_ok_ages: "ctx_worker_ok xs w \<Longrightarrow> ctx_ages xs ys \<Longrightarrow> ctx_worker_ok ys w"
  unfolding ctx_worker_ok_def using ctx_agesD(1,3) [of xs ys] by (meson order.strict_trans2)

text \<open>A step that makes no context, ends none other than its own and leaves the table alone.\<close>

definition quiet_step :: "'s processor_state \<Rightarrow> 's processor_state \<Rightarrow> bool" where
  "quiet_step s s' \<longleftrightarrow> ctx_ages (p_ctx (x_env s)) (p_ctx (x_env s')) \<and> opens s' = opens s
     \<and> worker_ctxs s' = worker_ctxs s \<and> x_cancelations s' = x_cancelations s
     \<and> ((\<forall>w \<in> set (x_workers s). ctx_worker_ok (p_ctx (x_env s)) w) \<longrightarrow>
         (\<forall>w \<in> set (x_workers s'). ctx_worker_ok (p_ctx (x_env s)) w))"

lemma ctx_inv_quiet:
  assumes "ctx_inv s" and "quiet_step s s'"
  shows "ctx_inv s'"
proof -
  have ages: "ctx_ages (p_ctx (x_env s)) (p_ctx (x_env s'))" using assms(2) by (simp add: quiet_step_def)
  show ?thesis
    using assms ctx_worker_ok_ages [OF _ ages] ctx_agesD(2,3) [OF ages]
    unfolding ctx_inv_def quiet_step_def Let_def by metis
qed

lemma quiet_env:
  "x_workers s' = x_workers s \<Longrightarrow> ctx_ages (p_ctx (x_env s)) (p_ctx (x_env s')) \<Longrightarrow>
   x_cancelations s' = x_cancelations s \<Longrightarrow> quiet_step s s'"
  by (simp add: quiet_step_def opens_def worker_ctxs_def)

text \<open>A step that changes one worker but neither its context nor whether it is open.\<close>

lemma quiet_worker:
  assumes "k < length (x_workers s)" and "w = x_workers s ! k"
    and "ctx_ages (p_ctx (x_env s)) (p_ctx (x_env t))"
    and "ctx_worker_ok (p_ctx (x_env s)) w \<Longrightarrow> ctx_worker_ok (p_ctx (x_env s)) w'"
    and "wk_msg w' = wk_msg w" "wk_ctx w' = wk_ctx w" "open_worker w' = open_worker w"
      "(wk_phase w' = W_new) = (wk_phase w = W_new)"
    and "x_workers t = x_workers s" "x_cancelations t = x_cancelations s"
  shows "quiet_step s (put_worker k w' t)"
proof -
  have "\<forall>v \<in> set (x_workers (put_worker k w' t)). ctx_worker_ok (p_ctx (x_env s)) v"
    if "\<forall>v \<in> set (x_workers s). ctx_worker_ok (p_ctx (x_env s)) v"
    using assms(1,2,4,9) that by (metis in_set_conv_nth length_list_update nth_list_update put_worker_simps(9) nth_mem)
  moreover have "opens (put_worker k w' t) = opens s" "worker_ctxs (put_worker k w' t) = worker_ctxs s"
    using assms(1,2,5-9) by (simp_all add: opens_def worker_ctxs_def filter_map_update)
  ultimately show ?thesis using assms(3,10) by (simp add: quiet_step_def)
qed

lemma filter_add_update:
  "k < length xs \<Longrightarrow> \<not> P (xs ! k) \<Longrightarrow> P x \<Longrightarrow>
   mset (map f (filter P (xs[k := x]))) = add_mset (f x) (mset (map f (filter P xs)))"
proof (induction xs arbitrary: k)
  case (Cons y ys)
  then show ?case by (cases k) auto
qed simp

lemma at_phaseE:
  assumes "at_phase ph k f s = Some s'"
  obtains w where "k < length (x_workers s)" "w = x_workers s ! k" "wk_phase w = ph" "f w = Some s'"
  using assms by (auto simp: at_phase_def split: if_splits)

lemma at_handlerE:
  assumes "at_handler k f s = Some s'"
  obtains w where "k < length (x_workers s)" "w = x_workers s ! k" "wk_handler w = H_running" "f w = Some s'"
  using assms by (auto simp: at_handler_def split: if_splits)

lemma ctx_inv_D:
  assumes "ctx_inv s"
  shows "k < length (x_workers s) \<Longrightarrow> ctx_worker_ok (p_ctx (x_env s)) (x_workers s ! k)"
    and "distinct (worker_ctxs s)"
    and "c < length (p_ctx (x_env s)) \<Longrightarrow> \<not> snd (p_ctx (x_env s) ! c) \<Longrightarrow> c \<in> snd ` set (opens s)"
    and "x_cancelations s i = Some c \<Longrightarrow> (i, c) \<in> set (opens s)"
  using assms by (auto simp: ctx_inv_def Let_def)

lemma distinct_filter_nth:
  assumes "distinct (map f (filter P xs))" and "j < length xs" "k < length xs" "j \<noteq> k" "P (xs ! j)" "P (xs ! k)"
  shows "f (xs ! j) \<noteq> f (xs ! k)"
  using assms
proof (induction xs arbitrary: j k)
  case (Cons x xs)
  then show ?case
    by (cases j; cases k) (auto simp: image_iff dest!: nth_mem split: if_splits)
qed simp

text \<open>The step that makes a context and registers it.\<close>

lemma worker_begin_opens:
  assumes "worker_begin k base baseErr s = Some s'"
  obtains w d where "k < length (x_workers s)" "w = x_workers s ! k" "wk_phase w = W_new"
    "p_ctx (x_env s') = p_ctx (x_env s) @ [(d, False)]"
    "x_cancelations s' = (x_cancelations s)(ID (wk_msg w) \<mapsto> length (p_ctx (x_env s)))"
    "mset (opens s') = add_mset (ID (wk_msg w), length (p_ctx (x_env s))) (mset (opens s))"
    "mset (worker_ctxs s') = add_mset (length (p_ctx (x_env s))) (mset (worker_ctxs s))"
    "x_workers s' = (x_workers s)[k := w\<lparr>wk_phase := W_ready, wk_ctx := length (p_ctx (x_env s)), wk_baseErr := baseErr\<rparr>]"
proof -
  obtain w where w: "k < length (x_workers s)" "w = x_workers s ! k" "wk_phase w = W_new"
    using assms unfolding worker_begin_def by (elim at_phaseE)
  let ?w = "w\<lparr>wk_phase := W_ready, wk_ctx := length (p_ctx (x_env s)), wk_baseErr := baseErr\<rparr>"
  let ?d = "the (ctx_deadline (context_New base (wk_msg w) (wk_deadline w)))"
  have s': "s' = put_worker k ?w (s\<lparr>x_env := (x_env s)\<lparr>p_ctx := p_ctx (x_env s) @ [(?d, False)]\<rparr>,
      x_cancelations := (x_cancelations s)(ID (wk_msg w) \<mapsto> length (p_ctx (x_env s)))\<rparr>)"
    using assms w by (auto simp: worker_begin_def at_phase_def new_ctx_def Cancelations_Add_def)
  have o: "mset (opens s') = add_mset (ID (wk_msg w), length (p_ctx (x_env s))) (mset (opens s))"
    using filter_add_update [of k "x_workers s" open_worker ?w "\<lambda>w. (ID (wk_msg w), wk_ctx w)"] w s'
    by (simp add: opens_def open_worker_def)
  have c: "mset (worker_ctxs s') = add_mset (length (p_ctx (x_env s))) (mset (worker_ctxs s))"
    using filter_add_update [of k "x_workers s" "\<lambda>w. wk_phase w \<noteq> W_new" ?w wk_ctx] w s'
    by (simp add: worker_ctxs_def)
  show thesis by (rule that [OF w _ _ o c]) (simp_all add: s')
qed

lemma worker_begin_ctx_inv:
  assumes "worker_begin k base baseErr s = Some s'" and "ctx_inv s"
  shows "ctx_inv s'"
proof -
  let ?n = "length (p_ctx (x_env s))"
  obtain w d where w: "k < length (x_workers s)" "w = x_workers s ! k" "wk_phase w = W_new"
    and s': "p_ctx (x_env s') = p_ctx (x_env s) @ [(d, False)]"
      "x_cancelations s' = (x_cancelations s)(ID (wk_msg w) \<mapsto> ?n)"
      "mset (opens s') = add_mset (ID (wk_msg w), ?n) (mset (opens s))"
      "mset (worker_ctxs s') = add_mset ?n (mset (worker_ctxs s))"
      "x_workers s' = (x_workers s)[k := w\<lparr>wk_phase := W_ready, wk_ctx := ?n, wk_baseErr := baseErr\<rparr>]"
    using worker_begin_opens [OF assms(1)] by metis
  have o: "set (opens s') = insert (ID (wk_msg w), ?n) (set (opens s))"
    by (metis s'(3) set_mset_add_mset_insert set_mset_mset)
  have lt: "c < ?n" if "c \<in> set (worker_ctxs s)" for c
    using that assms(2) by (auto simp: worker_ctxs_def ctx_inv_def ctx_worker_ok_def Let_def)
  have "distinct (?n # worker_ctxs s)" using lt ctx_inv_D(2) [OF assms(2)] by auto
  then have "distinct (worker_ctxs s')" using s'(4) by (metis mset.simps(2) mset_eq_imp_distinct_iff)
  moreover have "ctx_worker_ok (p_ctx (x_env s')) v" if v: "v \<in> set (x_workers s')" for v
  proof -
    have "ctx_worker_ok (p_ctx (x_env s)) v \<Longrightarrow> ctx_worker_ok (p_ctx (x_env s')) v"
      by (auto simp: ctx_worker_ok_def s'(1) nth_append)
    moreover have "ctx_worker_ok (p_ctx (x_env s')) (w\<lparr>wk_phase := W_ready, wk_ctx := ?n, wk_baseErr := baseErr\<rparr>)"
      using w ctx_inv_D(1) [OF assms(2) w(1)] by (auto simp: ctx_worker_ok_def s'(1))
    ultimately show ?thesis
      using v s'(5) w(1) assms(2) set_update_subset_insert by (fastforce simp: ctx_inv_def Let_def)
  qed
  moreover have "c \<in> snd ` set (opens s')"
    if "c < length (p_ctx (x_env s'))" "\<not> snd (p_ctx (x_env s') ! c)" for c
    using that ctx_inv_D(3) [OF assms(2), of c] by (auto simp: s'(1) o nth_append less_Suc_eq)
  moreover have "(i, c) \<in> set (opens s')" if "x_cancelations s' i = Some c" for i c
    using that ctx_inv_D(4) [OF assms(2), of i c] by (auto simp: s'(2) o split: if_splits)
  ultimately show ?thesis by (simp add: ctx_inv_def Let_def)
qed

text \<open>The deferred calls: the context is canceled and the entry of the ID removed.\<close>

lemma worker_cleanup_opens:
  assumes "worker_cleanup k s = Some s'"
  obtains w where "k < length (x_workers s)" "w = x_workers s ! k" "wk_phase w = W_settled"
    "x_env s' = cancel_ctx (wk_ctx w) (x_env s)"
    "x_cancelations s' = (x_cancelations s)(ID (wk_msg w) := None)"
    "mset (opens s) = add_mset (ID (wk_msg w), wk_ctx w) (mset (opens s'))"
    "worker_ctxs s' = worker_ctxs s"
    "x_workers s' = (x_workers s)[k := w\<lparr>wk_phase := W_unregistered\<rparr>]"
proof -
  obtain w where w: "k < length (x_workers s)" "w = x_workers s ! k" "wk_phase w = W_settled"
    using assms unfolding worker_cleanup_def by (elim at_phaseE)
  let ?w = "w\<lparr>wk_phase := W_unregistered\<rparr>"
  have s': "s' = put_worker k ?w (s\<lparr>x_env := cancel_ctx (wk_ctx w) (x_env s),
      x_cancelations := (x_cancelations s)(ID (wk_msg w) := None)\<rparr>)"
    using assms w by (auto simp: worker_cleanup_def at_phase_def Cancelations_Delete_def)
  have o: "mset (opens s) = add_mset (ID (wk_msg w), wk_ctx w) (mset (opens s'))"
    using filter_drop_update [of k "x_workers s" open_worker ?w "\<lambda>w. (ID (wk_msg w), wk_ctx w)"] w s'
    by (simp add: opens_def open_worker_def)
  have c: "worker_ctxs s' = worker_ctxs s" using w s' by (simp add: worker_ctxs_def filter_map_update)
  show thesis by (rule that [OF w _ _ o c]) (simp_all add: s')
qed

lemma worker_cleanup_ctx_inv:
  assumes "worker_cleanup k s = Some s'" and "ctx_inv s"
  shows "ctx_inv s'"
proof -
  let ?ctx = "p_ctx (x_env s)"
  obtain w where w: "k < length (x_workers s)" "w = x_workers s ! k" "wk_phase w = W_settled"
    and s': "x_env s' = cancel_ctx (wk_ctx w) (x_env s)"
      "x_cancelations s' = (x_cancelations s)(ID (wk_msg w) := None)"
      "mset (opens s) = add_mset (ID (wk_msg w), wk_ctx w) (mset (opens s'))"
      "worker_ctxs s' = worker_ctxs s"
      "x_workers s' = (x_workers s)[k := w\<lparr>wk_phase := W_unregistered\<rparr>]"
    using worker_cleanup_opens [OF assms(1)] by metis
  have o: "set (opens s) = insert (ID (wk_msg w), wk_ctx w) (set (opens s'))"
    by (metis s'(3) set_mset_add_mset_insert set_mset_mset)
  have ages: "ctx_ages ?ctx (p_ctx (x_env s'))" by (simp add: s'(1))
  have lt: "wk_ctx w < length ?ctx" using ctx_inv_D(1) [OF assms(2) w(1)] w by (simp add: ctx_worker_ok_def)
  have can: "snd (p_ctx (x_env s') ! wk_ctx w)" using lt by (simp add: s'(1) cancel_ctx_def)
  have "ctx_worker_ok (p_ctx (x_env s')) v" if "v \<in> set (x_workers s')" for v
  proof -
    have "ctx_worker_ok (p_ctx (x_env s')) (w\<lparr>wk_phase := W_unregistered\<rparr>)"
      using w ctx_inv_D(1) [OF assms(2) w(1)] can lt by (simp add: ctx_worker_ok_def s'(1) cancel_ctx_def)
    then show ?thesis
      using that s'(5) set_update_subset_insert assms(2) ctx_worker_ok_ages [OF _ ages]
      by (fastforce simp: ctx_inv_def Let_def)
  qed
  moreover have "c \<in> snd ` set (opens s')"
    if "c < length (p_ctx (x_env s'))" "\<not> snd (p_ctx (x_env s') ! c)" for c
  proof -
    have "c \<in> snd ` set (opens s)"
      using ctx_inv_D(3) [OF assms(2)] that ctx_agesD(2) [OF ages] ctx_agesD(3) [OF ages] by blast
    then show ?thesis using o that(2) can by auto
  qed
  moreover have "(i, c) \<in> set (opens s')" if "x_cancelations s' i = Some c" for i c
    using that ctx_inv_D(4) [OF assms(2), of i c] by (auto simp: s'(2) o split: if_splits)
  ultimately show ?thesis using s'(4) ctx_inv_D(2) [OF assms(2)] by (simp add: ctx_inv_def Let_def)
qed

lemma exec_dequeue_quiet:
  assumes "exec_dequeue p shuffle clk now started s = Some s'"
  shows "quiet_step s s'"
proof -
  obtain r b where d: "Dequeue (pr_broker p) clk 0 (queues shuffle (pr_queueConfig p) (pr_orderedQueues p))
      (p_broker (x_env s)) = (r, b)" by fastforce
  have "p_ctx (x_env s') = p_ctx (x_env s) \<and> x_cancelations s' = x_cancelations s
    \<and> opens s' = opens s \<and> worker_ctxs s' = worker_ctxs s
    \<and> (\<forall>v \<in> set (x_workers s'). v \<in> set (x_workers s) \<or> wk_phase v = W_new \<and> wk_handler v = H_none)"
    using assms d
    by (auto simp: exec_dequeue_def Let_def opens_def worker_ctxs_def open_worker_def split: if_splits sum.splits)
  then show ?thesis by (auto simp: quiet_step_def ctx_worker_ok_def)
qed

lemma worker_settle_quiet:
  assumes "worker_settle p k ev now t0 tr t1 s = Some s'"
  shows "quiet_step s s'"
proof -
  let ?w = "x_workers s ! k"
  let ?settle = "settle_task (pr_unpack p) (pr_broker p) (pr_retryDelayFunc p) (pr_isFailureFunc p)
      t0 tr t1 (wk_lease ?w) (wk_msg ?w) ev"
  let ?env = "if ev = Lease_expired then cancel_ctx (wk_ctx ?w) (x_env s) else x_env s"
  have k: "k < length (x_workers s)" "event_ready now ?w s ev"
    and s': "s' = put_worker k (?w\<lparr>wk_phase := W_settled\<rparr>) (s\<lparr>x_env := ?settle ?env\<rparr>)"
    using assms by (simp_all add: worker_settle_def Let_def split: if_splits)
  have ph: "wk_phase ?w = W_ready \<or> wk_phase ?w = W_waiting" using k(2) by (cases ev) auto
  have "ctx_ages (p_ctx (x_env s)) (p_ctx ?env)" by simp
  then have "ctx_ages (p_ctx (x_env s)) (p_ctx (?settle ?env))" by (rule ctx_ages_trans [OF _ ctx_ages_settle])
  then show ?thesis
    unfolding s' using ph by (intro quiet_worker [OF k(1) refl]) (auto simp: ctx_worker_ok_def open_worker_def)
qed

lemma cancel_message_ages: "ctx_ages (p_ctx (x_env s)) (p_ctx (x_env (cancel_message tid s)))"
  by (simp add: cancel_message_def subscriber_message_def split: option.split)

lemma exec_step_quiet:
  assumes "exec_step p ev s = Some s'"
    and "case ev of X_begin _ _ _ \<Rightarrow> False | X_cleanup _ \<Rightarrow> False | _ \<Rightarrow> True"
  shows "quiet_step s s'"
proof (cases ev)
  case X_acquire
  then show ?thesis using assms(1) by (intro quiet_env) (auto simp: exec_acquire_def split: if_splits)
next
  case (X_dequeue shuffle clk now started)
  then show ?thesis using assms(1) exec_dequeue_quiet by auto
next
  case X_wake
  then show ?thesis using assms(1) by (intro quiet_env) (auto simp: exec_wake_def split: if_splits)
next
  case (X_start k now)
  then show ?thesis
    using assms(1)
    by (auto simp: worker_start_def at_phase_def open_worker_def ctx_worker_ok_def split: if_splits
        intro!: quiet_worker [OF _ refl])
next
  case (X_settle k e now t0 tr t1)
  then show ?thesis using assms(1) worker_settle_quiet by auto
next
  case (X_end k)
  then show ?thesis
    using assms(1)
    by (auto simp: worker_end_def at_phase_def open_worker_def ctx_worker_ok_def split: if_splits
        intro!: quiet_worker [OF _ refl])
next
  case (X_returns k handler caller)
  then show ?thesis
    using assms(1)
    by (auto simp: handler_returns_def at_handler_def open_worker_def ctx_worker_ok_def split: if_splits
        intro!: quiet_worker [OF _ refl])
next
  case (X_writes k now cause data)
  then show ?thesis
    using assms(1) by (intro quiet_env) (auto simp: handler_writes_def at_handler_def split: if_splits option.splits)
next
  case X_stop
  then show ?thesis using assms(1) by (intro quiet_env) (auto simp: processor_stop_def)
next
  case X_done
  then show ?thesis using assms(1) by (intro quiet_env) (auto simp: loop_done_def split: if_splits)
next
  case X_abort
  then show ?thesis using assms(1) by (intro quiet_env) (auto simp: shutdown_abort_def split: if_splits)
next
  case X_take
  then show ?thesis using assms(1) by (intro quiet_env) (auto simp: shutdown_take_def split: if_splits)
next
  case (X_reset k now t)
  then show ?thesis
    using assms(1)
    by (auto simp: lease_change_def Let_def open_worker_def ctx_worker_ok_def split: if_splits
        intro!: quiet_worker [OF _ refl])
next
  case (X_notify k now)
  then show ?thesis
    using assms(1)
    by (auto simp: lease_change_def Let_def open_worker_def ctx_worker_ok_def split: if_splits
        intro!: quiet_worker [OF _ refl])
next
  case (X_cancel tid)
  then have "s' = cancel_message tid s" using assms(1) by simp
  then show ?thesis using cancel_message_ages [of s tid] by (intro quiet_env) (simp_all add: cancel_message_def)
qed (use assms(2) in simp_all)

lemma exec_step_ctx_inv:
  assumes "exec_step p ev s = Some s'" and "ctx_inv s"
  shows "ctx_inv s'"
proof (cases "case ev of X_begin _ _ _ \<Rightarrow> False | X_cleanup _ \<Rightarrow> False | _ \<Rightarrow> True")
  case True
  then show ?thesis by (rule ctx_inv_quiet [OF assms(2) exec_step_quiet [OF assms(1)]])
next
  case False
  then show ?thesis using assms worker_begin_ctx_inv worker_cleanup_ctx_inv by (cases ev) auto
qed

lemma ctx_inv_init: "ctx_inv (exec_init b)"
  by (simp add: ctx_inv_def exec_init_def worker_ctxs_def NewCancelations_def)

lemma exec_run_ctx_inv: "exec_run p evs s = Some s' \<Longrightarrow> ctx_inv s \<Longrightarrow> ctx_inv s'"
  by (induction evs arbitrary: s) (auto split: option.splits dest: exec_step_ctx_inv)

lemma exec_run_ctx_reach: "exec_run p evs (exec_init b) = Some s \<Longrightarrow> ctx_inv s"
  using exec_run_ctx_inv ctx_inv_init by blast

subsection \<open>Which worker a cancelation reaches\<close>

text \<open>The tasks with an ID some worker has in hand.\<close>

definition task_msgs :: "string \<Rightarrow> 's processor_state \<Rightarrow> TaskMessage list" where
  "task_msgs i s = map wk_msg (filter (\<lambda>w. working w \<and> ID (wk_msg w) = i) (x_workers s))"

lemma task_msgs_working: "task_msgs i s = filter (\<lambda>m. ID m = i) (working_msgs s)"
  by (simp add: task_msgs_def working_msgs_def filter_map comp_def conj_commute)

definition task_alone :: "string \<Rightarrow> 's processor_state \<Rightarrow> bool" where
  "task_alone i s \<longleftrightarrow> length (task_msgs i s) \<le> 1"

text \<open>In every state of the run at most one worker has the task ID.\<close>

fun alone_run :: "'s processor \<Rightarrow> string \<Rightarrow> exec_event list \<Rightarrow> 's processor_state \<Rightarrow> bool" where
  "alone_run p i [] s = task_alone i s"
| "alone_run p i (ev # evs) s =
     (task_alone i s \<and> (case exec_step p ev s of None \<Rightarrow> True | Some s' \<Rightarrow> alone_run p i evs s'))"

definition registered :: "string \<Rightarrow> 's processor_state \<Rightarrow> bool" where
  "registered i s \<longleftrightarrow> (\<forall>c. (i, c) \<in> set (opens s) \<longrightarrow> x_cancelations s i = Some c)"

lemma alone_opens:
  assumes "task_alone i s"
  shows "size (filter_mset (\<lambda>x. fst x = i) (mset (opens s))) \<le> 1"
proof -
  have l: "length (filter (\<lambda>x. fst x = i) (map (\<lambda>w. (ID (wk_msg w), wk_ctx w)) (filter open_worker ws)))
      \<le> length (filter (\<lambda>w. working w \<and> ID (wk_msg w) = i) ws)" for ws
    by (induction ws) (auto simp: working_def open_worker_def)
  have "length (filter (\<lambda>x. fst x = i) (opens s)) \<le> 1"
    using order_trans [OF l] assms unfolding opens_def task_alone_def task_msgs_def length_map .
  then show ?thesis by (simp flip: mset_filter)
qed

lemma alone_no_other:
  assumes "task_alone i s" and "mset (opens s) = add_mset (i, c) (mset xs)"
  shows "(i, c') \<notin> set xs"
proof
  assume "(i, c') \<in> set xs"
  then have "(i, c') \<in># filter_mset (\<lambda>x. fst x = i) (mset xs)" by simp
  then have "filter_mset (\<lambda>x. fst x = i) (mset xs) \<noteq> {#}" by (metis empty_iff set_mset_empty)
  then have "0 < size (filter_mset (\<lambda>x. fst x = i) (mset xs))" by (simp only: nonempty_has_size)
  moreover have "size (filter_mset (\<lambda>x. fst x = i) (mset (opens s)))
      = Suc (size (filter_mset (\<lambda>x. fst x = i) (mset xs)))" by (simp only: assms(2)) simp
  ultimately show False using alone_opens [OF assms(1)] by linarith
qed

lemma registered_step:
  assumes "exec_step p ev s = Some s'" and "task_alone i s" "task_alone i s'" and "registered i s"
  shows "registered i s'"
proof (cases "case ev of X_begin _ _ _ \<Rightarrow> False | X_cleanup _ \<Rightarrow> False | _ \<Rightarrow> True")
  case True
  then show ?thesis
    using exec_step_quiet [OF assms(1) True] assms(4) by (simp add: registered_def quiet_step_def)
next
  case False
  then consider (registers) k base baseErr where "ev = X_begin k base baseErr" | (removes) k where "ev = X_cleanup k"
    by (auto split: exec_event.splits)
  then show ?thesis
  proof cases
    case registers
    then have "worker_begin k base baseErr s = Some s'" using assms(1) by simp
    then obtain i0 where s': "x_cancelations s' = (x_cancelations s)(i0 \<mapsto> length (p_ctx (x_env s)))"
      "mset (opens s') = add_mset (i0, length (p_ctx (x_env s))) (mset (opens s))"
      by (elim worker_begin_opens) blast
    have o: "set (opens s') = insert (i0, length (p_ctx (x_env s))) (set (opens s))"
      by (metis s'(2) set_mset_add_mset_insert set_mset_mset)
    show ?thesis
      using assms(4) alone_no_other [OF assms(3)] s' o by (auto simp: registered_def)
  next
    case removes
    then have "worker_cleanup k s = Some s'" using assms(1) by simp
    then obtain i0 c0 where s': "x_cancelations s' = (x_cancelations s)(i0 := None)"
      "mset (opens s) = add_mset (i0, c0) (mset (opens s'))"
      by (elim worker_cleanup_opens) blast
    have o: "set (opens s) = insert (i0, c0) (set (opens s'))"
      by (metis s'(2) set_mset_add_mset_insert set_mset_mset)
    show ?thesis
      using assms(4) alone_no_other [OF assms(2)] s' o by (auto simp: registered_def)
  qed
qed

lemma alone_run_alone: "alone_run p i evs s \<Longrightarrow> task_alone i s"
  by (cases evs) simp_all

lemma alone_run_end: "exec_run p evs s = Some s' \<Longrightarrow> alone_run p i evs s \<Longrightarrow> task_alone i s'"
  by (induction evs arbitrary: s) (auto split: option.splits)

lemma registered_run:
  "exec_run p evs s = Some s' \<Longrightarrow> alone_run p i evs s \<Longrightarrow> registered i s \<Longrightarrow> registered i s'"
proof (induction evs arbitrary: s)
  case (Cons ev evs)
  then obtain t where t: "exec_step p ev s = Some t" "exec_run p evs t = Some s'" by (auto split: option.splits)
  then have "task_alone i s" "alone_run p i evs t" using Cons.prems(2) by auto
  then show ?case using registered_step [OF t(1)] alone_run_alone t Cons by blast
qed simp

lemma registered_init: "registered i (exec_init b)"
  by (simp add: registered_def opens_def exec_init_def)

lemma cancel_message_unknown: "x_cancelations s i = None \<Longrightarrow> cancel_message i s = s"
  by (simp add: cancel_message_def subscriber_message_def Cancelations_Get_def)

lemma cancel_message_known:
  "x_cancelations s i = Some c \<Longrightarrow> cancel_message i s = s\<lparr>x_env := cancel_ctx c (x_env s)\<rparr>"
  by (simp add: cancel_message_def subscriber_message_def Cancelations_Get_def)

text \<open>
  The table is keyed by the task ID alone: when a worker ends, the cancel function of another
  worker with the same ID, whose task is in another queue, is removed with its own.
\<close>

lemma cleanup_forgets_id:
  assumes "exec_step p (X_cleanup k) s = Some s'"
  shows "cancel_message (ID (wk_msg (x_workers s ! k))) s' = s'"
proof -
  have "worker_cleanup k s = Some s'" using assms by simp
  then show ?thesis by (rule worker_cleanup_opens) (simp add: cancel_message_unknown)
qed

subsection \<open>What the heartbeater is told\<close>

lemma running_task_append: "running_task (xs @ ys) i m = running_task ys i (running_task xs i m)"
  by (induction xs i m rule: running_task.induct) simp_all

definition from_processor :: "hb_event \<Rightarrow> bool" where
  "from_processor ev \<longleftrightarrow> (case ev of HB_starting _ \<Rightarrow> True | HB_finished _ \<Rightarrow> True | _ \<Rightarrow> False)"

lemma running_task_filter: "running_task (filter from_processor evs) i m = running_task evs i m"
  by (induction evs i m rule: running_task.induct) (simp_all add: from_processor_def)

definition told :: "string \<Rightarrow> 's processor_state \<Rightarrow> bool" where
  "told i s \<longleftrightarrow> running_task (x_sent s) i None = (case task_msgs i s of [] \<Rightarrow> None | m # _ \<Rightarrow> Some m)"

lemma told_dequeue:
  assumes "exec_dequeue p shuffle clk now started s = Some s'" and "task_alone i s'" and "told i s"
  shows "told i s'"
proof -
  obtain r b where d: "Dequeue (pr_broker p) clk 0 (queues shuffle (pr_queueConfig p) (pr_orderedQueues p))
      (p_broker (x_env s)) = (r, b)" by fastforce
  show ?thesis
  proof (cases r)
    case (Inl e)
    then have "x_sent s' = x_sent s" "task_msgs i s' = task_msgs i s"
      using assms(1) d by (auto simp: exec_dequeue_def Let_def task_msgs_def split: if_splits)
    then show ?thesis using assms(3) by (simp add: told_def)
  next
    case (Inr me)
    obtain msg e where me: "me = (msg, e)" by fastforce
    obtain w where "x_sent s' = x_sent s @ [HB_starting w]" "w_msg w = msg"
      "task_msgs i s' = task_msgs i s @ (if ID msg = i then [msg] else [])"
      using assms(1) d Inr me by (auto simp: exec_dequeue_def Let_def task_msgs_def working_def split: if_splits)
    then show ?thesis
      using assms(2,3) by (cases "task_msgs i s") (auto simp: told_def task_alone_def running_task_append split: if_splits)
  qed
qed

lemma told_end:
  assumes "worker_end k s = Some s'" and "task_alone i s" and "told i s"
  shows "told i s'"
proof -
  let ?P = "\<lambda>w. working w \<and> ID (wk_msg w) = i"
  obtain w where w: "k < length (x_workers s)" "w = x_workers s ! k" "wk_phase w = W_unregistered"
    using assms(1) unfolding worker_end_def by (elim at_phaseE)
  let ?w = "w\<lparr>wk_phase := W_ended\<rparr>"
  have s': "x_sent s' = x_sent s @ [HB_finished (wk_msg w)]" "x_workers s' = (x_workers s)[k := ?w]"
    using assms(1) w by (auto simp: worker_end_def at_phase_def)
  have "running_task (x_sent s') i None = (if ID (wk_msg w) = i then None else running_task (x_sent s) i None)"
    by (simp add: s'(1) running_task_append)
  moreover have "task_msgs i s' = (if ID (wk_msg w) = i then [] else task_msgs i s)"
  proof (cases "ID (wk_msg w) = i")
    case True
    have "size (mset (task_msgs i s)) = Suc (size (mset (task_msgs i s')))"
      using filter_drop_update [of k "x_workers s" ?P ?w wk_msg] w True
      unfolding task_msgs_def s'(2) by (simp add: working_def)
    then show ?thesis using assms(2) True by (simp add: task_alone_def)
  next
    case False
    then show ?thesis
      using w filter_map_update [of k "x_workers s" ?P ?w wk_msg] unfolding task_msgs_def s'(2)
      by (simp add: working_def)
  qed
  ultimately show ?thesis using assms(3) by (simp add: told_def)
qed

lemma told_step:
  assumes "exec_step p ev s = Some s'" and "task_alone i s" "task_alone i s'" and "told i s"
  shows "told i s'"
proof (cases "case ev of X_acquire \<Rightarrow> False | X_dequeue _ _ _ _ \<Rightarrow> False | X_wake \<Rightarrow> False | X_end _ \<Rightarrow> False
      | X_stop \<Rightarrow> False | X_done \<Rightarrow> False | X_take \<Rightarrow> False | _ \<Rightarrow> True")
  case True
  then show ?thesis
    using exec_step_same_dispatch [OF assms(1) True] assms(4)
    by (simp add: told_def task_msgs_working same_dispatch_def)
next
  case False
  then show ?thesis
  proof (cases ev)
    case (X_dequeue shuffle clk now started)
    then show ?thesis using assms told_dequeue by auto
  next
    case (X_end k)
    then show ?thesis using assms told_end by auto
  qed (use assms(1,4) in \<open>auto simp: told_def task_msgs_def exec_acquire_def exec_wake_def processor_stop_def
      loop_done_def shutdown_take_def split: if_splits\<close>)
qed

lemma told_run: "exec_run p evs s = Some s' \<Longrightarrow> alone_run p i evs s \<Longrightarrow> told i s \<Longrightarrow> told i s'"
proof (induction evs arbitrary: s)
  case (Cons ev evs)
  then obtain t where t: "exec_step p ev s = Some t" "exec_run p evs t = Some s'" by (auto split: option.splits)
  then have "task_alone i s" "alone_run p i evs t" using Cons.prems(2) by auto
  then show ?case using told_step [OF t(1)] alone_run_alone t Cons by blast
qed simp

lemma told_init: "told i (exec_init b)"
  by (simp add: told_def task_msgs_def exec_init_def)

subsection \<open>Draining the workers\<close>

fun phase_rank :: "worker_phase \<Rightarrow> nat" where
  "phase_rank W_new = 5"
| "phase_rank W_ready = 4"
| "phase_rank W_waiting = 3"
| "phase_rank W_settled = 2"
| "phase_rank W_unregistered = 1"
| "phase_rank W_ended = 0"

text \<open>Steps that need neither a handler, nor the heartbeater, nor the subscriber.\<close>

definition own_event :: "exec_event \<Rightarrow> bool" where
  "own_event ev \<longleftrightarrow> (case ev of X_returns _ _ _ \<Rightarrow> False | X_writes _ _ _ _ \<Rightarrow> False | X_reset _ _ _ \<Rightarrow> False
     | X_notify _ _ \<Rightarrow> False | X_cancel _ \<Rightarrow> False | _ \<Rightarrow> True)"

definition work_left :: "'s processor_state \<Rightarrow> nat" where
  "work_left s = sum_list (map (\<lambda>w. phase_rank (wk_phase w)) (x_workers s))"

lemma work_left_update:
  assumes "k < length (x_workers s)" and "x_workers s' = (x_workers s)[k := w]"
    and "phase_rank (wk_phase w) < phase_rank (wk_phase (x_workers s ! k))"
  shows "work_left s' < work_left s"
proof -
  let ?xs = "map (\<lambda>w. phase_rank (wk_phase w)) (x_workers s)" and ?r = "phase_rank (wk_phase w)"
  have k: "k < length ?xs" "?r < ?xs ! k" using assms(1,3) by simp_all
  have "sum_list (?xs[k := ?r]) < sum_list ?xs"
    using k elem_le_sum_list [OF k(1)] by (simp add: sum_list_update)
  then show ?thesis using assms(2) by (simp add: work_left_def map_update)
qed

text \<open>Once the processor aborts, every worker that has not ended can go on, whatever its handler does.\<close>

lemma worker_progress:
  assumes "k < length (x_workers s)" and "working (x_workers s ! k)" and "x_abort s"
  shows "\<exists>ev s'. own_event ev \<and> exec_step p ev s = Some s' \<and> work_left s' < work_left s
    \<and> x_mode s' = x_mode s \<and> x_abort s' \<and> x_shutdown s' = x_shutdown s
    \<and> length (x_workers s') = length (x_workers s)"
proof -
  let ?w = "x_workers s ! k" and ?bg = "\<lparr>ctx_metadata = None, ctx_deadline = None\<rparr>"
  have go: ?thesis
    if "own_event ev" "exec_step p ev s = Some (put_worker k w t)" "x_workers t = x_workers s"
      "phase_rank (wk_phase w) < phase_rank (wk_phase ?w)"
      "x_mode t = x_mode s" "x_abort t" "x_shutdown t = x_shutdown s" for ev w t
    using that work_left_update [of k s "put_worker k w t" w] assms(1)
    by (intro exI [of _ ev] exI [of _ "put_worker k w t"]) simp
  show ?thesis
  proof (cases "wk_phase ?w")
    case W_new
    obtain c env where n: "new_ctx (the (ctx_deadline (context_New ?bg (wk_msg ?w) (wk_deadline ?w)))) (x_env s) = (c, env)"
      by fastforce
    let ?t = "s\<lparr>x_env := env, x_cancelations := Cancelations_Add (ID (wk_msg ?w)) c (x_cancelations s)\<rparr>"
    show ?thesis
      using assms W_new n
      by (intro go [of "X_begin k ?bg (\<lambda>_. None)" "?w\<lparr>wk_phase := W_ready, wk_ctx := c, wk_baseErr := \<lambda>_. None\<rparr>" ?t])
        (simp_all add: own_event_def worker_begin_def at_phase_def)
  next
    case W_ready
    show ?thesis
    proof (cases "ctx_errs 0 ?w (x_env s)")
      case Nil
      then show ?thesis
        using assms W_ready
        by (intro go [of "X_start k 0" "?w\<lparr>wk_phase := W_waiting, wk_handler := H_running\<rparr>" s])
          (simp_all add: own_event_def worker_start_def at_phase_def)
    next
      case (Cons e es)
      let ?t = "s\<lparr>x_env := settle_task (pr_unpack p) (pr_broker p) (pr_retryDelayFunc p) (pr_isFailureFunc p)
          0 0 0 (wk_lease ?w) (wk_msg ?w) (Already_done e) (x_env s)\<rparr>"
      show ?thesis
        using assms W_ready Cons by (intro go [of "X_settle k (Already_done e) 0 0 0 0" "?w\<lparr>wk_phase := W_settled\<rparr>" ?t])
          (simp_all add: own_event_def worker_settle_def Let_def)
    qed
  next
    case W_waiting
    let ?t = "s\<lparr>x_env := settle_task (pr_unpack p) (pr_broker p) (pr_retryDelayFunc p) (pr_isFailureFunc p)
          0 0 0 (wk_lease ?w) (wk_msg ?w) Aborted (x_env s)\<rparr>"
    show ?thesis
      using assms W_waiting by (intro go [of "X_settle k Aborted 0 0 0 0" "?w\<lparr>wk_phase := W_settled\<rparr>" ?t])
        (simp_all add: own_event_def worker_settle_def Let_def)
  next
    case W_settled
    let ?t = "s\<lparr>x_env := cancel_ctx (wk_ctx ?w) (x_env s),
        x_cancelations := Cancelations_Delete (ID (wk_msg ?w)) (x_cancelations s)\<rparr>"
    show ?thesis
      using assms W_settled by (intro go [of "X_cleanup k" "?w\<lparr>wk_phase := W_unregistered\<rparr>" ?t])
        (simp_all add: own_event_def worker_cleanup_def at_phase_def)
  next
    case W_unregistered
    let ?t = "s\<lparr>x_sent := x_sent s @ [HB_finished (wk_msg ?w)], x_tokens := x_tokens s - 1\<rparr>"
    show ?thesis
      using assms W_unregistered by (intro go [of "X_end k" "?w\<lparr>wk_phase := W_ended\<rparr>" ?t])
        (simp_all add: own_event_def worker_end_def at_phase_def)
  next
    case W_ended
    then show ?thesis using assms(2) by (simp add: working_def)
  qed
qed

lemma workers_drain:
  "x_abort s \<Longrightarrow> \<exists>evs s'. list_all own_event evs \<and> exec_run p evs s = Some s' \<and> filter working (x_workers s') = []
     \<and> x_mode s' = x_mode s \<and> x_shutdown s' = x_shutdown s \<and> length (x_workers s') = length (x_workers s)"
proof (induction "work_left s" arbitrary: s rule: less_induct)
  case less
  show ?case
  proof (cases "filter working (x_workers s) = []")
    case True
    then show ?thesis by (intro exI [of _ "[]"] exI [of _ s]) simp
  next
    case False
    then obtain k where "k < length (x_workers s)" "working (x_workers s ! k)"
      by (metis filter_False in_set_conv_nth)
    then obtain ev t where t: "own_event ev" "exec_step p ev s = Some t" "work_left t < work_left s"
        "x_mode t = x_mode s" "x_abort t" "x_shutdown t = x_shutdown s" "length (x_workers t) = length (x_workers s)"
      using worker_progress less.prems by blast
    from less.hyps [OF t(3,5)] obtain evs s' where "list_all own_event evs" "exec_run p evs t = Some s'"
        "filter working (x_workers s') = []" "x_mode s' = x_mode t" "x_shutdown s' = x_shutdown t"
        "length (x_workers s') = length (x_workers t)" by blast
    then show ?thesis using t by (intro exI [of _ "ev # evs"] exI [of _ s']) simp
  qed
qed

lemma tokens_taken:
  assumes "x_mode s = L_stopped" and "x_tokens s = x_shutdown s" and "x_shutdown s \<le> pr_sema p"
  shows "\<exists>s'. exec_run p (replicate (pr_sema p - x_shutdown s) X_take) s = Some s' \<and> x_shutdown s' = pr_sema p
    \<and> x_workers s' = x_workers s"
  using assms
proof (induction "pr_sema p - x_shutdown s" arbitrary: s)
  case (Suc n)
  let ?t = "s\<lparr>x_tokens := Suc (x_tokens s), x_shutdown := Suc (x_shutdown s)\<rparr>"
  have n: "n = pr_sema p - x_shutdown ?t" using Suc.hyps(2) by simp
  have "\<exists>s'. exec_run p (replicate n X_take) ?t = Some s' \<and> x_shutdown s' = pr_sema p
      \<and> x_workers s' = x_workers ?t"
    using Suc.hyps(1) [OF n, unfolded n [symmetric]] Suc.prems Suc.hyps(2) by simp
  moreover have "exec_step p X_take s = Some ?t" using Suc.prems Suc.hyps(2) by (simp add: shutdown_take_def)
  ultimately show ?case by (simp flip: Suc.hyps(2))
qed simp

text \<open>Once told to stop, the loop gets to its end.\<close>

lemma token_released:
  assumes "x_mode s = L_token"
  shows "\<exists>ev t. own_event ev \<and> exec_step p ev s = Some t \<and> (x_mode t = L_idle \<or> x_mode t = L_sleeping)
    \<and> x_quit t = x_quit s"
proof -
  obtain r b where d: "Dequeue (pr_broker p) (\<lambda>_. 0) 0 (queues (\<lambda>x. x) (pr_queueConfig p) (pr_orderedQueues p))
      (p_broker (x_env s)) = (r, b)" by fastforce
  show ?thesis
    using assms d by (intro exI [of _ "X_dequeue (\<lambda>x. x) (\<lambda>_. 0) 0 0"], cases r)
      (auto simp: own_event_def exec_dequeue_def Let_def)
qed

lemma processor_loop_stops:
  assumes "x_quit s"
  shows "\<exists>evs s'. list_all own_event evs \<and> exec_run p evs s = Some s' \<and> x_mode s' = L_stopped
    \<and> (x_mode s = L_stopped \<longrightarrow> s' = s)"
proof -
  have idle: "\<exists>evs s'. list_all own_event evs \<and> exec_run p evs s = Some s' \<and> x_mode s' = L_stopped"
    if "x_mode s = L_idle" "x_quit s" for s :: "'a processor_state"
    using that by (intro exI [of _ "[X_done]"]) (simp add: own_event_def loop_done_def)
  have cons: "\<exists>evs s'. list_all own_event evs \<and> exec_run p evs s = Some s' \<and> x_mode s' = L_stopped"
    if "own_event ev" and "exec_step p ev s = Some t"
      and "\<exists>evs s'. list_all own_event evs \<and> exec_run p evs t = Some s' \<and> x_mode s' = L_stopped"
    for ev and s t :: "'a processor_state"
  proof -
    from that(3) obtain evs s' where "list_all own_event evs" "exec_run p evs t = Some s'" "x_mode s' = L_stopped"
      by blast
    then show ?thesis using that by (intro exI [of _ "ev # evs"] exI [of _ s']) simp
  qed
  have sleeping: "\<exists>evs s'. list_all own_event evs \<and> exec_run p evs s = Some s' \<and> x_mode s' = L_stopped"
    if "x_mode s = L_sleeping" "x_quit s" for s :: "'a processor_state"
    using that by (intro cons [of X_wake s "s\<lparr>x_mode := L_idle, x_tokens := x_tokens s - 1\<rparr>", OF _ _ idle])
      (simp_all add: own_event_def exec_wake_def)
  show ?thesis
  proof (cases "x_mode s")
    case L_idle
    then show ?thesis using idle assms by force
  next
    case L_token
    then obtain ev t where "own_event ev" "exec_step p ev s = Some t" "x_mode t = L_idle \<or> x_mode t = L_sleeping" "x_quit t"
      using token_released assms by metis
    then show ?thesis using cons idle sleeping L_token by (metis loop_mode.distinct(10))
  next
    case L_sleeping
    then show ?thesis using sleeping assms by force
  next
    case L_stopped
    then show ?thesis by (intro exI [of _ "[]"] exI [of _ s]) simp
  qed
qed

end
