(* ===== verification/Outcome.thy ===== *)
theory Outcome
  imports Cancels
begin

text \<open>
  What a worker of \<open>processor.go\<close> is to do with its task, as one operation of the abstract queue
  per way its \<open>select\<close> can end, and that the worker does it: through the methods of the
  processor, under the lease, over any Redis client.
\<close>

subsection \<open>The specification\<close>

text \<open>\<open>u\<close> is the part of the uniqueness key after the prefix of the queue.\<close>

definition done_op :: "string \<Rightarrow> int \<Rightarrow> TaskMessage \<Rightarrow> qop" where
  "done_op u now msg =
     (if msg_UniqueKey msg = [] then Op_done (ID msg) now (unix (now + statsTTL))
      else Op_done_unique u (ID msg) now (unix (now + statsTTL)))"

definition complete_op :: "int \<Rightarrow> TaskMessage \<Rightarrow> qop" where
  "complete_op now msg =
     Op_complete (ID msg) now (unix (now + statsTTL)) (wrap64 (unix now + Retention msg)) (encode (msg\<lparr>CompletedAt := unix now\<rparr>))"

definition retry_op :: "int \<Rightarrow> int \<Rightarrow> string \<Rightarrow> bool \<Rightarrow> TaskMessage \<Rightarrow> qop" where
  "retry_op now at errMsg isFailure msg =
     Op_retry (ID msg) (encode (retry_message now errMsg isFailure msg)) now (unix at) (unix (now + statsTTL)) isFailure"

definition archive_op :: "int \<Rightarrow> string \<Rightarrow> TaskMessage \<Rightarrow> qop" where
  "archive_op now errMsg msg =
     Op_archive (ID msg) (encode (archive_message now errMsg msg)) now (unix now) (unix (archive_cutoff now))
       maxArchiveSize (unix (now + statsTTL))"

definition failure_op :: "(int \<Rightarrow> gerror \<Rightarrow> Task \<Rightarrow> int) \<Rightarrow> (gerror \<Rightarrow> bool) \<Rightarrow> int \<Rightarrow> int \<Rightarrow> TaskMessage \<Rightarrow> gerror \<Rightarrow> qop" where
  "failure_op delay isFailure tr now msg err =
     (if Retry msg \<le> Retried msg \<or> Is err SkipRetry then archive_op now (Error err) msg
      else retry_op now (tr + delay (Retried msg) err (NewTask (Type msg) (Payload msg) [])) (Error err)
             (isFailure err) msg)"

definition outcome_op ::
  "string \<Rightarrow> (int \<Rightarrow> gerror \<Rightarrow> Task \<Rightarrow> int) \<Rightarrow> (gerror \<Rightarrow> bool) \<Rightarrow> int \<Rightarrow> int \<Rightarrow> TaskMessage \<Rightarrow> worker_event \<Rightarrow> qop" where
  "outcome_op u delay isFailure tr now msg ev =
     (case ev of
        Handler_returned None \<Rightarrow> if 0 < Retention msg then complete_op now msg else done_op u now msg
      | Handler_returned (Some e) \<Rightarrow> failure_op delay isFailure tr now msg e
      | Already_done e \<Rightarrow> failure_op delay isFailure tr now msg e
      | Context_ended e \<Rightarrow> failure_op delay isFailure tr now msg e
      | Lease_expired \<Rightarrow> failure_op delay isFailure tr now msg (Sentinel ErrLeaseExpired)
      | Aborted \<Rightarrow> Op_requeue (ID msg))"

lemma outcome_settles: "settles (outcome_op u delay isFailure tr now msg ev) = Some (ID msg)"
  by (simp add: outcome_op_def failure_op_def done_op_def complete_op_def retry_op_def archive_op_def
      split: worker_event.split option.split)

subsection \<open>The methods under the lease\<close>

fun sync_msg :: "sync_fn \<Rightarrow> TaskMessage" where
  "sync_msg (Sync_MarkAsComplete msg) = msg"
| "sync_msg (Sync_Done msg) = msg"
| "sync_msg (Sync_Retry msg _ _ _) = msg"
| "sync_msg (Sync_Archive msg _) = msg"

fun sync_op :: "string \<Rightarrow> int \<Rightarrow> sync_fn \<Rightarrow> qop" where
  "sync_op u now (Sync_MarkAsComplete msg) = complete_op now msg"
| "sync_op u now (Sync_Done msg) = done_op u now msg"
| "sync_op u now (Sync_Retry msg at errMsg isFailure) = retry_op now at errMsg isFailure msg"
| "sync_op u now (Sync_Archive msg errMsg) = archive_op now errMsg msg"

text \<open>The task is active in the queue \<open>st\<close> Redis holds, and its operation can be carried out.\<close>

definition can_settle :: "nat \<Rightarrow> string \<Rightarrow> TaskMessage \<Rightarrow> qop \<Rightarrow> keyspace \<Rightarrow> queue_state \<Rightarrow> bool" where
  "can_settle um u msg op db st \<longleftrightarrow> qrep (Queue msg) db st \<and> qinv st \<and> counters_ok st
     \<and> ID msg \<in> set (q_active st) \<and> trim_fits um op st
     \<and> (msg_UniqueKey msg = [] \<or> msg_UniqueKey msg = kname (Queue msg) (KUnique u))"

context redis_client
begin

abbreviation broker_db :: "'s proc_env \<Rightarrow> keyspace" where
  "broker_db env \<equiv> db_of (conn (p_broker env))"

lemma can_settle_call:
  assumes "can_settle um u msg op (db_of (conn r)) st" and "settles op = Some (ID msg)"
    and "runScript send ctx name (qop_prog um (Queue msg) op) r = (res, r')"
  shows "settled (Queue msg) (db_of (conn r')) res (ID msg) st (snd (qop_effect (Queue msg) op st))"
  using settle_call [OF assms(2) _ _ _ _ assms(3)] assms(1) by (auto simp: can_settle_def settled_def)

lemma Done_call:
  assumes "can_settle um u msg op db st"
  shows "Done send ctx now msg r = runScript send ctx ''rdb.Done'' (qop_prog um (Queue msg) (done_op u now msg)) r"
proof (cases "msg_UniqueKey msg = []")
  case True
  then show ?thesis using Done_plain [OF True, where um = um] by (simp add: done_op_def)
next
  case False
  then have "msg_UniqueKey msg = kname (Queue msg) (KUnique u)" using assms by (simp add: can_settle_def)
  then show ?thesis using Done_unique [where um = um] False by (simp add: done_op_def)
qed

end

text \<open>The one call that carries out \<open>op\<close>, under a context that ends at \<open>d\<close>.\<close>

definition settlement_call ::
  "nat \<Rightarrow> 's client \<Rightarrow> string \<Rightarrow> qop \<Rightarrow> bool \<Rightarrow> 's rdb \<Rightarrow> gerror option \<Rightarrow> 's rdb \<Rightarrow> bool" where
  "settlement_call um send q op ctx r res r' \<longleftrightarrow> (\<exists>name. runScript send ctx name (qop_prog um q op) r = (res, r'))"

context redis_client
begin

lemma settlement_call_settled:
  assumes "can_settle um u msg op (db_of (conn r)) st" and "settles op = Some (ID msg)"
    and "settlement_call um send (Queue msg) op ctx r res r'"
  shows "settled (Queue msg) (db_of (conn r')) res (ID msg) st (snd (qop_effect (Queue msg) op st))"
  using can_settle_call [OF assms(1,2)] assms(3) by (auto simp: settlement_call_def)

lemma sync_op_settles: "settles (sync_op u now fn) = Some (ID (sync_msg fn))"
  by (cases fn) (simp_all add: complete_op_def done_op_def retry_op_def archive_op_def)

lemma run_sync_fn_call:
  assumes "can_settle um u (sync_msg fn) (sync_op u now fn) db st"
    and "run_sync_fn um send now c fn env = (e, env')"
  shows "settlement_call um send (Queue (sync_msg fn)) (sync_op u now fn) (ctx_done now c env) (p_broker env) e (p_broker env')
    \<and> p_sync env' = p_sync env"
proof -
  have "p_sync env' = p_sync env" using run_sync_fn_simps(2) [of um send now c fn env] assms(2) by simp
  moreover have "settlement_call um send (Queue (sync_msg fn)) (sync_op u now fn) (ctx_done now c env) (p_broker env) e (p_broker env')"
  proof (cases fn)
    case (Sync_MarkAsComplete msg)
    then show ?thesis
      using assms(2) by (auto simp: settlement_call_def run_sync_fn_def MarkAsComplete_qop [where um = um]
          complete_op_def Let_def split: prod.splits)
  next
    case (Sync_Done msg)
    have "can_settle um u msg (done_op u now msg) db st" using assms(1) Sync_Done by simp
    from Done_call [OF this] show ?thesis
      using assms(2) Sync_Done by (auto simp: settlement_call_def run_sync_fn_def Let_def split: prod.splits)
  next
    case (Sync_Retry msg at errMsg isFailure)
    then show ?thesis
      using assms(2) by (auto simp: settlement_call_def run_sync_fn_def Retry_qop [where um = um]
          retry_op_def Let_def split: prod.splits)
  next
    case (Sync_Archive msg errMsg)
    then show ?thesis
      using assms(2) by (auto simp: settlement_call_def run_sync_fn_def Archive_qop archive_op_def Let_def
          split: prod.splits)
  qed
  ultimately show ?thesis by simp
qed

text \<open>
  The settlement is one call, and when it has failed a request for the same call has gone to the
  syncer; for a task that is given back there is no such request.
\<close>

lemma new_ctx_done: "new_ctx d env = (c, env1) \<Longrightarrow> ctx_done t c env1 = (d \<le> t)"
  by (auto simp: new_ctx_def ctx_done_def)

lemma with_lease_ctx_settled:
  assumes "IsValid t0 l" and "can_settle um u (sync_msg fn) (sync_op u t1 fn) (broker_db env) st"
    and "env' = with_lease_ctx um send t0 t1 l fn errMsg env"
  shows "\<exists>res. settlement_call um send (Queue (sync_msg fn)) (sync_op u t1 fn) (Lease_Deadline l \<le> t1) (p_broker env) res (p_broker env')
    \<and> (if res = None then p_sync env' = p_sync env
       else \<exists>req. p_sync env' = p_sync env @ [req] \<and> sr_fn req = fn)"
proof -
  obtain c env1 where n: "new_ctx (Lease_Deadline l) env = (c, env1)" by fastforce
  then have e1: "p_broker env1 = p_broker env" "p_sync env1 = p_sync env" by (auto simp: new_ctx_def)
  obtain e env2 where r: "run_sync_fn um send t1 c fn env1 = (e, env2)" by fastforce
  note call = run_sync_fn_call [OF assms(2) r, unfolded e1 new_ctx_done [OF n]]
  show ?thesis
    by (rule exI [of _ e], use call assms(1,3) n r in
      \<open>cases e; simp add: with_lease_ctx_def cancel_ctx_def\<close>)
qed

lemma processor_requeue_settled:
  assumes "IsValid t0 l" and "env' = processor_requeue send t0 t1 l msg env"
  shows "\<exists>res. settlement_call um send (Queue msg) (Op_requeue (ID msg)) (Lease_Deadline l \<le> t1) (p_broker env) res (p_broker env')
    \<and> p_sync env' = p_sync env"
proof -
  obtain c env1 where n: "new_ctx (Lease_Deadline l) env = (c, env1)" by fastforce
  then have e1: "p_broker env1 = p_broker env" "p_sync env1 = p_sync env" by (auto simp: new_ctx_def)
  obtain e b where r: "Requeue send (ctx_done t1 c env1) msg (p_broker env1) = (e, b)" by fastforce
  have "settlement_call um send (Queue msg) (Op_requeue (ID msg)) (Lease_Deadline l \<le> t1) (p_broker env) e b"
    using r unfolding settlement_call_def e1 new_ctx_done [OF n] Requeue_qop [where um = um] by blast
  then show ?thesis
    using assms n r e1 by (auto simp: processor_requeue_def cancel_ctx_def)
qed

lemma settle_task_settled:
  assumes "IsValid t0 l" and "op = outcome_op u delay isFailure tr t1 msg ev"
    and "can_settle um u msg op (broker_db env) st"
    and "env' = settle_task um send delay isFailure t0 tr t1 l msg ev env"
  shows "\<exists>res. settlement_call um send (Queue msg) op (Lease_Deadline l \<le> t1) (p_broker env) res (p_broker env')
    \<and> (if res = None \<or> ev = Aborted then p_sync env' = p_sync env
       else \<exists>req. p_sync env' = p_sync env @ [req] \<and> sync_op u t1 (sr_fn req) = op)"
proof -
  have lease: ?thesis
    if "env' = with_lease_ctx um send t0 t1 l fn errMsg env" "sync_msg fn = msg" "sync_op u t1 fn = op" "ev \<noteq> Aborted"
    for fn errMsg
    using with_lease_ctx_settled [OF assms(1) _ that(1), of u st] that(2-4) assms(3) by (auto split: if_splits)
  have failure: ?thesis
    if "op = failure_op delay isFailure tr t1 msg e"
      "env' = handleFailedMessage um send delay isFailure t0 tr t1 l msg e env" "ev \<noteq> Aborted" for e
  proof (cases "Retry msg \<le> Retried msg \<or> Is e SkipRetry")
    case True
    then show ?thesis
      using that by (intro lease [of "Sync_Archive msg (Error e)"])
        (auto simp: handleFailedMessage_def processor_archive_def failure_op_def)
  next
    case False
    then show ?thesis
      using that by (intro lease [of "Sync_Retry msg
          (tr + delay (Retried msg) e (NewTask (Type msg) (Payload msg) [])) (Error e) (isFailure e)"])
        (auto simp: handleFailedMessage_def processor_retry_def failure_op_def Let_def)
  qed
  show ?thesis
  proof (cases ev)
    case Aborted
    then show ?thesis
      using processor_requeue_settled [OF assms(1), of env' t1 msg env um] assms(2,4)
      by (simp add: outcome_op_def settle_task_def)
  next
    case (Handler_returned r)
    show ?thesis
    proof (cases r)
      case None
      show ?thesis
      proof (cases "0 < Retention msg")
        case True
        show ?thesis
          by (rule lease [of "Sync_MarkAsComplete msg"], use assms(2,4) None True Handler_returned in
            \<open>simp_all add: outcome_op_def settle_task_def handleSucceededMessage_def markAsComplete_def\<close>)
      next
        case False
        show ?thesis
          by (rule lease [of "Sync_Done msg"], use assms(2,4) None False Handler_returned in
            \<open>simp_all add: outcome_op_def settle_task_def handleSucceededMessage_def markAsDone_def\<close>)
      qed
    next
      case (Some e)
      then show ?thesis
        using assms(2,4) Handler_returned by (intro failure [of e]) (simp_all add: outcome_op_def settle_task_def)
    qed
  next
    case (Already_done e)
    then show ?thesis using assms(2,4) by (intro failure [of e]) (simp_all add: outcome_op_def settle_task_def)
  next
    case Lease_expired
    then show ?thesis
      using assms(2,4) by (intro failure [of "Sentinel ErrLeaseExpired"]) (simp_all add: outcome_op_def settle_task_def)
  next
    case (Context_ended e)
    then show ?thesis using assms(2,4) by (intro failure [of e]) (simp_all add: outcome_op_def settle_task_def)
  qed
qed

end

end
