(* ===== verification/PoolProps.thy ===== *)
theory PoolProps
  imports Outcome BrokerProps ServerProps
begin

text \<open>
  The properties of the processor's goroutines: the bound on what runs at once, the end of the
  shutdown, and the worker a cancelation reaches. They hold for every interleaving of the loop,
  the workers, their handlers, the heartbeater, the subscriber and the shutdown.
\<close>

subsection \<open>A run for the witnesses\<close>

definition demo_processor :: "net processor" where
  "demo_processor =
     \<lparr>pr_unpack = 100, pr_broker = net_send, pr_queueConfig = [(''default'', 1)], pr_orderedQueues = None,
      pr_retryDelayFunc = (\<lambda>_ _ _. 0), pr_isFailureFunc = (\<lambda>_. True), pr_sema = 1\<rparr>"

definition demo_background :: task_context where
  "demo_background = \<lparr>ctx_metadata = None, ctx_deadline = None\<rparr>"

definition demo_events :: "exec_event list" where
  "demo_events =
     [X_acquire, X_dequeue (\<lambda>x. x) (\<lambda>_. 5) 5 5, X_begin 0 demo_background (\<lambda>_. None), X_start 0 5]"

definition demo_worker :: worker where
  "demo_worker = \<lparr>wk_msg = demo_msg, wk_lease = NewLease (5 + LeaseDuration), wk_deadline = computeDeadline 5 demo_msg,
     wk_phase = W_waiting, wk_ctx = 0, wk_baseErr = (\<lambda>_. None), wk_handler = H_running\<rparr>"

text \<open>The task is taken, its handler runs.\<close>

lemma demo_exec:
  "\<exists>r' d. 5 < d \<and> exec_run demo_processor demo_events (exec_init (demo_conn demo_pending)) = Some
     \<lparr>x_mode = L_idle, x_tokens = 1, x_workers = [demo_worker], x_quit = False, x_abort = False, x_shutdown = 0,
      x_cancelations = [''t1'' \<mapsto> 0],
      x_sent = [HB_starting \<lparr>w_msg = demo_msg, w_started = 5, w_deadline = computeDeadline 5 demo_msg,
        w_lease = NewLease (5 + LeaseDuration)\<rparr>],
      x_env = \<lparr>p_broker = r', p_ctx = [(d, False)], p_sync = []\<rparr>\<rparr>
   \<and> alone_run demo_processor ''t1'' demo_events (exec_init (demo_conn demo_pending))"
proof -
  obtain r' where r: "Dequeue net_send (\<lambda>_. 5) 0 [''default''] (demo_conn demo_pending)
      = (Inr (demo_msg, 5 + LeaseDuration), r')"
    using demo_dequeue by blast
  have d: "5 < computeDeadline 5 demo_msg" by code_simp
  show ?thesis
    using d
    by (intro exI [of _ r'] exI [of _ "computeDeadline 5 demo_msg"])
      (simp add: demo_events_def demo_processor_def exec_init_def exec_acquire_def exec_dequeue_def queues_def r
        worker_begin_def worker_start_def at_phase_def new_ctx_def ctx_errs_def put_worker_def Let_def
        context_New_def WithDeadline_def demo_background_def NewCancelations_def Cancelations_Add_def
        demo_worker_def task_alone_def task_msgs_def del: Dequeue.simps)
qed

subsection \<open>What a worker does with its task\<close>

text \<open>
  C25. A worker whose lease has run out sends nothing to Redis and nothing to the syncer.
  Otherwise, whatever ends its wait, it makes exactly one call, for the operation the outcome
  demands: done, or kept as completed when the task has a retention, after a success; to be
  retried, or archived when the retries are used up or the handler asks for it, after a
  failure, a canceled context or a lost lease; given back at an abort. The task is settled
  once, whatever the Redis client repeats, and when the call reports success it has been.
  When the call fails it may or may not have happened; then a request for the same operation
  goes to the syncer, except for a task given back, where the failure is only logged.
\<close>

theorem worker_settles_task:
  assumes "redis_client (pr_broker p) db_of" and "worker_settle p k ev now t0 tr t1 s = Some s'"
    and "w = x_workers s ! k" and "msg = wk_msg w"
    and "op = outcome_op u (pr_retryDelayFunc p) (pr_isFailureFunc p) tr t1 msg ev"
    and "can_settle (pr_unpack p) u msg op (db_of (conn (p_broker (x_env s)))) st"
    and "st1 = snd (qop_effect (Queue msg) op st)"
  shows "(if IsValid t0 (wk_lease w)
      then \<exists>name res. runScript (pr_broker p) (Lease_Deadline (wk_lease w) \<le> t1) name
            (qop_prog (pr_unpack p) (Queue msg) op) (p_broker (x_env s)) = (res, p_broker (x_env s'))
        \<and> settled (Queue msg) (db_of (conn (p_broker (x_env s')))) res (ID msg) st st1
        \<and> (if res = None \<or> ev = Aborted then p_sync (x_env s') = p_sync (x_env s)
           else \<exists>req. p_sync (x_env s') = p_sync (x_env s) @ [req] \<and> sync_op u t1 (sr_fn req) = op)
      else p_broker (x_env s') = p_broker (x_env s) \<and> p_sync (x_env s') = p_sync (x_env s))
    \<and> ID msg \<notin> set (q_active st1) \<and> wk_phase (x_workers s' ! k) = W_settled"
proof -
  let ?env = "if ev = Lease_expired then cancel_ctx (wk_ctx w) (x_env s) else x_env s"
  have k: "k < length (x_workers s)" and env': "x_env s' = settle_task (pr_unpack p) (pr_broker p)
      (pr_retryDelayFunc p) (pr_isFailureFunc p) t0 tr t1 (wk_lease w) msg ev ?env"
    and ph: "wk_phase (x_workers s' ! k) = W_settled"
    using assms(2-4) by (auto simp: worker_settle_def Let_def split: if_splits)
  have e: "p_broker ?env = p_broker (x_env s)" "p_sync ?env = p_sync (x_env s)" by (simp_all add: cancel_ctx_def)
  have c: "can_settle (pr_unpack p) u msg op (db_of (conn (p_broker ?env))) st" using assms(6) e by simp
  have "ID msg \<in> set (q_active st)" using assms(6) by (simp add: can_settle_def)
  then have a: "ID msg \<notin> set (q_active st1)"
    using settled_not_active(2) [OF outcome_settles] assms(5,7) by simp
  show ?thesis
  proof (cases "IsValid t0 (wk_lease w)")
    case False
    have "p_broker (x_env s') = p_broker (x_env s) \<and> p_sync (x_env s') = p_sync (x_env s)"
      unfolding env' settle_task_expired [OF False] by (rule conjI [OF e])
    then show ?thesis using False a ph by simp
  next
    case True
    from redis_client.settle_task_settled [OF assms(1) True assms(5) c env', unfolded e]
    obtain res where r: "settlement_call (pr_unpack p) (pr_broker p) (Queue msg) op (Lease_Deadline (wk_lease w) \<le> t1)
        (p_broker (x_env s)) res (p_broker (x_env s'))"
      and sync: "if res = None \<or> ev = Aborted then p_sync (x_env s') = p_sync (x_env s)
        else \<exists>req. p_sync (x_env s') = p_sync (x_env s) @ [req] \<and> sync_op u t1 (sr_fn req) = op" by blast
    have "settles op = Some (ID msg)" using outcome_settles assms(5) by simp
    from redis_client.settlement_call_settled [OF assms(1) assms(6) this r]
    have "settled (Queue msg) (db_of (conn (p_broker (x_env s')))) res (ID msg) st st1" using assms(7) by simp
    with r sync show ?thesis unfolding settlement_call_def if_P [OF True] using a ph by blast
  qed
qed

theorem worker_settles_task_witness:
  "\<exists>s' st1. worker_settle demo_processor 0 (Handler_returned None) 6 6 6 6
       ((exec_init (demo_conn demo_active))\<lparr>x_workers := [demo_worker\<lparr>wk_handler := H_returned None\<rparr>]\<rparr>) = Some s'
     \<and> (qrep ''default'' (server (conn (p_broker (x_env s')))) st1 \<or> p_sync (x_env s') \<noteq> []) \<and> ''t1'' \<notin> set (q_active st1)"
proof -
  let ?s = "(exec_init (demo_conn demo_active))\<lparr>x_workers := [demo_worker\<lparr>wk_handler := H_returned None\<rparr>]\<rparr>"
  obtain s' where s': "worker_settle demo_processor 0 (Handler_returned None) 6 6 6 6 ?s = Some s'"
    by (simp add: worker_settle_def demo_worker_def Let_def)
  have r: "redis_client (pr_broker demo_processor) server" using demo_send by (simp add: demo_processor_def)
  have m: "demo_msg = wk_msg (x_workers ?s ! 0)" "IsValid 6 (wk_lease (x_workers ?s ! 0))"
    by (simp_all add: demo_worker_def IsValid_def NewLease_def LeaseDuration_def second_ns_def)
  let ?op = "outcome_op [] (pr_retryDelayFunc demo_processor) (pr_isFailureFunc demo_processor) 6 6 demo_msg (Handler_returned None)"
  have "can_settle (pr_unpack demo_processor) [] demo_msg ?op (server (conn (p_broker (x_env ?s)))) (demo_effect demo_active)"
    using demo_active_rep demo_counters_ok [of demo_active] demo_active_task
    by (simp add: can_settle_def outcome_op_def done_op_def exec_init_def)
  from worker_settles_task [OF r s' refl m(1) refl this refl] m(2) show ?thesis
    using s' by (auto simp: exec_init_def settled_def split: if_splits)
qed

subsection \<open>What runs at once\<close>

lemma length_filter_mono:
  "(\<And>x. x \<in> set xs \<Longrightarrow> P x \<Longrightarrow> Q x) \<Longrightarrow> length (filter P xs) \<le> length (filter Q xs)"
  by (induction xs) (auto intro: le_SucI)

text \<open>
  C27. In every interleaving at most as many workers run as the concurrency allows, and at most
  as many handlers whose context is not canceled; a handler that goes on after its worker has
  given up has a canceled context. Once the shutdown holds all tokens, no worker runs, every
  context is canceled and no cancel function is registered.
\<close>

theorem processor_bounded:
  assumes "exec_run p evs (exec_init b) = Some s"
  shows "length (filter working (x_workers s)) \<le> pr_sema p
    \<and> length (filter (\<lambda>w. wk_handler w = H_running \<and> \<not> snd (p_ctx (x_env s) ! wk_ctx w)) (x_workers s)) \<le> pr_sema p
    \<and> (x_shutdown s = pr_sema p \<longrightarrow>
         (\<forall>w \<in> set (x_workers s). wk_phase w = W_ended) \<and> (\<forall>c \<in> set (p_ctx (x_env s)). snd c)
         \<and> x_cancelations s = Map.empty)"
proof -
  obtain d where d: "dispatch_reach (pr_sema p) d" "dispatches s d"
    using exec_run_dispatch [OF assms dispatches_init dispatch_reach.init] by blast
  have "mset (d_running d) = mset (working_ids s)" "d_shutdown d = x_shutdown s"
    using d(2) by (simp_all add: dispatches_def)
  then have l: "length (d_running d) = length (filter working (x_workers s))"
    by (metis length_map size_mset working_ids_def working_msgs_def)
  have inv: "ctx_inv s" by (rule exec_run_ctx_reach [OF assms])
  have ok: "ctx_worker_ok (p_ctx (x_env s)) w" if "w \<in> set (x_workers s)" for w
    using inv that by (simp add: ctx_inv_def Let_def)
  have "length (filter (\<lambda>w. wk_handler w = H_running \<and> \<not> snd (p_ctx (x_env s) ! wk_ctx w)) (x_workers s))
      \<le> length (filter working (x_workers s))"
    using ok by (intro length_filter_mono) (auto simp: ctx_worker_ok_def working_def)
  moreover have "(\<forall>w \<in> set (x_workers s). wk_phase w = W_ended) \<and> (\<forall>c \<in> set (p_ctx (x_env s)). snd c)
      \<and> x_cancelations s = Map.empty" if "x_shutdown s = pr_sema p"
  proof -
    have "filter working (x_workers s) = []"
      using workers_bounded [OF d(1)] l that d(2) by (simp add: dispatches_def)
    then have e: "\<forall>w \<in> set (x_workers s). wk_phase w = W_ended" by (simp add: filter_empty_conv working_def)
    then have o: "opens s = []" by (simp add: opens_def open_worker_def filter_empty_conv)
    have "x_cancelations s i = None" for i
      using ctx_inv_D(4) [OF inv, of i] o by (cases "x_cancelations s i") auto
    moreover have "snd c" if "c \<in> set (p_ctx (x_env s))" for c
      using that ctx_inv_D(3) [OF inv] o by (metis empty_iff image_empty in_set_conv_nth list.set(1))
    ultimately show ?thesis using e by auto
  qed
  ultimately show ?thesis using workers_bounded [OF d(1)] l by auto
qed

theorem processor_bounded_witness:
  "\<exists>s. exec_run demo_processor demo_events (exec_init (demo_conn demo_pending)) = Some s
     \<and> length (filter working (x_workers s)) = 1 \<and> length (filter working (x_workers s)) \<le> pr_sema demo_processor"
proof -
  obtain s where s: "exec_run demo_processor demo_events (exec_init (demo_conn demo_pending)) = Some s"
    "x_workers s = [demo_worker]"
    using demo_exec by fastforce
  show ?thesis using s processor_bounded [OF s(1)] by (intro exI [of _ s]) (simp add: demo_worker_def working_def)
qed

subsection \<open>The end of the shutdown\<close>

text \<open>
  C28. The shutdown cannot get stuck: from every reachable state in which the processor has
  been told to stop, the loop, the workers and the shutdown can go on by themselves until the
  shutdown holds all tokens, without any handler returning: the timer of the shutdown makes the
  workers give up. When the loop has reached its end already, no further task is taken.
\<close>

theorem shutdown_can_complete:
  assumes "exec_run p evs (exec_init b) = Some s" and "x_quit s"
  shows "\<exists>evs' s'. list_all own_event evs' \<and> exec_run p evs' s = Some s' \<and> x_shutdown s' = pr_sema p
    \<and> (x_mode s = L_stopped \<longrightarrow> length (x_workers s') = length (x_workers s))"
proof -
  obtain evs1 s1 where 1: "list_all own_event evs1" "exec_run p evs1 s = Some s1" "x_mode s1 = L_stopped"
      "x_mode s = L_stopped \<longrightarrow> s1 = s"
    using processor_loop_stops [OF assms(2)] by blast
  obtain evs2 s2 where 2: "list_all own_event evs2" "exec_run p evs2 s1 = Some s2" "x_mode s2 = L_stopped"
      "x_abort s2" "x_workers s2 = x_workers s1"
  proof (cases "x_abort s1")
    case True
    then show thesis using that [of "[]" s1] 1(3) by simp
  next
    case False
    then show thesis
      using that [of "[X_abort]" "s1\<lparr>x_abort := True\<rparr>"] 1(3) by (simp add: own_event_def shutdown_abort_def)
  qed
  obtain evs3 s3 where 3: "list_all own_event evs3" "exec_run p evs3 s2 = Some s3" "filter working (x_workers s3) = []"
      "x_mode s3 = L_stopped" "length (x_workers s3) = length (x_workers s2)"
    using workers_drain [OF 2(4)] 2(3) by metis
  have run3: "exec_run p (evs @ evs1 @ evs2 @ evs3) (exec_init b) = Some s3"
    using assms(1) 1(2) 2(2) 3(2) by (simp add: exec_run_append)
  obtain d where d: "dispatch_reach (pr_sema p) d" "dispatches s3 d"
    using exec_run_dispatch [OF run3 dispatches_init dispatch_reach.init] by blast
  have "d_running d = []" using d(2) 3(3) by (simp add: dispatches_def working_ids_def working_msgs_def)
  then have tok: "x_tokens s3 = x_shutdown s3" "x_shutdown s3 \<le> pr_sema p"
    using dispatch_reach_inv [OF d(1)] d(2) 3(4)
    by (auto simp: dispatch_inv_def dispatches_def loop_dispatcher_def)
  obtain s4 where 4: "exec_run p (replicate (pr_sema p - x_shutdown s3) X_take) s3 = Some s4"
      "x_shutdown s4 = pr_sema p" "x_workers s4 = x_workers s3"
    using tokens_taken [OF 3(4) tok] by blast
  have "list_all own_event (replicate n X_take)" for n by (induction n) (simp_all add: own_event_def)
  then show ?thesis
    using 1 2 3 4
    by (intro exI [of _ "evs1 @ evs2 @ evs3 @ replicate (pr_sema p - x_shutdown s3) X_take"] exI [of _ s4])
      (simp add: exec_run_append)
qed

theorem shutdown_can_complete_witness:
  "\<exists>s evs' s'. exec_run demo_processor (demo_events @ [X_stop]) (exec_init (demo_conn demo_pending)) = Some s
     \<and> wk_handler (x_workers s ! 0) = H_running
     \<and> list_all own_event evs' \<and> exec_run demo_processor evs' s = Some s' \<and> x_shutdown s' = 1"
proof -
  obtain s0 where s0: "exec_run demo_processor demo_events (exec_init (demo_conn demo_pending)) = Some s0"
    "x_workers s0 = [demo_worker]"
    using demo_exec by fastforce
  let ?s = "s0\<lparr>x_quit := True\<rparr>"
  have run: "exec_run demo_processor (demo_events @ [X_stop]) (exec_init (demo_conn demo_pending)) = Some ?s"
    using s0(1) by (simp add: exec_run_append processor_stop_def)
  have "pr_sema demo_processor = 1" by (simp add: demo_processor_def)
  then show ?thesis
    using shutdown_can_complete [OF run] run s0(2) by (intro exI [of _ ?s]) (auto simp: demo_worker_def)
qed

subsection \<open>Cancelation\<close>

text \<open>
  C34. A message on the cancelation channel for the ID of a running task cancels the context of
  its worker, which can then give up, and touches no other worker, provided no two workers had
  tasks with that ID at once. A message for any other ID changes nothing.
\<close>

theorem cancelation_reaches_worker:
  assumes "exec_run p evs (exec_init b) = Some s" and "alone_run p i evs (exec_init b)"
    and "k < length (x_workers s)" and "w = x_workers s ! k" and "open_worker w" and "ID (wk_msg w) = i"
  shows "p_ctx (x_env (cancel_message i s)) = (p_ctx (x_env s))[wk_ctx w := (fst (p_ctx (x_env s) ! wk_ctx w), True)]
    \<and> (wk_phase w = W_waiting \<longrightarrow>
         exec_step p (X_settle k (Context_ended (Sentinel Context_Canceled)) now t0 tr t1) (cancel_message i s) \<noteq> None)
    \<and> (\<forall>j < length (x_workers s). j \<noteq> k \<and> wk_phase (x_workers s ! j) \<noteq> W_new \<longrightarrow>
         ctx_errs now (x_workers s ! j) (x_env (cancel_message i s)) = ctx_errs now (x_workers s ! j) (x_env s))
    \<and> (\<forall>i'. (\<forall>v \<in> set (x_workers s). open_worker v \<longrightarrow> ID (wk_msg v) \<noteq> i') \<longrightarrow> cancel_message i' s = s)"
proof -
  let ?ctx = "p_ctx (x_env s)"
  have inv: "ctx_inv s" by (rule exec_run_ctx_reach [OF assms(1)])
  have w: "wk_phase w \<noteq> W_new" using assms(5) by (auto simp: open_worker_def)
  then have lt: "wk_ctx w < length ?ctx" using ctx_inv_D(1) [OF inv assms(3)] assms(4) by (simp add: ctx_worker_ok_def)
  have "(i, wk_ctx w) \<in> set (opens s)"
    using assms(3-6) by (auto simp: opens_def intro!: image_eqI [of _ _ w])
  then have "x_cancelations s i = Some (wk_ctx w)"
    using registered_run [OF assms(1,2) registered_init] by (simp add: registered_def)
  then have m: "cancel_message i s = s\<lparr>x_env := cancel_ctx (wk_ctx w) (x_env s)\<rparr>" by (rule cancel_message_known)
  have c: "Sentinel Context_Canceled \<in> set (ctx_errs now w (x_env (cancel_message i s)))"
    using lt m by (simp add: ctx_errs_def cancel_ctx_def)
  have "ctx_errs now v (x_env (cancel_message i s)) = ctx_errs now v (x_env s)"
    if "v = x_workers s ! j" "j < length (x_workers s)" "j \<noteq> k" "wk_phase v \<noteq> W_new" for j v
  proof -
    have "wk_ctx v \<noteq> wk_ctx w"
      using distinct_filter_nth [OF ctx_inv_D(2) [OF inv, unfolded worker_ctxs_def] that(2) assms(3) that(3)]
        that w assms(4) by simp
    then show ?thesis using m by (simp add: ctx_errs_def cancel_ctx_def)
  qed
  moreover have "cancel_message i' s = s" if "\<forall>v \<in> set (x_workers s). open_worker v \<longrightarrow> ID (wk_msg v) \<noteq> i'" for i'
  proof (rule cancel_message_unknown)
    have "(i', c) \<notin> set (opens s)" for c using that by (auto simp: opens_def)
    then show "x_cancelations s i' = None" using ctx_inv_D(4) [OF inv, of i'] by (cases "x_cancelations s i'") auto
  qed
  moreover have "wk_phase w = W_waiting \<longrightarrow>
      exec_step p (X_settle k (Context_ended (Sentinel Context_Canceled)) now t0 tr t1) (cancel_message i s) \<noteq> None"
    using c m assms(3,4) by (simp add: worker_settle_def Let_def)
  moreover have "p_ctx (x_env (cancel_message i s)) = ?ctx[wk_ctx w := (fst (?ctx ! wk_ctx w), True)]"
    using m by (simp add: cancel_ctx_def)
  ultimately show ?thesis by blast
qed

theorem cancelation_reaches_worker_witness:
  "\<exists>s. exec_run demo_processor demo_events (exec_init (demo_conn demo_pending)) = Some s
     \<and> \<not> snd (p_ctx (x_env s) ! 0) \<and> snd (p_ctx (x_env (cancel_message ''t1'' s)) ! 0)"
proof -
  obtain s d where s: "exec_run demo_processor demo_events (exec_init (demo_conn demo_pending)) = Some s"
    "x_workers s = [demo_worker]" "p_ctx (x_env s) = [(d, False)]"
    "alone_run demo_processor ''t1'' demo_events (exec_init (demo_conn demo_pending))"
    using demo_exec by fastforce
  have "open_worker demo_worker" "ID (wk_msg demo_worker) = ''t1''" "wk_ctx demo_worker = 0"
    by (simp_all add: demo_worker_def open_worker_def)
  then show ?thesis
    using cancelation_reaches_worker [OF s(1,4), of 0 demo_worker] s by (intro exI [of _ s]) simp
qed

subsection \<open>The workers the heartbeater knows\<close>

text \<open>
  C30. When the heartbeater has received what the processor has sent so far, between any ticks of
  its timer, it knows exactly the tasks the workers have in hand: under an ID that no two workers
  had at once it holds the message of the worker that has it, and nothing when none has.
\<close>

theorem heartbeater_knows_workers:
  assumes "exec_run p evs (exec_init b) = Some s" and "alone_run p i evs (exec_init b)"
    and "heartbeater_loop zone send hevs h r = (False, h', r')" and "h_workers h = []"
    and "filter from_processor hevs = x_sent s"
  shows "map_option w_msg (map_of (h_workers h') i) = Some m
    \<longleftrightarrow> (\<exists>w \<in> set (x_workers s). working w \<and> wk_msg w = m \<and> ID m = i)"
proof -
  have "map_option w_msg (map_of (h_workers h') i) = running_task (x_sent s) i None"
    using heartbeater_loop_workers [OF assms(3), of i] running_task_filter [of hevs i None] assms(4,5) by simp
  also have "\<dots> = (case task_msgs i s of [] \<Rightarrow> None | m # _ \<Rightarrow> Some m)"
    using told_run [OF assms(1,2) told_init] by (simp add: told_def)
  finally have k: "map_option w_msg (map_of (h_workers h') i) = (case task_msgs i s of [] \<Rightarrow> None | m # _ \<Rightarrow> Some m)" .
  have "length (task_msgs i s) \<le> 1" using alone_run_end [OF assms(1,2)] by (simp add: task_alone_def)
  then have "map_option w_msg (map_of (h_workers h') i) = Some m \<longleftrightarrow> m \<in> set (task_msgs i s)"
    using k by (cases "task_msgs i s") auto
  also have "m \<in> set (task_msgs i s) \<longleftrightarrow> (\<exists>w \<in> set (x_workers s). working w \<and> wk_msg w = m \<and> ID m = i)"
    by (auto simp: task_msgs_def)
  finally show ?thesis .
qed

definition pool_heartbeater :: heartbeater where
  "pool_heartbeater = \<lparr>h_host = ''h'', h_pid = 1, h_serverID = ''s'', h_concurrency = 1, h_queues = [(''default'', 1)],
     h_strictPriority = False, h_interval = 5 * second_ns, h_started = 0, h_workers = []\<rparr>"

theorem heartbeater_knows_workers_witness:
  "\<exists>s h'. exec_run demo_processor demo_events (exec_init (demo_conn demo_pending)) = Some s
     \<and> heartbeater_loop (\<lambda>_. 0) net_send (x_sent s) pool_heartbeater (demo_conn demo_pending)
       = (False, h', demo_conn demo_pending)
     \<and> map_option w_msg (map_of (h_workers h') ''t1'') = Some demo_msg"
proof -
  obtain s where s: "exec_run demo_processor demo_events (exec_init (demo_conn demo_pending)) = Some s"
    "x_workers s = [demo_worker]" "alone_run demo_processor ''t1'' demo_events (exec_init (demo_conn demo_pending))"
    and "\<exists>w. x_sent s = [HB_starting w]"
    using demo_exec by fastforce
  then obtain w where w: "x_sent s = [HB_starting w]" by blast
  have h: "heartbeater_loop (\<lambda>_. 0) net_send (x_sent s) pool_heartbeater (demo_conn demo_pending)
      = (False, worker_starting w pool_heartbeater, demo_conn demo_pending)" by (simp add: w)
  have "h_workers pool_heartbeater = []" "filter from_processor (x_sent s) = x_sent s"
    by (simp_all add: pool_heartbeater_def w from_processor_def)
  from heartbeater_knows_workers [OF s(1,3) h this, of demo_msg]
  have "map_option w_msg (map_of (h_workers (worker_starting w pool_heartbeater)) ''t1'') = Some demo_msg"
    using s(2) by (simp add: demo_worker_def working_def)
  then show ?thesis using s(1) h by blast
qed

subsection \<open>Two limits of the code\<close>

text \<open>A client that gets the given replies, and a processor with \<open>n\<close> tokens that uses it.\<close>

definition replay :: "string list client" where
  "replay ms ctx p = (case ms of [] \<Rightarrow> (Inr RNil, []) | m # ms' \<Rightarrow> (Inr (RBulk m), ms'))"

definition replay_processor :: "nat \<Rightarrow> string list processor" where
  "replay_processor n =
     \<lparr>pr_unpack = 100, pr_broker = replay, pr_queueConfig = [(''default'', 1)], pr_orderedQueues = None,
      pr_retryDelayFunc = (\<lambda>_ _ _. 0), pr_isFailureFunc = (\<lambda>_. True), pr_sema = n\<rparr>"

lemma replay_dequeue:
  "msg_ok m \<Longrightarrow> Dequeue replay (\<lambda>_. 0) 0 [''default''] \<lparr>conn = encode m # ms, queuesPublished = qs\<rparr>
     = (Inr (m, LeaseDuration), \<lparr>conn = ms, queuesPublished = qs\<rparr>)"
  by (simp add: issue_def replay_def DecodeMessage_encode Let_def)

text \<open>A task is taken and its handler started; a lease is found expired and the worker gives up.\<close>

definition take_events :: "nat \<Rightarrow> exec_event list" where
  "take_events k = [X_acquire, X_dequeue (\<lambda>x. x) (\<lambda>_. 0) 0 0, X_begin k demo_background (\<lambda>_. None), X_start k 0]"

definition lapse_events :: "nat \<Rightarrow> exec_event list" where
  "lapse_events k = (let t = 2 * LeaseDuration in
     [X_notify k t, X_settle k Lease_expired t t t t, X_cleanup k, X_end k])"

definition second_msg :: TaskMessage where
  "second_msg = demo_msg\<lparr>ID := ''t2''\<rparr>"

lemma two_msgs:
  "msg_ok second_msg" "0 < computeDeadline 0 demo_msg" "0 < computeDeadline 0 second_msg"
  by code_simp+

lemmas replay_simps = replay_processor_def exec_init_def exec_acquire_def exec_dequeue_def queues_def
  worker_begin_def worker_start_def worker_settle_def worker_cleanup_def worker_end_def lease_change_def
  at_phase_def new_ctx_def ctx_errs_def put_worker_def Let_def context_New_def WithDeadline_def
  demo_background_def NewCancelations_def Cancelations_Add_def Cancelations_Delete_def
  replay_dequeue demo_msg_ok two_msgs cancel_ctx_def

text \<open>
  A handler that does not heed its context goes on after its worker has given up and returned
  the token: with a concurrency of one, two handlers run.
\<close>

lemma handlers_exceed_concurrency:
  "\<exists>s. exec_run (replay_processor 1) (take_events 0 @ lapse_events 0 @ take_events 1)
       (exec_init \<lparr>conn = [encode demo_msg, encode second_msg], queuesPublished = []\<rparr>) = Some s
     \<and> length (filter (\<lambda>w. wk_handler w = H_running) (x_workers s)) = 2"
proof -
  have l: "\<not> IsValid (2 * LeaseDuration) (NewLease LeaseDuration)"
    "Lease_Done (snd (NotifyExpiration (2 * LeaseDuration) (NewLease LeaseDuration)))"
    "\<not> IsValid (2 * LeaseDuration) (snd (NotifyExpiration (2 * LeaseDuration) (NewLease LeaseDuration)))"
    by code_simp+
  show ?thesis
    by (simp add: take_events_def lapse_events_def replay_simps l settle_task_expired not_le del: Dequeue.simps)
qed

text \<open>
  Two tasks of different queues may have the same ID: when the worker of one of them ends, the
  cancel function of the other is no longer registered, and its task cannot be canceled.
\<close>

lemma same_id_cannot_be_canceled:
  "\<exists>s. exec_run (replay_processor 2) (take_events 0 @ take_events 1 @ lapse_events 1)
       (exec_init \<lparr>conn = [encode demo_msg, encode (demo_msg\<lparr>Queue := ''other''\<rparr>)], queuesPublished = []\<rparr>) = Some s
     \<and> wk_phase (x_workers s ! 0) = W_waiting \<and> ID (wk_msg (x_workers s ! 0)) = ''t1''
     \<and> \<not> snd (p_ctx (x_env s) ! wk_ctx (x_workers s ! 0)) \<and> cancel_message ''t1'' s = s"
proof -
  have l: "\<not> IsValid (2 * LeaseDuration) (NewLease LeaseDuration)"
    "Lease_Done (snd (NotifyExpiration (2 * LeaseDuration) (NewLease LeaseDuration)))"
    "\<not> IsValid (2 * LeaseDuration) (snd (NotifyExpiration (2 * LeaseDuration) (NewLease LeaseDuration)))"
    "msg_ok (demo_msg\<lparr>Queue := ''other''\<rparr>)" "0 < computeDeadline 0 (demo_msg\<lparr>Queue := ''other''\<rparr>)"
    by code_simp+
  show ?thesis
    by (simp add: take_events_def lapse_events_def replay_simps l settle_task_expired not_le cancel_message_unknown
        del: Dequeue.simps)
qed

end
