(* ===== verification/Handlers.thy ===== *)
theory Handlers
  imports Ui ConnOpt
begin

text \<open>
  \<open>ui/handlers.go\<close>: the pages of the dashboard as functions from the request's path and query to
  the response. A template is an argument: a function from the data of a page to the text it
  writes and the error it ends with. \<open>http.Error\<close>, \<open>http.NotFound\<close> and \<open>http.Redirect\<close> are
  written out; the text \<open>Redirect\<close> puts into the body is left empty.
\<close>

record response =
  rs_status :: int
  rs_type :: string
  rs_location :: string
  rs_body :: string

definition newline :: string where
  "newline = [CHR 0x0A]"

definition http_Error :: "string \<Rightarrow> int \<Rightarrow> response" where
  "http_Error msg code =
     \<lparr>rs_status = code, rs_type = ''text/plain; charset=utf-8'', rs_location = [], rs_body = msg @ newline\<rparr>"

definition http_NotFound :: response where
  "http_NotFound = http_Error ''404 page not found'' 404"

definition http_Redirect :: "string \<Rightarrow> int \<Rightarrow> response" where
  "http_Redirect url code =
     \<lparr>rs_status = code, rs_type = ''text/html; charset=utf-8'', rs_location = url, rs_body = []\<rparr>"

text \<open>What the pages are given.\<close>

datatype page_data =
    Dashboard_data DashboardStats "QueueInfo list" "ServerInfo list"
  | Queues_data "QueueInfo list"
  | Tasks_data QueueInfo "ui_task list" string

type_synonym 'd template = "'d \<Rightarrow> string \<times> gerror option"

text \<open>\<open>NewHandler\<close>: \<open>parse page\<close> is the template of \<open>base.html\<close> with that page, or its error.\<close>

fun load_templates ::
  "(string \<Rightarrow> gerror + 'd template) \<Rightarrow> string list \<Rightarrow> gerror + (string \<times> 'd template) list" where
  "load_templates parse [] = Inr []"
| "load_templates parse (page # pages) =
     (case parse page of
        Inl err \<Rightarrow> Inl err
      | Inr tmpl \<Rightarrow>
          (case load_templates parse pages of Inl err \<Rightarrow> Inl err | Inr ts \<Rightarrow> Inr ((page, tmpl) # ts)))"

definition NewHandler :: "(string \<Rightarrow> gerror + 'd template) \<Rightarrow> gerror + (string \<times> 'd template) list" where
  "NewHandler parse = load_templates parse [''dashboard.html'', ''queues.html'', ''tasks.html'']"

text \<open>
  \<open>render\<close>: an error of the template after it has written something comes too late for the
  status and the content type.
\<close>

definition render :: "(string \<times> 'd template) list \<Rightarrow> string \<Rightarrow> 'd \<Rightarrow> response" where
  "render templates name data =
     (case map_of templates name of
        None \<Rightarrow> http_Error (''Template not found: '' @ name) 500
      | Some tmpl \<Rightarrow>
          (case tmpl data of
             (out, None) \<Rightarrow>
               \<lparr>rs_status = 200, rs_type = ''text/html; charset=utf-8'', rs_location = [], rs_body = out\<rparr>
           | (out, Some err) \<Rightarrow>
               if out = [] then http_Error (Error err) 500
               else \<lparr>rs_status = 200, rs_type = ''text/html; charset=utf-8'', rs_location = [],
                     rs_body = out @ Error err @ newline\<rparr>))"

definition handleDashboard where
  "handleDashboard send templates path s =
     (if path \<noteq> ''/'' then (http_NotFound, s)
      else
        (case GetDashboardStats send s of
           (Inl err, s1) \<Rightarrow> (http_Error (Error err) 500, s1)
         | (Inr stats, s1) \<Rightarrow>
             (case GetQueues send s1 of (qs, s2) \<Rightarrow>
              case GetServers send s2 of (servers, s3) \<Rightarrow>
                (render templates ''dashboard.html''
                   (Dashboard_data stats (case qs of Inl _ \<Rightarrow> [] | Inr qs \<Rightarrow> qs)
                      (case servers of Inl _ \<Rightarrow> [] | Inr ss \<Rightarrow> ss)), s3))))"

definition handleQueues where
  "handleQueues send templates s =
     (case GetQueues send s of
        (Inl err, s1) \<Rightarrow> (http_Error (Error err) 500, s1)
      | (Inr qs, s1) \<Rightarrow> (render templates ''queues.html'' (Queues_data qs), s1))"

definition TrimPrefix :: "string \<Rightarrow> string \<Rightarrow> string" where
  "TrimPrefix s p = (if take (length p) s = p then drop (length p) s else s)"

definition handleQueueTasks where
  "handleQueueTasks send templates path query_state s =
     (let qname = hd (str_split (CHR ''/'') (TrimPrefix path ''/queues/'')) in
      if qname = [] then (http_Redirect ''/queues'' 302, s)
      else
        (let state = (if query_state = [] then ''pending'' else query_state) in
         case GetTasks send qname state 100 s of (tasks, s1) \<Rightarrow>
         case getQueueInfo send qname s1 of (queueInfo, s2) \<Rightarrow>
           (render templates ''tasks.html'' (Tasks_data queueInfo tasks state), s2)))"

definition handleAPIStats where
  "handleAPIStats send s =
     (case GetDashboardStats send s of
        (Inl err, s1) \<Rightarrow> (http_Error (Error err) 500, s1)
      | (Inr stats, s1) \<Rightarrow>
          (\<lparr>rs_status = 200, rs_type = ''application/json'', rs_location = [], rs_body = api_stats_body stats\<rparr>, s1))"

text \<open>
  \<open>RegisterRoutes\<close> and the choice \<open>http.ServeMux\<close> makes for a clean path: the longest pattern,
  where one that ends in a slash stands for the paths below it.
\<close>

datatype page = Page_dashboard | Page_queues | Page_tasks | Page_api_stats

definition routes :: "(string \<times> page) list" where
  "routes = [(''/'', Page_dashboard), (''/queues'', Page_queues), (''/queues/'', Page_tasks),
     (''/api/stats'', Page_api_stats)]"

definition pattern_matches :: "string \<Rightarrow> string \<Rightarrow> bool" where
  "pattern_matches pat path \<longleftrightarrow>
     pat = path \<or> (pat \<noteq> [] \<and> last pat = CHR ''/'' \<and> take (length pat) path = pat)"

definition mux_page :: "string \<Rightarrow> page option" where
  "mux_page path =
     (case filter (\<lambda>(pat, _). pattern_matches pat path) routes of
        [] \<Rightarrow> None
      | r # rs \<Rightarrow> Some (snd (foldl (\<lambda>a b. if length (fst a) < length (fst b) then b else a) r rs)))"

definition serve where
  "serve send templates path query_state s =
     (case mux_page path of
        Some Page_dashboard \<Rightarrow> handleDashboard send templates path s
      | Some Page_queues \<Rightarrow> handleQueues send templates s
      | Some Page_tasks \<Rightarrow> handleQueueTasks send templates path query_state s
      | Some Page_api_stats \<Rightarrow> handleAPIStats send s
      | None \<Rightarrow> (http_NotFound, s))"

subsection \<open>Facts\<close>

lemma mux_page_facts:
  "take 1 path = ''/'' \<Longrightarrow>
   mux_page path =
     Some (if path = ''/api/stats'' then Page_api_stats
           else if path = ''/queues'' then Page_queues
           else if take 8 path = ''/queues/'' then Page_tasks else Page_dashboard)"
  by (cases path) (auto simp: mux_page_def routes_def pattern_matches_def eval_nat_numeral)

lemma str_split_nonempty: "str_split sep s \<noteq> []"
  by (induction s) (auto split: list.split)

lemma str_split_hd: "hd (str_split sep s) = takeWhile (\<lambda>c. c \<noteq> sep) s"
  using str_split_nonempty by (induction s) (auto split: list.split)

text \<open>The page of a queue: the queue named up to the first slash.\<close>

lemma queue_page:
  assumes "q \<noteq> []" and "CHR ''/'' \<notin> set q" and "rest = [] \<or> hd rest = CHR ''/''"
  shows "serve send templates (''/queues/'' @ q @ rest) state s =
    (let st = (if state = [] then ''pending'' else state);
         (tasks, s1) = GetTasks send q st 100 s;
         (info, s2) = getQueueInfo send q s1
     in (render templates ''tasks.html'' (Tasks_data info tasks st), s2))"
proof -
  have "mux_page (''/queues/'' @ q @ rest) = Some Page_tasks"
    using assms(1) by (subst mux_page_facts) auto
  moreover have "takeWhile (\<lambda>c. c \<noteq> CHR ''/'') (q @ rest) = q"
    using assms(2,3) by (cases rest) (auto simp: takeWhile_append)
  ultimately show ?thesis
    using assms(1) by (simp add: serve_def handleQueueTasks_def TrimPrefix_def str_split_hd Let_def split_def)
qed

lemma unknown_page:
  "take 1 path = ''/'' \<Longrightarrow> path \<notin> {''/'', ''/queues'', ''/api/stats''} \<Longrightarrow> take 8 path \<noteq> ''/queues/'' \<Longrightarrow>
   serve send templates path state s = (http_NotFound, s)"
  by (simp add: serve_def mux_page_facts handleDashboard_def)

end
