(* ===== verification/Options.thy ===== *)
theory Options
  imports Client Json
begin

text \<open>
  The methods of the task options of \<open>client.go\<close>: \<open>String\<close>, \<open>Type\<close> and \<open>Value\<close> of each, with the
  parts of \<open>fmt\<close>, \<open>strconv\<close> and \<open>time\<close> that \<open>String\<close> prints with. Which runes above ASCII are
  printable is a table of \<open>strconv\<close> and an argument, as are the time zone of a time and its
  abbreviation.
\<close>

subsection \<open>Making options\<close>

text \<open>Beside \<open>MaxRetry\<close>: the constructors that keep their argument as it is.\<close>

definition opt_Queue :: "string \<Rightarrow> Option" where "opt_Queue x = queueOption x"
definition opt_TaskID :: "string \<Rightarrow> Option" where "opt_TaskID x = taskIDOption x"
definition opt_Timeout :: "int \<Rightarrow> Option" where "opt_Timeout x = timeoutOption x"
definition opt_Deadline :: "int \<Rightarrow> Option" where "opt_Deadline x = deadlineOption x"
definition opt_Unique :: "int \<Rightarrow> Option" where "opt_Unique x = uniqueOption x"
definition opt_ProcessAt :: "int \<Rightarrow> Option" where "opt_ProcessAt x = processAtOption x"
definition opt_ProcessIn :: "int \<Rightarrow> Option" where "opt_ProcessIn x = processInOption x"
definition opt_Retention :: "int \<Rightarrow> Option" where "opt_Retention x = retentionOption x"

subsection \<open>Durations, quoted strings, dates\<close>

text \<open>\<open>Duration.String\<close>: the fraction without trailing zeros, the largest units that are not zero.\<close>

definition frac_of :: "nat \<Rightarrow> nat \<Rightarrow> string" where
  "frac_of prec u = (if u mod 10 ^ prec = 0 then [] else CHR ''.'' # frac_digits prec (u mod 10 ^ prec))"

definition Duration_String :: "int \<Rightarrow> string" where
  "Duration_String d =
     (let u = nat \<bar>d\<bar>;
          unit = (\<lambda>prec name. show_nat (u div 10 ^ prec) @ frac_of prec u @ name);
          s = u div 1000000000;
          text =
            (if u = 0 then ''0s''
             else if u < 1000 then unit 0 ''ns''
             else if u < 1000000 then unit 3 [CHR 0xC2, CHR 0xB5, CHR ''s'']
             else if u < 1000000000 then unit 6 ''ms''
             else (if 3600 \<le> s then show_nat (s div 3600) @ ''h'' else [])
                  @ (if 60 \<le> s then show_nat (s div 60 mod 60) @ ''m'' else [])
                  @ show_nat (s mod 60) @ frac_of 9 u @ ''s'')
      in if d < 0 then CHR ''-'' # text else text)"

text \<open>The rune encoded by a valid sequence of two to four bytes.\<close>

definition rune_of :: "string \<Rightarrow> nat" where
  "rune_of u =
     (let low = (\<lambda>c. byte c mod 64) in
      case u of
        [a, b] \<Rightarrow> (byte a mod 32) * 64 + low b
      | [a, b, c] \<Rightarrow> (byte a mod 16) * 4096 + low b * 64 + low c
      | [a, b, c, d] \<Rightarrow> (byte a mod 8) * 262144 + low b * 4096 + low c * 64 + low d
      | _ \<Rightarrow> 0)"

fun hex_pad :: "nat \<Rightarrow> nat \<Rightarrow> string" where
  "hex_pad 0 n = []"
| "hex_pad (Suc k) n = hex_pad k (n div 16) @ [hex_digit (n mod 16)]"

definition quote_ascii :: "char \<Rightarrow> string" where
  "quote_ascii c =
     (let b = byte c in
      if c = quote \<or> c = backslash then [backslash, c]
      else if 32 \<le> b \<and> b < 127 then [c]
      else if b = 7 then [backslash, CHR ''a'']
      else if b = 8 then [backslash, CHR ''b'']
      else if b = 12 then [backslash, CHR ''f'']
      else if b = 10 then [backslash, CHR ''n'']
      else if b = 13 then [backslash, CHR ''r'']
      else if b = 9 then [backslash, CHR ''t'']
      else if b = 11 then [backslash, CHR ''v'']
      else backslash # CHR ''x'' # hex_pad 2 b)"

fun quote_body :: "(nat \<Rightarrow> bool) \<Rightarrow> string \<Rightarrow> string" where
  "quote_body printable [] = []"
| "quote_body printable (c # cs) =
     (if byte c < 128 then quote_ascii c @ quote_body printable cs
      else (let n = utf8_len (c # cs) in
        if n = 0 then backslash # CHR ''x'' # hex_pad 2 (byte c) @ quote_body printable cs
        else (let u = take n (c # cs); r = rune_of u in
          (if printable r then u
           else if r < 0x10000 then backslash # CHR ''u'' # hex_pad 4 r
           else backslash # CHR ''U'' # hex_pad 8 r)
          @ quote_body printable (drop (n - 1) cs))))"

text \<open>\<open>%q\<close>\<close>

definition go_quote :: "(nat \<Rightarrow> bool) \<Rightarrow> string \<Rightarrow> string" where
  "go_quote printable s = quote # quote_body printable s @ [quote]"

definition weekdays :: "string list" where
  "weekdays = [''Sun'', ''Mon'', ''Tue'', ''Wed'', ''Thu'', ''Fri'', ''Sat'']"

definition months :: "string list" where
  "months = [''Jan'', ''Feb'', ''Mar'', ''Apr'', ''May'', ''Jun'', ''Jul'', ''Aug'', ''Sep'', ''Oct'', ''Nov'', ''Dec'']"

text \<open>\<open>t.Format(time.UnixDate)\<close>: \<open>Mon Jan _2 15:04:05 MST 2006\<close>, for years 0 to 9999.\<close>

definition UnixDate :: "zone \<Rightarrow> (int \<Rightarrow> string) \<Rightarrow> int \<Rightarrow> string" where
  "UnixDate zone abbr t =
     (let l = unix t + zone (unix t);
          sod = nat (l mod 86400)
      in case date_of_days (l div 86400) of (y, m, d) \<Rightarrow>
           weekdays ! nat ((l div 86400 + 4) mod 7) @ '' '' @ months ! (m - 1) @ '' ''
           @ (if d < 10 then '' '' else []) @ show_int d @ '' ''
           @ pad 2 (sod div 3600) @ '':'' @ pad 2 (sod div 60 mod 60) @ '':'' @ pad 2 (sod mod 60)
           @ '' '' @ abbr (unix t) @ '' '' @ pad 4 (nat y))"

subsection \<open>The methods\<close>

datatype option_value = VInt int | VString string | VDuration int | VTime int

record option_methods =
  om_String :: string
  om_Type :: OptionType
  om_Value :: option_value

definition retryOption_methods :: "int \<Rightarrow> option_methods" where
  "retryOption_methods n =
     \<lparr>om_String = ''MaxRetry('' @ show_int n @ '')'', om_Type = MaxRetryOpt, om_Value = VInt n\<rparr>"

definition queueOption_methods :: "(nat \<Rightarrow> bool) \<Rightarrow> string \<Rightarrow> option_methods" where
  "queueOption_methods printable name =
     \<lparr>om_String = ''Queue('' @ go_quote printable name @ '')'', om_Type = QueueOpt, om_Value = VString name\<rparr>"

definition taskIDOption_methods :: "(nat \<Rightarrow> bool) \<Rightarrow> string \<Rightarrow> option_methods" where
  "taskIDOption_methods printable tid =
     \<lparr>om_String = ''TaskID('' @ go_quote printable tid @ '')'', om_Type = TaskIDOpt, om_Value = VString tid\<rparr>"

definition timeoutOption_methods :: "int \<Rightarrow> option_methods" where
  "timeoutOption_methods d =
     \<lparr>om_String = ''Timeout('' @ Duration_String d @ '')'', om_Type = TimeoutOpt, om_Value = VDuration d\<rparr>"

definition deadlineOption_methods :: "zone \<Rightarrow> (int \<Rightarrow> string) \<Rightarrow> int \<Rightarrow> option_methods" where
  "deadlineOption_methods zone abbr t =
     \<lparr>om_String = ''Deadline('' @ UnixDate zone abbr t @ '')'', om_Type = DeadlineOpt, om_Value = VTime t\<rparr>"

definition uniqueOption_methods :: "int \<Rightarrow> option_methods" where
  "uniqueOption_methods ttl =
     \<lparr>om_String = ''Unique('' @ Duration_String ttl @ '')'', om_Type = UniqueOpt, om_Value = VDuration ttl\<rparr>"

definition processAtOption_methods :: "zone \<Rightarrow> (int \<Rightarrow> string) \<Rightarrow> int \<Rightarrow> option_methods" where
  "processAtOption_methods zone abbr t =
     \<lparr>om_String = ''ProcessAt('' @ UnixDate zone abbr t @ '')'', om_Type = ProcessAtOpt, om_Value = VTime t\<rparr>"

definition processInOption_methods :: "int \<Rightarrow> option_methods" where
  "processInOption_methods d =
     \<lparr>om_String = ''ProcessIn('' @ Duration_String d @ '')'', om_Type = ProcessInOpt, om_Value = VDuration d\<rparr>"

definition retentionOption_methods :: "int \<Rightarrow> option_methods" where
  "retentionOption_methods ttl =
     \<lparr>om_String = ''Retention('' @ Duration_String ttl @ '')'', om_Type = RetentionOpt, om_Value = VDuration ttl\<rparr>"

text \<open>The interface: the methods of the option's own type.\<close>

fun methods_of :: "(nat \<Rightarrow> bool) \<Rightarrow> zone \<Rightarrow> (int \<Rightarrow> string) \<Rightarrow> Option \<Rightarrow> option_methods option" where
  "methods_of printable zone abbr (retryOption n) = Some (retryOption_methods n)"
| "methods_of printable zone abbr (queueOption s) = Some (queueOption_methods printable s)"
| "methods_of printable zone abbr (taskIDOption s) = Some (taskIDOption_methods printable s)"
| "methods_of printable zone abbr (timeoutOption d) = Some (timeoutOption_methods d)"
| "methods_of printable zone abbr (deadlineOption t) = Some (deadlineOption_methods zone abbr t)"
| "methods_of printable zone abbr (uniqueOption d) = Some (uniqueOption_methods d)"
| "methods_of printable zone abbr (processAtOption t) = Some (processAtOption_methods zone abbr t)"
| "methods_of printable zone abbr (processInOption d) = Some (processInOption_methods d)"
| "methods_of printable zone abbr (retentionOption d) = Some (retentionOption_methods d)"
| "methods_of printable zone abbr otherOption = None"

lemmas methods_defs =
  retryOption_methods_def queueOption_methods_def taskIDOption_methods_def timeoutOption_methods_def
  deadlineOption_methods_def uniqueOption_methods_def processAtOption_methods_def
  processInOption_methods_def retentionOption_methods_def

subsection \<open>Facts\<close>

text \<open>\<open>Value returns a value used to create this option\<close>: with the type it determines the option.\<close>

fun rebuild :: "OptionType \<Rightarrow> option_value \<Rightarrow> Option option" where
  "rebuild MaxRetryOpt (VInt n) = Some (MaxRetry n)"
| "rebuild QueueOpt (VString s) = Some (queueOption s)"
| "rebuild TaskIDOpt (VString s) = Some (taskIDOption s)"
| "rebuild TimeoutOpt (VDuration d) = Some (timeoutOption d)"
| "rebuild DeadlineOpt (VTime t) = Some (deadlineOption t)"
| "rebuild UniqueOpt (VDuration d) = Some (uniqueOption d)"
| "rebuild ProcessAtOpt (VTime t) = Some (processAtOption t)"
| "rebuild ProcessInOpt (VDuration d) = Some (processInOption d)"
| "rebuild RetentionOpt (VDuration d) = Some (retentionOption d)"
| "rebuild _ _ = None"

lemma rebuild_option:
  assumes "methods_of printable zone abbr opt = Some ms" and "\<And>n. opt = retryOption n \<Longrightarrow> 0 \<le> n"
  shows "Option_Type opt = Some (om_Type ms) \<and> rebuild (om_Type ms) (om_Value ms) = Some opt"
  using assms by (cases opt) (auto simp: methods_defs MaxRetry_def)

end
