(* ===== verification/Spec2Isabelle.thy ===== *)
theory Spec2Isabelle
  imports Dashboard Recovery Extension LifeProps BrokerProps DeliveryProps ServerProps PoolProps Client ConnOpt Example Goroutines Handlers Keys Logger
    InfoJson Monitor Options Processor Rdb RdbFacts RedisClient Server Ui Workers
begin

text \<open>
  TitanQueue is a task queue for Go programs on top of Redis. Clients put tasks into named
  queues; servers take them out, run handlers on them, and settle them as done, to be
  retried, archived, or given back; background goroutines move due tasks, extend and check
  leases, and delete results; a dashboard shows what is in Redis. All shared state is in
  Redis, and is changed only through the Lua scripts and single commands of
  \<open>internal/rdb/rdb.go\<close>. This development models that program and proves what its parts
  promise each other.

  \<^bold>\<open>Theories and sources\<close>, in the order they build on each other:

  \<^item> \<open>TQ_Prelude\<close>: shared facts on lists, decimal notation, rounding to doubles.
  \<^item> \<open>Redis\<close>: the documented behaviour of the Redis commands the program sends, on a keyspace
    with expiry; programs of commands and their run. It models no source code.
  \<^item> \<open>Errors\<close>: \<open>internal/errors/errors.go\<close>, error values with their chains, codes and \<open>E\<close>.
  \<^item> \<open>GoTime\<close>: the calendar, and the text of a \<open>time.Time\<close> in JSON, as package \<open>time\<close> has them.
  \<^item> \<open>Base\<close>: \<open>internal/base/base.go\<close>, \<open>internal/context/context.go\<close>,
    \<open>internal/timeutil/timeutil.go\<close>: keys, task states, messages, leases, cancelations, clocks.
  \<^item> \<open>Json\<close>: \<open>EncodeMessage\<close> and \<open>DecodeMessage\<close>, with the part of \<open>encoding/json\<close> they use.
    \<open>InfoJson\<close>: the same for \<open>ServerInfo\<close> and \<open>WorkerInfo\<close>.
  \<^item> \<open>Scripts\<close>: the sixteen Lua scripts of \<open>rdb.go\<close>, one definition each.
  \<^item> \<open>QueueModel\<close>: the abstract queue: six collections, task hashes, locks, leases, counters, one
    operation per script, and the invariant \<open>qinv\<close>.
  \<^item> \<open>Keys\<close>, \<open>Representation\<close>, \<open>Refinement\<close>: \<open>qrep q db st\<close> says that the keys of queue \<open>q\<close> in
    the keyspace \<open>db\<close> hold the abstract queue \<open>st\<close>; every script implements its operation.
  \<^item> \<open>System\<close>: any number of operations in any order and for any queues, with time passing
    (\<open>reach\<close>): every reachable keyspace represents consistent queues, those of a set \<open>B\<close> of queues
    apart, in which trims of the archive may have failed. \<open>script_effect\<close> is the operation of each
    script on the queue, the failing trim included. \<open>LifeCycle\<close>:
    the moves of a task, followed along an execution with a trace; the order of the pending tasks.
  \<^item> \<open>Rdb\<close>: the methods of \<open>RDB\<close>, over a Redis client library that is a parameter.
  \<^item> \<open>RedisClient\<close>: the locale \<open>redis_client\<close>, what the methods rely on: the client library may
    send a command any number of times and may fail after it took effect; an answered
    command was executed at least once, the answer being that of its last execution; with
    a finished context nothing is sent. It is interpreted on \<open>net_send\<close>, a client over one
    server with an arbitrary schedule of lost requests, lost replies and given-up calls.
  \<^item> \<open>RdbFacts\<close>: what the methods achieve over such a client; the loops end.
  \<^item> \<open>Client\<close>: \<open>client.go\<close> and the tasks of \<open>titanqueue.go\<close>: options, \<open>EnqueueContext\<close>.
    \<open>Options\<close>: the methods \<open>String\<close>, \<open>Type\<close> and \<open>Value\<close> of the options.
  \<^item> \<open>ConnOpt\<close>: the connection options and \<open>ParseRedisURI\<close> of \<open>titanqueue.go\<close>.
  \<^item> \<open>Processor\<close>: \<open>processor.go\<close>: queue priorities, deadlines, settling a task under its lease,
    and the discipline of the semaphore as a step relation.
  \<^item> \<open>Workers\<close>: \<open>syncer.go\<close>, \<open>recoverer.go\<close>, \<open>heartbeat.go\<close>, \<open>forwarder.go\<close>, \<open>janitor.go\<close>,
    \<open>subscriber.go\<close>, \<open>healthcheck.go\<close>: one definition per round of each goroutine.
    \<open>Goroutines\<close>: their loops, over the events they select on; the locale \<open>timer_round\<close> says what
    a timer loop needs of its round, for the forwarder, the janitor and the health check.
    \<open>Recovery\<close>: a whole round of the recoverer leaves every task alone whose lease has not expired.
    \<open>Extension\<close>: a whole beat of the heartbeater extends exactly the leases it is to extend.
  \<^item> \<open>Exec\<close>: the goroutines of \<open>processor.go\<close> in full, as steps that can follow each other in any
    order (\<open>exec_step\<close>, \<open>exec_run\<close>): the loop with \<open>exec\<close>, one worker per task with its lease,
    context, cancel function and handler, \<open>stop\<close> and \<open>shutdown\<close>; it refines the dispatcher of
    \<open>Processor\<close>. \<open>Cancels\<close>: which contexts are live and which worker a cancelation reaches, in
    every reachable state (\<open>ctx_inv\<close>), what the heartbeater is told, how the workers drain.
    \<open>Outcome\<close>: the operation of the abstract queue each end of a worker's wait demands
    (\<open>outcome_op\<close>), and that the methods of the processor make exactly the one call for it.
  \<^item> \<open>Logger\<close>: \<open>internal/log/log.go\<close>. \<open>Server\<close>: \<open>server.go\<close> and \<open>signals_unix.go\<close>: the
    configuration, the retry delay, the life cycle. \<open>Components\<close>: the constructors of all
    components and how \<open>NewServerFromRedisClient\<close> joins them by channels and tables.
  \<^item> \<open>Ui\<close>: \<open>ui/inspector.go\<close> and the numbers of \<open>/api/stats\<close>. \<open>Handlers\<close>: \<open>ui/handlers.go\<close>, the
    pages as functions from the request to the response, and their routes. \<open>Monitor\<close>: the
    heartbeat's report and what the dashboard makes of it. \<open>Dashboard\<close>: the counts and the task
    table, exactly, when every read is answered.
  \<^item> \<open>Example\<close>: concrete queues, on which the witnesses of the properties run.
  \<^item> \<open>LifeProps\<close>, \<open>BrokerProps\<close>, \<open>DeliveryProps\<close>, \<open>ServerProps\<close>, \<open>PoolProps\<close> and this theory: the properties
    C1 to C40, each followed by a witness where it has hypotheses.

  \<^bold>\<open>Conventions.\<close> A Go method on shared state takes the state and returns it updated. A call to
  the broker takes the client library's \<open>send\<close>, whether its context is done, and the readings
  of the clock it makes (\<open>clk i\<close> is the \<open>i\<close>-th). Errors are values: \<open>gerror option\<close>, or
  \<open>gerror + 'a\<close>; a panic is \<open>None\<close>. Times and durations are integers in nanoseconds; sums and
  products of Go integers wrap with \<open>wrap64\<close> where the code can overflow. Strings are lists of
  bytes. A Go map is an association list whose order is the order of the iteration. Loops that
  might not end (\<open>forward_loop\<close>, \<open>DeleteExpiredCompletedTasks\<close>) are partial functions, and
  \<open>forwardAll_ends\<close>, \<open>DeleteExpired_ends\<close> and \<open>background_loops_end\<close> show that they return. The JSON
  reader uses the length of its input as fuel, and \<open>parse_object_render\<close> shows that to be enough.

  \<^bold>\<open>Bounds.\<close> The counters in Redis are 64-bit; the reachability result covers \<open>2 ^ 61\<close> operations,
  and \<open>counters_ok\<close> says that a counter can still be incremented. \<open>um\<close> is the number of results
  Lua's \<open>unpack\<close> takes; \<open>trim_fits\<close> says that a trim of the archive stays within it. \<open>scripts_refine_queue\<close>
  says what \<open>archiveCmd\<close> does to the queue in either case and \<open>archive_stops_halfway\<close> spells out the
  failure; after it the queue is no longer consistent, so the results on reachable states
  and executions speak of the queues outside \<open>B\<close>, in which no trim has failed. They are about
  queues whose names hold no closing brace (\<open>good_name\<close>): \<open>ValidateQueueName\<close> accepts other names,
  and \<open>brace_collision\<close> shows that the keys of such queues can coincide.

  \<^bold>\<open>Simplifications.\<close> While a method runs, no other client changes the keyspace: not between the
  commands of one method, and not between the repetitions of one command by the client library
  (\<open>redis_client\<close>). A worker's check of its lease and the call that follows are one step. \<open>AddDate\<close>
  counts days of 24 hours (\<open>archive_cutoff\<close>): a change of the clocks in the local time zone is
  ignored. Sums of a \<open>time.Time\<close> and a duration do not wrap.

  \<^bold>\<open>Parameters\<close>: the Redis client library, MD5, the UUID generator, \<open>net/url\<close>, the shuffle, the random
  part of the retry delay, handlers and callbacks, HTML templates, the local time zone, and which
  runes \<open>strconv\<close> takes as printable.

  \<^bold>\<open>Not modelled\<close>: the delivery of messages on Redis channels (a message that arrives on one
  is an event of the subscriber), timers (how often a round runs), the \<open>main\<close> functions, the
  benchmark and the examples. The channels \<open>starting\<close>, \<open>finished\<close> and \<open>syncRequestCh\<close> take every
  message at once: that their receivers may be slow is not modelled. Calls of the server's methods are
  atomic: \<open>Start\<close> and \<open>Shutdown\<close> running at the same time are not modelled.
\<close>

section \<open>Properties that span components\<close>

text \<open>
  C36. A task message survives the trip through Redis: what \<open>EncodeMessage\<close> writes,
  \<open>DecodeMessage\<close> reads back, and the dashboard's own decoder reads the parts of it that the
  dashboard shows. The numbers of the message are 64-bit and its strings valid UTF-8 (\<open>msg_ok\<close>);
  the payload may be any bytes.
\<close>

theorem message_roundtrip:
  assumes "msg_ok m"
  shows "\<exists>bytes. EncodeMessage (Some m) = Inr bytes \<and> DecodeMessage bytes = Inr m 
    \<and> ui_decode bytes = Some (m\<lparr>Timeout := 0, Deadline := 0, msg_UniqueKey := [], Retention := 0, CompletedAt := 0\<rparr>)"
  using DecodeMessage_encode [OF assms] ui_decode_encode [OF assms] by simp

theorem message_roundtrip_witness:
  "\<exists>bytes. EncodeMessage (Some demo_msg) = Inr bytes \<and> DecodeMessage bytes = Inr demo_msg"
  using message_roundtrip [OF demo_msg_ok] by blast

lemma client_message_simps [simp]:
  "ID (client_message md5hex t opt) = o_taskID opt" "Queue (client_message md5hex t opt) = o_queue opt"
  by (simp_all add: client_message_def)

lemma EnqueueContext_Inr:
  assumes "EnqueueContext md5hex send ctx uuid clk (Some t) os b = (Inr info, b')" and "\<not> isBlank uuid"
  obtains i opt where "composeOptions uuid clk (opts t @ os) = Inr (i, opt)" and "options_ok opt"
    and "info = newTaskInfo (client_message md5hex t opt)
      (if clk i < o_processAt opt then TaskStateScheduled else TaskStatePending)
      (if clk i < o_processAt opt then o_processAt opt else clk i) None"
    and "(if clk i < o_processAt opt
      then Client_schedule send ctx (clk (Suc i)) (client_message md5hex t opt) (o_processAt opt) (o_uniqueTTL opt) b
      else Client_enqueue send ctx (clk (Suc i)) (client_message md5hex t opt) (o_uniqueTTL opt) b) = (None, b')"
proof -
  obtain i opt where c: "composeOptions uuid clk (opts t @ os) = Inr (i, opt)"
    using assms(1) by (auto simp: EnqueueContext_def split: sum.splits if_splits)
  have ok: "options_ok opt"
    using compose_loop_ok [OF default_options_ok [OF assms(2)]] c by (simp add: composeOptions_def)
  show ?thesis
    by (rule that [OF c ok]) (use assms(1) c in
      \<open>auto simp: EnqueueContext_def Let_def split: if_splits prod.splits option.splits\<close>)
qed

text \<open>
  C37. When \<open>EnqueueContext\<close> reports success, the task it was given, with the merged options, is in
  Redis once, whatever the client library repeated: in the scheduled set when its time is
  still to come, in the pending list otherwise; its ID was free; and with \<open>Unique\<close> it holds
  the lock, which was free, in either case. How long the lock lasts is not part of the queue \<open>st\<close>.
\<close>

theorem EnqueueContext_adds_once:
  assumes "redis_client send db_of" and "\<not> isBlank uuid"
    and "EnqueueContext md5hex send ctx uuid clk (Some t) os b = (Inr info, b')"
  shows "\<exists>i opt. composeOptions uuid clk (opts t @ os) = Inr (i, opt) \<and> options_ok opt
    \<and> ti_ID info = o_taskID opt \<and> ti_Queue info = o_queue opt
    \<and> PublicTaskState_String (ti_State info) = Some (if clk i < o_processAt opt then ''scheduled'' else ''pending'')
    \<and> (\<forall>st. qrep (o_queue opt) (db_of (conn b)) st \<longrightarrow>
         (let msg = client_message md5hex t opt; u = typename t @ '':'' @ (case payload t of None \<Rightarrow> [] | Some p \<Rightarrow> md5hex p) in
          (o_uniqueTTL opt = 0 \<longrightarrow> q_tasks st (ID msg) = []
             \<and> qrep (o_queue opt) (db_of (conn b'))
                 (if clk i < o_processAt opt then s_schedule (encode msg) (ID msg) (unix (o_processAt opt)) [] st
                  else s_enqueue (encode msg) (ID msg) (clk (Suc i)) [] st))
          \<and> (o_uniqueTTL opt \<noteq> 0 \<longrightarrow> q_tasks st (ID msg) = [] \<and> q_locks st u = None
             \<and> qrep (o_queue opt) (db_of (conn b'))
                 (if clk i < o_processAt opt
                  then s_schedule (encode msg) (ID msg) (unix (o_processAt opt)) [(''unique_key'', msg_UniqueKey msg)]
                    (s_lock u (ID msg) st)
                  else s_enqueue (encode msg) (ID msg) (clk (Suc i)) [(''unique_key'', msg_UniqueKey msg)]
                    (s_lock u (ID msg) st)))))"
proof -
  obtain i opt where o:
    "composeOptions uuid clk (opts t @ os) = Inr (i, opt)" "options_ok opt"
    "info = newTaskInfo (client_message md5hex t opt)
      (if clk i < o_processAt opt then TaskStateScheduled else TaskStatePending)
      (if clk i < o_processAt opt then o_processAt opt else clk i) None"
    "(if clk i < o_processAt opt
      then Client_schedule send ctx (clk (Suc i)) (client_message md5hex t opt) (o_processAt opt) (o_uniqueTTL opt) b
      else Client_enqueue send ctx (clk (Suc i)) (client_message md5hex t opt) (o_uniqueTTL opt) b) = (None, b')"
    using EnqueueContext_Inr [OF assms(3,2)] by blast
  define msg where "msg = client_message md5hex t opt"
  define u where "u = typename t @ '':'' @ (case payload t of None \<Rightarrow> [] | Some p \<Rightarrow> md5hex p)"
  have q: "Queue msg = o_queue opt" "ID msg = o_taskID opt" by (simp_all add: msg_def)
  have plain: "q_tasks st (ID msg) = [] \<and> qrep (o_queue opt) (db_of (conn b'))
      (if clk i < o_processAt opt then s_schedule (encode msg) (ID msg) (unix (o_processAt opt)) [] st
       else s_enqueue (encode msg) (ID msg) (clk (Suc i)) [] st)"
    if "qrep (o_queue opt) (db_of (conn b)) st" "o_uniqueTTL opt = 0" for st
  proof -
    have rep: "qrep (Queue msg) (db_of (conn b)) st" using that(1) q(1) by simp
    show ?thesis
    proof (cases "clk i < o_processAt opt")
      case True
      then have "Rdb.Schedule send ctx msg (o_processAt opt) b = (None, b')"
        using o(4) that(2) by (simp add: Client_schedule_def msg_def)
      from redis_client.Schedule_outcome [OF assms(1) this rep] show ?thesis
        using True q(1) by (auto simp: added_def refused_def split: if_splits)
    next
      case False
      then have "Rdb.Enqueue send ctx (clk (Suc i)) msg b = (None, b')"
        using o(4) that(2) by (simp add: Client_enqueue_def msg_def)
      from redis_client.Enqueue_outcome [OF assms(1) this rep] show ?thesis
        using False q(1) by (auto simp: added_def refused_def split: if_splits)
    qed
  qed
  have unique: "q_tasks st (ID msg) = [] \<and> q_locks st u = None
      \<and> qrep (o_queue opt) (db_of (conn b'))
          (if clk i < o_processAt opt
           then s_schedule (encode msg) (ID msg) (unix (o_processAt opt)) [(''unique_key'', msg_UniqueKey msg)]
             (s_lock u (ID msg) st)
           else s_enqueue (encode msg) (ID msg) (clk (Suc i)) [(''unique_key'', msg_UniqueKey msg)]
             (s_lock u (ID msg) st))"
    if "qrep (o_queue opt) (db_of (conn b)) st" "o_uniqueTTL opt \<noteq> 0" for st
  proof -
    have rep: "qrep (Queue msg) (db_of (conn b)) st" using that(1) q(1) by simp
    have ttl: "second_ns \<le> o_uniqueTTL opt" "0 < o_uniqueTTL opt"
      using o(2) that(2) by (auto simp: options_ok_def second_ns_def)
    have k: "msg_UniqueKey msg = kname (Queue msg) (KUnique u)"
      using ttl(2) by (simp add: msg_def u_def client_message_def key_simps)
    show ?thesis
    proof (cases "clk i < o_processAt opt")
      case True
      then have s: "Rdb.ScheduleUnique send ctx msg (o_processAt opt) (o_processAt opt + o_uniqueTTL opt - clk (Suc i)) b
          = (None, b')"
        using o(4) ttl(2) by (simp add: Client_schedule_def msg_def)
      from redis_client.ScheduleUnique_outcome [OF assms(1) s rep k
          redis_client.ScheduleUnique_needs_second [OF assms(1) s]]
      show ?thesis using True q(1) by (auto simp: added_def refused_def split: if_splits)
    next
      case False
      then have "Rdb.EnqueueUnique send ctx (clk (Suc i)) msg (o_uniqueTTL opt) b = (None, b')"
        using o(4) ttl(2) by (simp add: Client_enqueue_def msg_def)
      from redis_client.EnqueueUnique_outcome [OF assms(1) this rep k ttl(1)] show ?thesis
        using False q(1) by (auto simp: added_def refused_def split: if_splits)
    qed
  qed
  have info: "ti_ID info = o_taskID opt" "ti_Queue info = o_queue opt"
    "PublicTaskState_String (ti_State info) = Some (if clk i < o_processAt opt then ''scheduled'' else ''pending'')"
    using o(3) by (simp_all add: newTaskInfo_def PublicTaskState_String_def)
  show ?thesis
    using o(1,2) info plain [unfolded msg_def] unique [unfolded msg_def u_def]
    by (intro exI [of _ i] exI [of _ opt]) (auto simp: Let_def)
qed

definition demo_task :: Task where
  "demo_task = NewTask ''mail'' (Some ''x'') []"

lemma demo_enqueued:
  "\<exists>info b'. EnqueueContext id net_send False ''t9'' (\<lambda>_. 5) (Some demo_task) [] (demo_conn []) = (Inr info, b')"
proof -
  let ?m = "client_message id demo_task (default_options ''t9'' 5)"
  have "does ''default'' (qop_prog 100 ''default'' (Op_enqueue ''t9'' (encode ?m) 5)) empty_queue (RInt 1)
      (s_enqueue (encode ?m) ''t9'' 5 [] empty_queue)"
    by (simp add: does_enqueue free_empty)
  from demo_add [OF this, of "''rdb.Enqueue''"]
  have "fst (Rdb.Enqueue net_send False 5 ?m (demo_conn [])) = None"
    by (auto simp: Enqueue_def publishQueue_def Let_def add_result_def default_options_def DefaultQueueName_def
        split: prod.split)
  then obtain b' where b': "Rdb.Enqueue net_send False 5 ?m (demo_conn []) = (None, b')"
    by (metis prod.collapse)
  have "composeOptions ''t9'' (\<lambda>_. 5) [] = Inr (1, default_options ''t9'' 5)" by (simp add: composeOptions_def)
  moreover have "TrimSpace (typename demo_task) \<noteq> []" "opts demo_task = []"
    by code_simp+
  moreover have "o_processAt (default_options ''t9'' 5) = 5" "o_uniqueTTL (default_options ''t9'' 5) = 0"
    by (simp_all add: default_options_def)
  ultimately have "EnqueueContext id net_send False ''t9'' (\<lambda>_. 5) (Some demo_task) [] (demo_conn [])
      = (Inr (newTaskInfo ?m TaskStatePending 5 None), b')"
    using b' by (simp add: EnqueueContext_def Client_enqueue_def)
  then show ?thesis by blast
qed

theorem EnqueueContext_adds_once_witness:
  "\<exists>info b' i opt. EnqueueContext id net_send False ''t9'' (\<lambda>_. 5) (Some demo_task) [] (demo_conn []) = (Inr info, b')
     \<and> composeOptions ''t9'' (\<lambda>_. 5) (opts demo_task @ []) = Inr (i, opt) \<and> ti_Queue info = o_queue opt"
proof -
  obtain info b' where e: "EnqueueContext id net_send False ''t9'' (\<lambda>_. 5) (Some demo_task) [] (demo_conn []) = (Inr info, b')"
    using demo_enqueued by blast
  have "\<not> isBlank ''t9''" by code_simp
  from EnqueueContext_adds_once [OF demo_send this e] show ?thesis using e by blast
qed


section \<open>The dashboard and the connection options\<close>

text \<open>
  C39. What the dashboard shows of a queue is what is in Redis. When its reads are answered, the
  counts are the lengths of the collections and the pause flag is that of the queue, and the
  task table has exactly one row for each of the first \<open>lim\<close> tasks in the state asked for, in
  the order of their collection, with every field of the stored message and the score. When
  reads fail, a count may be zero and rows may be missing, but the rows shown are still of tasks
  in that state. The reads change nothing.
\<close>

theorem dashboard_faithful:
  assumes "redis_client send db_of" and "qrep q (db_of s) st" and "getQueueInfo send q s = (info, s1)"
    and "GetTasks send q (TaskState_String ts) lim s1 = (tasks, s2)"
  shows "db_of s2 = db_of s \<and> qi_Name info = q \<and> info_of info st
    \<and> (\<exists>ids. set ids \<subseteq> in_state st ts \<and> (\<forall>t \<in> set tasks. row_of q (TaskState_String ts) st ids t))
    \<and> (answering send up \<and> up s \<longrightarrow>
         info = \<lparr>qi_Name = q, qi_Pending = int (length (q_pending st)), qi_Active = int (length (q_active st)),
           qi_Scheduled = int (length (q_scheduled st)), qi_Retry = int (length (q_retry st)),
           qi_Archived = int (length (q_archived st)), qi_Completed = int (length (q_completed st)),
           qi_Paused = q_paused st\<rparr>
         \<and> (0 \<le> lim \<longrightarrow> tasks = List.map_filter (task_row q ts st) (first_entries lim (entries_in ts st))))"
proof -
  have i: "db_of s1 = db_of s \<and> qi_Name info = q \<and> info_of info st"
    by (rule redis_client.getQueueInfo_shows [OF assms(1-3)])
  then have rep: "qrep q (db_of s1) st" using assms(2) by simp
  have "tasks = List.map_filter (task_row q ts st) (first_entries lim (entries_in ts st))"
    if "answering send up" "up s" "0 \<le> lim"
    using redis_client.getQueueInfo_answered [OF assms(1) that(1,2) assms(2)]
      redis_client.GetTasks_answered [OF assms(1) that(1) _ rep that(3), of ts] assms(3,4) by auto
  moreover have "info = \<lparr>qi_Name = q, qi_Pending = int (length (q_pending st)), qi_Active = int (length (q_active st)),
      qi_Scheduled = int (length (q_scheduled st)), qi_Retry = int (length (q_retry st)),
      qi_Archived = int (length (q_archived st)), qi_Completed = int (length (q_completed st)), qi_Paused = q_paused st\<rparr>"
    if "answering send up" "up s"
    using redis_client.getQueueInfo_answered [OF assms(1) that assms(2)] assms(3) by auto
  ultimately show ?thesis using redis_client.GetTasks_rows [OF assms(1) rep assms(4)] i by auto
qed

theorem dashboard_faithful_witness:
  "\<exists>info s1 tasks s2. getQueueInfo net_send ''default'' (conn (demo_conn demo_active)) = (info, s1)
     \<and> GetTasks net_send ''default'' ''active'' 10 s1 = (tasks, s2)
     \<and> qi_Active info = 1 \<and> qi_Pending info = 0 \<and> server s2 = demo_run demo_active
     \<and> tasks = [\<lparr>ut_ID = ''t1'', ut_Type = ''mail'', ut_Queue = ''default'', ut_State = ''active'', ut_Payload = ''x'',
          ut_MaxRetry = 25, ut_Retried = 0, ut_LastError = [], ut_LastFailedAt = None, ut_NextRunAt = None\<rparr>]"
proof -
  obtain info s1 where i: "getQueueInfo net_send ''default'' (conn (demo_conn demo_active)) = (info, s1)"
    by fastforce
  obtain tasks s2 where g: "GetTasks net_send ''default'' (TaskState_String TaskStateActive) 10 s1 = (tasks, s2)"
    by fastforce
  have rep: "qrep ''default'' (server (conn (demo_conn demo_active))) (demo_effect demo_active)"
    using demo_active_rep by simp
  have st: "q_active (demo_effect demo_active) = [''t1'']" "q_pending (demo_effect demo_active) = []"
    "field_of (demo_effect demo_active) ''t1'' ''msg'' = Some (encode demo_msg)"
    by (simp_all add: demo_effect_def demo_active_def demo_pending_def empty_queue_def s_enqueue_def s_dequeue_def
        put_fields_def Let_def field_of_def map_of_hset_all delete_conv')
  have "List.map_filter (task_row ''default'' TaskStateActive (demo_effect demo_active))
      (first_entries 10 (entries_in TaskStateActive (demo_effect demo_active)))
    = [\<lparr>ut_ID = ''t1'', ut_Type = ''mail'', ut_Queue = ''default'', ut_State = ''active'', ut_Payload = ''x'',
          ut_MaxRetry = 25, ut_Retried = 0, ut_LastError = [], ut_LastFailedAt = None, ut_NextRunAt = None\<rparr>]"
    by (simp add: st first_entries_def List.map_filter_simps task_row_def ui_decode_encode [OF demo_msg_ok])
      (simp add: demo_msg_def)
  with dashboard_faithful [OF demo_send rep i g, of "\<lambda>s. faults s = []"] net_answering i g st show ?thesis by simp
qed

text \<open>
  C40. The numbers of \<open>/api/stats\<close>: \<open>itoa64\<close> prints every number that is not negative in decimal
  (and nothing for a negative one), while \<open>itoa\<close> is right for one digit only: it prints the
  last digit of larger numbers.
\<close>

theorem api_numbers:
  assumes "0 \<le> n"
  shows "itoa64 n = show_int n \<and> (0 < n \<longrightarrow> itoa64 (- n) = []) \<and> (itoa n = show_int n \<longleftrightarrow> n < 10)"
  using itoa64_show [OF assms] itoa64_negative [of "- n"] itoa_correct_iff [OF assms] by simp

theorem api_numbers_witness: "itoa64 1234 = show_int 1234 \<and> itoa 12 \<noteq> show_int 12"
  using api_numbers [of 1234] api_numbers [of 12] by simp

text \<open>
  C38. What a server reports about itself is what the dashboard shows. Once \<open>WriteServerState\<close> has
  succeeded, \<open>GetServers\<close> lists the server with every field as reported (the queues by name)
  until the report expires, when its key is gone; every worker's record is stored under its
  task ID and reads back as reported; and \<open>ClearServerState\<close> removes both keys. The reads of the
  dashboard are answered (\<open>answering\<close>), and the report has strings that are valid UTF-8, 64-bit numbers
  and times that JSON can hold (\<open>server_ok\<close>, \<open>worker_ok\<close>).
\<close>

theorem server_report_shown:
  assumes "redis_client send db_of" and "answering send up" and "up s" and "server_ok zone info"
    and "WriteServerState zone send now info ws ttl r = (None, r')"
    and "db_of s = (db_of (conn r'))\<lparr>srv_ms := t\<rparr>" and "GetServers send s = (res, s')"
  shows "\<exists>infos. res = Inr infos
    \<and> (t \<le> srv_ms (db_of (conn r)) + 1000 * (ttl div second_ns)
        \<longrightarrow> info\<lparr>si_Queues := sort_key fst (si_Queues info)\<rparr> \<in> set infos)
    \<and> (srv_ms (db_of (conn r)) + 1000 * (ttl div second_ns) < t
        \<longrightarrow> lookup (db_of s) (ServerInfoKey (si_Host info) (si_PID info) (si_ServerID info)) = None)
    \<and> (list_all (worker_ok zone) ws \<and> distinct (map wi_ID ws) \<longrightarrow>
        (\<exists>h. get_hash (db_of (conn r')) (WorkersKey (si_Host info) (si_PID info) (si_ServerID info)) = Some h
          \<and> (\<forall>w \<in> set ws. \<exists>b. map_of h (wi_ID w) = Some b \<and> DecodeWorkerInfo b = Inr w)))
    \<and> (ClearServerState send (si_Host info) (si_PID info) (si_ServerID info) r' = (None, r'') \<longrightarrow>
        lookup (db_of (conn r'')) (ServerInfoKey (si_Host info) (si_PID info) (si_ServerID info)) = None
        \<and> lookup (db_of (conn r'')) (WorkersKey (si_Host info) (si_PID info) (si_ServerID info)) = None)"
proof -
  let ?sk = "ServerInfoKey (si_Host info) (si_PID info) (si_ServerID info)"
  let ?exp = "srv_ms (db_of (conn r)) + 1000 * (ttl div second_ns)"
  obtain b where b: "EncodeServerInfo zone (Some info) = Inr b"
    "lookup (db_of (conn r')) ?sk = Some (RStr b, Some ?exp)"
    "get_hash (db_of (conn r')) (WorkersKey (si_Host info) (si_PID info) (si_ServerID info))
      = Some (hset_all (encode_workers zone ws) [])"
    using redis_client.WriteServerState_writes [OF assms(1,5)] by blast
  have dec: "DecodeServerInfo b = Inr (info\<lparr>si_Queues := sort_key fst (si_Queues info)\<rparr>)"
    using DecodeServerInfo_encode [OF assms(4)] b(1) by auto
  have at: "lookup (db_of s) ?sk = (if t \<le> ?exp then Some (RStr b, Some ?exp) else None)"
    unfolding assms(6) by (rule lookup_later [OF b(2)])
  have res: "res = Inr (List.map_filter (server_at (db_of s)) (server_keys (db_of s)))"
    using redis_client.GetServers_shows [OF assms(1-3)] assms(7) by auto
  have "info\<lparr>si_Queues := sort_key fst (si_Queues info)\<rparr>
      \<in> set (List.map_filter (server_at (db_of s)) (server_keys (db_of s)))" if "t \<le> ?exp"
    using server_key_listed [of "db_of s"] at that dec
    by (intro map_filter_intro [of ?sk]) (auto simp: server_at_def)
  then show ?thesis
    using res at redis_client.ClearServerState_clears [OF assms(1)] b(3) workers_stored [of zone ws] by auto
qed


definition demo_report :: ServerInfo where
  "demo_report = \<lparr>si_Host = ''host'', si_PID = 7, si_ServerID = ''s1'', si_Concurrency = 2,
     si_Queues = [(''low'', 1), (''default'', 3)], si_StrictPriority = False, si_Status = ''active'',
     si_Started = 0, si_ActiveWorkerCount = 0\<rparr>"

lemma demo_report_ok: "server_ok (\<lambda>_. 7200) demo_report"
proof -
  have "year_of_day 719162 = (1970, 0)" by (simp add: year_of_day_def)
  then have "date_of_days 0 = (1970, 1, 1)" by (simp add: date_of_days_def month_lengths_def)
  then have "time_ok (\<lambda>_. 7200) 0" by (simp add: time_ok_def format_time_def)
  then show ?thesis by (simp add: server_ok_def demo_report_def int64_def byte_def)
qed

lemma demo_report_written:
  "\<exists>r'. WriteServerState (\<lambda>_. 7200) net_send 0 demo_report [] (10 * second_ns) (demo_conn []) = (None, r')
     \<and> faults (conn r') = []"
proof -
  obtain b where b: "EncodeServerInfo (\<lambda>_. 7200) (Some demo_report) = Inr b"
    using DecodeServerInfo_encode [OF demo_report_ok] by blast
  have script: "fst (run (writeServerStateCmd sk wk 10 b []) db) = RStatus ''OK''" for sk wk db
    by (simp add: writeServerStateCmd_def run_call set_expiry_def ok_reply_def)
  have add: "fst (run (single (ZADD k s m)) db) = RInt 1" if "get_zset db k = Some []" for k s m db
    using that by (simp add: run_single on_zset_def)
  have e: "get_zset (demo_run []) k = Some []" for k
    by (simp add: demo_run_def demo_empty_def get_zset_def lookup_def)
  have "get_zset (apply_prog (single (ZADD AllServers s m)) (demo_run [])) AllWorkers = Some []" for s m
    using e by (simp add: apply_prog_def run_single on_zset_def AllServers_def AllWorkers_def)
  then show ?thesis
    by (simp add: WriteServerState_def b net_issue runScript_def add e script Let_def second_ns_def)
qed

theorem server_report_shown_witness:
  "\<exists>r' infos s'. WriteServerState (\<lambda>_. 7200) net_send 0 demo_report [] (10 * second_ns) (demo_conn []) = (None, r')
     \<and> GetServers net_send (conn r') = (Inr infos, s')
     \<and> demo_report\<lparr>si_Queues := [(''default'', 3), (''low'', 1)]\<rparr> \<in> set infos"
proof -
  obtain r' where w: "WriteServerState (\<lambda>_. 7200) net_send 0 demo_report [] (10 * second_ns) (demo_conn []) = (None, r')"
    "faults (conn r') = []"
    using demo_report_written by blast
  obtain res s' where g: "GetServers net_send (conn r') = (res, s')" by fastforce
  have "srv_ms (server (conn r')) = 0"
    using redis_client.WriteServerState_writes [OF demo_send w(1)] by (auto simp: demo_run_def demo_empty_def)
  then have db: "server (conn r') = (server (conn r'))\<lparr>srv_ms := 0\<rparr>" by simp
  have q: "sort_key fst (si_Queues demo_report) = [(''default'', 3), (''low'', 1)]"
    by (simp add: demo_report_def)
  show ?thesis
    using server_report_shown [OF demo_send net_answering w(2) demo_report_ok w(1) db g] w(1) g
    by (auto simp: q demo_run_def demo_empty_def second_ns_def)
qed

end
